(* ===== verification/Veil_Prelude.thy ===== *)
theory Veil_Prelude
  imports Main "HOL-Library.Word"
begin

unbundle bit_operations_syntax

text \<open>
  What every component of the development shares: the machine integers of the source, the outcome
  of a Rust call (a value, an error value or a panic), checked indexing and slicing, and the
  big-endian and little-endian byte images of words with their round trips.

  Integers are words of the width the source declares. No Cargo manifest of the repository sets
  \<^verbatim>\<open>overflow-checks\<close>, so a release build
  has them off: \<open>+\<close>, \<open>-\<close> and \<open>*\<close> on them wrap, as they do on \<^typ>\<open>'a word\<close>.
\<close>

section \<open>Types\<close>

type_synonym u8 = "8 word"
type_synonym u16 = "16 word"
type_synonym u32 = "32 word"
type_synonym u64 = "64 word"
type_synonym u128 = "128 word"
type_synonym bytes = "u8 list"

text \<open>
  The outcome of a Rust call. A function of type \<^verbatim>\<open>Result\<close> is \<open>Ok\<close> or \<open>Err\<close>; a function of type
  \<^verbatim>\<open>Option\<close> uses \<open>Err ()\<close> for \<^verbatim>\<open>None\<close>; \<open>Panic\<close> is an unwinding panic (an index out of range, a
  failed \<^verbatim>\<open>assert!\<close>, an \<^verbatim>\<open>expect\<close> or \<^verbatim>\<open>unwrap\<close> on the wrong variant).
\<close>

datatype ('e, 'a) rust = Ok 'a | Err 'e | Panic

type_synonym 'a opt = "(unit, 'a) rust"

fun rbind :: "('e, 'a) rust \<Rightarrow> ('a \<Rightarrow> ('e, 'b) rust) \<Rightarrow> ('e, 'b) rust" where
  "rbind (Ok a) f = f a"
| "rbind (Err e) f = Err e"
| "rbind Panic f = Panic"

fun rmap_err :: "('e \<Rightarrow> 'f) \<Rightarrow> ('e, 'a) rust \<Rightarrow> ('f, 'a) rust" where
  "rmap_err g (Ok a) = Ok a"
| "rmap_err g (Err e) = Err (g e)"
| "rmap_err g Panic = Panic"

text \<open>Checked slicing \<^verbatim>\<open>&xs[a..b]\<close> and indexing \<^verbatim>\<open>xs[i]\<close>: out of range is a panic.\<close>

definition range :: "nat \<Rightarrow> nat \<Rightarrow> 'a list \<Rightarrow> ('e, 'a list) rust" where
  "range a b xs = (if a \<le> b \<and> b \<le> length xs then Ok (take (b - a) (drop a xs)) else Panic)"

definition index :: "'a list \<Rightarrow> nat \<Rightarrow> ('e, 'a) rust" where
  "index xs i = (if i < length xs then Ok (xs ! i) else Panic)"

text \<open>\<^verbatim>\<open>to_le_bytes\<close>, \<^verbatim>\<open>to_be_bytes\<close> of an \<open>n\<close>-byte integer and their inverses.\<close>

fun le_bytes :: "nat \<Rightarrow> 'a::len word \<Rightarrow> bytes" where
  "le_bytes 0 w = []"
| "le_bytes (Suc n) w = ucast w # le_bytes n (drop_bit 8 w)"

fun from_le :: "bytes \<Rightarrow> 'a::len word" where
  "from_le [] = 0"
| "from_le (b # bs) = ucast b OR push_bit 8 (from_le bs)"

definition be_bytes :: "nat \<Rightarrow> 'a::len word \<Rightarrow> bytes" where
  "be_bytes n w = rev (le_bytes n w)"

definition from_be :: "bytes \<Rightarrow> 'a::len word" where
  "from_be bs = from_le (rev bs)"

section \<open>Collections\<close>

named_theorems wire \<open>rewrite rules that evaluate slices of concatenated byte strings\<close>
named_theorems byte_images \<open>round trips of integers through their byte images\<close>

section \<open>Outcomes\<close>

lemma rbind_eq_Ok: "rbind m f = Ok b \<longleftrightarrow> (\<exists>a. m = Ok a \<and> f a = Ok b)"
  by (cases m) auto

lemma rbind_eq_Err: "rbind m f = Err e \<longleftrightarrow> m = Err e \<or> (\<exists>a. m = Ok a \<and> f a = Err e)"
  by (cases m) auto

lemma rbind_not_Panic: "m \<noteq> Panic \<Longrightarrow> (\<And>a. m = Ok a \<Longrightarrow> f a \<noteq> Panic) \<Longrightarrow> rbind m f \<noteq> Panic"
  by (cases m) auto

lemma rbind_cong [fundef_cong]:
  "m = m' \<Longrightarrow> (\<And>a. m' = Ok a \<Longrightarrow> f a = g a) \<Longrightarrow> rbind m f = rbind m' g"
  by (cases m') auto

section \<open>Slices\<close>

lemma range_in [wire]: "a \<le> b \<Longrightarrow> b \<le> length xs \<Longrightarrow> range a b xs = Ok (take (b - a) (drop a xs))"
  by (simp add: range_def)

lemma index_in [wire]: "i < length xs \<Longrightarrow> index xs i = Ok (xs ! i)"
  by (simp add: index_def)

lemma range_not_Err [simp]: "range a b xs \<noteq> Err e"
  by (simp add: range_def)

lemma index_not_Err [simp]: "index xs i \<noteq> Err e"
  by (simp add: index_def)

lemma range_Ok_length: "range a b xs = Ok ys \<Longrightarrow> length ys = b - a \<and> b \<le> length xs"
  by (auto simp: range_def split: if_splits)

lemma take_app [wire]: "length xs \<le> n \<Longrightarrow> take n (xs @ ys) = xs @ take (n - length xs) ys"
  by simp

lemma drop_app [wire]: "length xs \<le> n \<Longrightarrow> drop n (xs @ ys) = drop (n - length xs) ys"
  by simp

lemma take_split: "n \<le> m \<Longrightarrow> take m xs = take n xs @ take (m - n) (drop n xs)"
  by (metis le_add_diff_inverse take_add)

lemma three_bytes: "\<not> length d < 3 \<Longrightarrow> \<exists>a b c p. d = a # b # c # p"
  by (cases d; cases "tl d"; cases "tl (tl d)") auto

section \<open>Byte images of words\<close>

lemma length_le_bytes [simp]: "length (le_bytes n w) = n"
  by (induction n arbitrary: w) auto

lemma length_be_bytes [simp]: "length (be_bytes n w) = n"
  by (simp add: be_bytes_def)

lemma nth_le_bytes: "i < n \<Longrightarrow> le_bytes n w ! i = ucast (drop_bit (8 * i) w)"
proof (induction n arbitrary: w i)
  case 0
  then show ?case by simp
next
  case (Suc n)
  then show ?case by (cases i) (simp_all add: drop_bit_drop_bit add.commute)
qed

lemma bit_from_le:
  "bit (from_le bs :: 'a::len word) k \<longleftrightarrow>
     k < LENGTH('a) \<and> k div 8 < length bs \<and> bit (bs ! (k div 8)) (k mod 8)"
proof (induction bs arbitrary: k)
  case Nil
  then show ?case by simp
next
  case (Cons b bs)
  have split: "bit (from_le (b # bs) :: 'a word) k \<longleftrightarrow>
      k < LENGTH('a) \<and> (bit b k \<or> 8 \<le> k \<and> bit (from_le bs :: 'a word) (k - 8))"
    by (auto simp: bit_or_iff bit_push_bit_iff bit_ucast_iff)
  show ?case
  proof (cases "k < 8")
    case True
    then show ?thesis unfolding split by simp
  next
    case False
    then have big: "\<not> bit b k" using bit_imp_le_length [of b k] by auto
    from False obtain j where j: "k = j + 8" by (metis le_add_diff_inverse2 not_less)
    have "(j + 8) div 8 = Suc (j div 8)" by simp
    then show ?thesis unfolding split Cons.IH using big unfolding j by auto
  qed
qed

lemma from_le_le_bytes [byte_images]:
  "LENGTH('a) \<le> 8 * n \<Longrightarrow> from_le (le_bytes n w) = (w :: 'a::len word)"
proof (rule bit_eqI)
  fix k
  assume size: "LENGTH('a) \<le> 8 * n" and "possible_bit TYPE('a word) k"
  then have k: "k < LENGTH('a)" by simp
  then have "k div 8 < n" using size by auto
  moreover have "8 * (k div 8) + k mod 8 = k" by simp
  ultimately show "bit (from_le (le_bytes n w) :: 'a word) k = bit w k"
    using k by (simp add: bit_from_le nth_le_bytes bit_ucast_iff bit_drop_bit_eq)
qed

lemma le_bytes_from_le [byte_images]:
  assumes "length bs = n" and "8 * n \<le> LENGTH('a::len)"
  shows "le_bytes n (from_le bs :: 'a word) = bs"
proof (rule nth_equalityI)
  show "length (le_bytes n (from_le bs :: 'a word)) = length bs" using assms by simp
  fix i
  assume "i < length (le_bytes n (from_le bs :: 'a word))"
  then have i: "i < n" by simp
  show "le_bytes n (from_le bs :: 'a word) ! i = bs ! i"
  proof (rule bit_eqI)
    fix k
    assume "possible_bit TYPE(8 word) k"
    then have k: "k < 8" by simp
    then have "(8 * i + k) div 8 = i" "(8 * i + k) mod 8 = k" by auto
    moreover have "8 * i + k < LENGTH('a)" using assms(2) i k by linarith
    ultimately show "bit (le_bytes n (from_le bs :: 'a word) ! i) k = bit (bs ! i) k"
      using i k assms(1) by (simp add: nth_le_bytes bit_ucast_iff bit_drop_bit_eq bit_from_le)
  qed
qed

lemma from_be_be_bytes [byte_images]:
  "LENGTH('a) \<le> 8 * n \<Longrightarrow> from_be (be_bytes n w) = (w :: 'a::len word)"
  by (simp add: from_be_def be_bytes_def from_le_le_bytes)

lemma be_bytes_from_be [byte_images]:
  "length bs = n \<Longrightarrow> 8 * n \<le> LENGTH('a::len) \<Longrightarrow> be_bytes n (from_be bs :: 'a word) = bs"
  by (simp add: from_be_def be_bytes_def le_bytes_from_le)

lemma be_bytes_inj: "LENGTH('a) \<le> 8 * n \<Longrightarrow> be_bytes n v = be_bytes n w \<longleftrightarrow> v = (w :: 'a::len word)"
  by (metis from_be_be_bytes)

lemma le_bytes_inj: "LENGTH('a) \<le> 8 * n \<Longrightarrow> le_bytes n v = le_bytes n w \<longleftrightarrow> v = (w :: 'a::len word)"
  by (metis from_le_le_bytes)

section \<open>The end-around carry of 16-bit sums\<close>

lemma unat_and_FFFF: "unat ((w :: u32) AND 0xFFFF) = unat w mod 65536"
proof -
  have m: "(0xFFFF :: u32) = mask 16" by (simp add: mask_eq_exp_minus_1)
  have "unat (take_bit 16 w) = take_bit 16 (unat w)" by (rule unsigned_take_bit_eq)
  also have "\<dots> = unat w mod 65536" by (simp add: take_bit_eq_mod)
  finally show ?thesis unfolding m take_bit_eq_mask .
qed

lemma unat_drop_16: "unat (drop_bit 16 (w :: u32)) = unat w div 65536"
  by (simp only: unat_drop_bit_eq) (simp add: drop_bit_eq_div)

lemma unat_carry_step:
  "unat ((w AND 0xFFFF) + drop_bit 16 (w :: u32)) = unat w mod 65536 + unat w div 65536"
proof -
  have "unat w mod 65536 < 65536" by simp
  moreover have "unat w div 65536 \<le> unat w div 65536 * 65536" by simp
  moreover have "unat w < 2 ^ LENGTH(32)" by (rule unsigned_less)
  ultimately have "unat w mod 65536 + unat w div 65536 < 2 ^ LENGTH(32)"
    using div_mult_mod_eq [of "unat w" 65536] by linarith
  then show ?thesis
    by (simp only: unat_word_ariths unat_and_FFFF unat_drop_16 mod_less)
qed

section \<open>Counting without wrap-around\<close>

lemma unat_Suc_below: "i < c \<Longrightarrow> unat (i + 1) = Suc (unat (i :: u64))"
proof -
  assume "i < c"
  then have "unat i < unat c" by (simp add: word_less_nat_alt)
  moreover have "unat c < 2 ^ 64" using unsigned_less [of c, where 'a = nat] by simp
  ultimately have "unat i + 1 < 2 ^ 64" by linarith
  then show ?thesis by (simp add: unat_word_ariths)
qed

end
