(* ===== verification/Machines.thy ===== *)
theory Machines
  imports Main
begin

text \<open>
  Interfaces shared by the stateful components. A component is a step function
  \<open>state \<Rightarrow> operation \<Rightarrow> state \<times> reply\<close>; \<open>run\<close> feeds it a sequence of operations, in the order in
  which the mutex around the component serialises them. Four contracts are stated as locales and
  their consequences for whole runs are proved once:
  \<^item> \<open>invariant_machine\<close>: every admissible step keeps an invariant;
  \<^item> \<open>safe_machine\<close>: moreover every reply to an admissible operation is acceptable;
  \<^item> \<open>replay_guard\<close>: a key that a step accepts was not dead before and is dead afterwards, and dead
    keys stay dead. Bandwidth quotas (payment nonces), transport sessions (packet counters) and
    handshakes (timestamps) interpret it;
  \<^item> \<open>metered\<close>: what a step lets through is paid for out of a balance.
\<close>

fun run :: "('s \<Rightarrow> 'o \<Rightarrow> 's \<times> 'r) \<Rightarrow> 's \<Rightarrow> 'o list \<Rightarrow> 's \<times> 'r list" where
  "run step s [] = (s, [])"
| "run step s (x # xs) =
     (let (s1, r) = step s x; (s2, rs) = run step s1 xs in (s2, r # rs))"

text \<open>The keys accepted along a run, in order.\<close>

fun accepted :: "('o \<Rightarrow> 'r \<Rightarrow> 'k option) \<Rightarrow> 'o list \<Rightarrow> 'r list \<Rightarrow> 'k list" where
  "accepted acc (x # xs) (r # rs) =
     (case acc x r of None \<Rightarrow> accepted acc xs rs | Some k \<Rightarrow> k # accepted acc xs rs)"
| "accepted acc _ _ = []"

lemma run_Cons: "run step s (x # xs) =
    (fst (run step (fst (step s x)) xs), snd (step s x) # snd (run step (fst (step s x)) xs))"
  by (simp add: case_prod_beta Let_def)

lemma length_run [simp]: "length (snd (run step s xs)) = length xs"
  by (induction xs arbitrary: s) (simp_all add: run_Cons del: run.simps(2))

lemma run_append_state:
  "fst (run step s (xs @ ys)) = fst (run step (fst (run step s xs)) ys)"
  by (induction xs arbitrary: s) (simp_all add: run_Cons del: run.simps(2))

declare run.simps(2) [simp del]

section \<open>Invariants\<close>

locale invariant_machine =
  fixes step :: "'s \<Rightarrow> 'o \<Rightarrow> 's \<times> 'r"
    and adm :: "'o \<Rightarrow> bool"
    and inv :: "'s \<Rightarrow> bool"
  assumes inv_step: "inv s \<Longrightarrow> adm x \<Longrightarrow> inv (fst (step s x))"
begin

lemma inv_run: "inv s \<Longrightarrow> list_all adm xs \<Longrightarrow> inv (fst (run step s xs))"
  by (induction xs arbitrary: s) (auto simp: run_Cons inv_step)

end

section \<open>Safe replies\<close>

locale safe_machine = invariant_machine step adm inv
  for step :: "'s \<Rightarrow> 'o \<Rightarrow> 's \<times> 'r" and adm :: "'o \<Rightarrow> bool" and inv :: "'s \<Rightarrow> bool" +
  fixes safe :: "'r \<Rightarrow> bool"
  assumes safe_step: "inv s \<Longrightarrow> adm x \<Longrightarrow> safe (snd (step s x))"
begin

lemma safe_run: "inv s \<Longrightarrow> list_all adm xs \<Longrightarrow> list_all safe (snd (run step s xs))"
  by (induction xs arbitrary: s) (auto simp: run_Cons inv_step safe_step)

end

section \<open>Replay protection\<close>

locale replay_guard = invariant_machine step adm inv
  for step :: "'s \<Rightarrow> 'o \<Rightarrow> 's \<times> 'r" and adm :: "'o \<Rightarrow> bool" and inv :: "'s \<Rightarrow> bool" +
  fixes acc :: "'o \<Rightarrow> 'r \<Rightarrow> 'k option"
    and dead :: "'s \<Rightarrow> 'k set"
  assumes fresh: "inv s \<Longrightarrow> adm x \<Longrightarrow> acc x (snd (step s x)) = Some k \<Longrightarrow> k \<notin> dead s"
    and kills: "inv s \<Longrightarrow> adm x \<Longrightarrow> acc x (snd (step s x)) = Some k \<Longrightarrow> k \<in> dead (fst (step s x))"
    and dead_mono: "inv s \<Longrightarrow> adm x \<Longrightarrow> dead s \<subseteq> dead (fst (step s x))"
begin

lemma dead_run: "inv s \<Longrightarrow> list_all adm xs \<Longrightarrow> dead s \<subseteq> dead (fst (run step s xs))"
proof (induction xs arbitrary: s)
  case Nil
  then show ?case by simp
next
  case (Cons x xs)
  from Cons.prems have "inv (fst (step s x))" "dead s \<subseteq> dead (fst (step s x))"
    by (simp_all add: inv_step dead_mono)
  with Cons show ?case by (fastforce simp: run_Cons)
qed

lemma accepted_not_dead:
  "inv s \<Longrightarrow> list_all adm xs \<Longrightarrow> set (accepted acc xs (snd (run step s xs))) \<inter> dead s = {}"
proof (induction xs arbitrary: s)
  case Nil
  then show ?case by simp
next
  case (Cons x xs)
  from Cons.prems have "inv (fst (step s x))" "dead s \<subseteq> dead (fst (step s x))"
    by (simp_all add: inv_step dead_mono)
  with Cons.IH [of "fst (step s x)"] Cons.prems fresh [of s x] show ?case
    by (auto simp: run_Cons split: option.splits)
qed

lemma accepted_distinct:
  "inv s \<Longrightarrow> list_all adm xs \<Longrightarrow> distinct (accepted acc xs (snd (run step s xs)))"
proof (induction xs arbitrary: s)
  case Nil
  then show ?case by simp
next
  case (Cons x xs)
  then have inv': "inv (fst (step s x))" and adm: "list_all adm xs" "adm x"
    by (auto intro: inv_step)
  have "k \<notin> set (accepted acc xs (snd (run step (fst (step s x)) xs)))"
    if "acc x (snd (step s x)) = Some k" for k
    using accepted_not_dead [OF inv' adm(1)] kills [OF Cons.prems(1) adm(2) that] by blast
  with Cons.IH [OF inv' adm(1)] show ?case by (simp add: run_Cons split: option.split)
qed

end

section \<open>Metering\<close>

locale metered = invariant_machine step adm inv
  for step :: "'s \<Rightarrow> 'o \<Rightarrow> 's \<times> 'r" and adm :: "'o \<Rightarrow> bool" and inv :: "'s \<Rightarrow> bool" +
  fixes balance :: "'s \<Rightarrow> nat"
    and paid :: "'o \<Rightarrow> nat"
    and passed :: "'o \<Rightarrow> 'r \<Rightarrow> nat"
  assumes pays: "inv s \<Longrightarrow> adm x \<Longrightarrow>
    balance (fst (step s x)) + passed x (snd (step s x)) \<le> balance s + paid x"
begin

lemma passed_run:
  "inv s \<Longrightarrow> list_all adm xs \<Longrightarrow>
   balance (fst (run step s xs)) + sum_list (map2 passed xs (snd (run step s xs)))
     \<le> balance s + sum_list (map paid xs)"
proof (induction xs arbitrary: s)
  case Nil
  then show ?case by simp
next
  case (Cons x xs)
  then have "inv (fst (step s x))" "list_all adm xs" "adm x"
    by (auto intro: inv_step)
  with Cons.IH [of "fst (step s x)"] pays [OF Cons.prems(1)] show ?case
    by (fastforce simp: run_Cons)
qed

end

end
