(* ===== verification/Bandwidth_Quota.thy ===== *)
theory Bandwidth_Quota
  imports Veil_Prelude Machines
begin

text \<open>
  The per-peer bandwidth quota of \<^verbatim>\<open>protocol/boringtun/src/payment/quota.rs\<close>. The atomics of
  \<^verbatim>\<open>BandwidthQuota\<close> are fields of a record: every caller in \<^verbatim>\<open>device/mod.rs\<close> and \<^verbatim>\<open>device/api.rs\<close>
  holds the peer's mutex, so the operations on one quota are serialised and a run of the quota is a
  sequence of whole operations. Byte counts are 64-bit words and wrap as the atomics do.
\<close>

section \<open>Definitions\<close>

definition DEFAULT_QUOTA_BYTES :: u64 where
  "DEFAULT_QUOTA_BYTES = 10 * 1024 * 1024"

record quota =
  remaining_bytes :: u64
  blocked :: bool
  total_consumed :: u64
  payment_count :: u64
  used_nonces :: "bytes set"

definition new_quota :: "u64 \<Rightarrow> quota" where
  "new_quota initial_bytes =
     \<lparr>remaining_bytes = initial_bytes, blocked = False, total_consumed = 0, payment_count = 0,
      used_nonces = {}\<rparr>"

definition consume :: "quota \<Rightarrow> u64 \<Rightarrow> quota \<times> bool" where
  "consume q n =
     (let remaining = remaining_bytes q in
      if remaining = 0 then (q, False)
      else if n > remaining
      then (q\<lparr>remaining_bytes := 0, total_consumed := total_consumed q + remaining,
              blocked := True\<rparr>, False)
      else (q\<lparr>remaining_bytes := remaining_bytes q - n,
              total_consumed := total_consumed q + n\<rparr>, True))"

definition credit :: "quota \<Rightarrow> u64 \<Rightarrow> quota" where
  "credit q n = q\<lparr>remaining_bytes := remaining_bytes q + n,
                  payment_count := payment_count q + 1, blocked := False\<rparr>"

definition check_and_record_nonce :: "quota \<Rightarrow> bytes \<Rightarrow> quota \<times> bool" where
  "check_and_record_nonce q nonce =
     (q\<lparr>used_nonces := insert nonce (used_nonces q)\<rparr>, nonce \<notin> used_nonces q)"

definition is_blocked :: "quota \<Rightarrow> bool" where
  "is_blocked q = blocked q"

text \<open>The operations as the steps of a machine.\<close>

datatype quota_op = Consume u64 | Credit u64 | CheckNonce bytes

fun quota_step :: "quota \<Rightarrow> quota_op \<Rightarrow> quota \<times> bool" where
  "quota_step q (Consume n) = consume q n"
| "quota_step q (Credit n) = (credit q n, True)"
| "quota_step q (CheckNonce nonce) = check_and_record_nonce q nonce"

fun credited :: "quota_op \<Rightarrow> nat" where
  "credited (Credit n) = unat n"
| "credited _ = 0"

fun let_through :: "quota_op \<Rightarrow> bool \<Rightarrow> nat" where
  "let_through (Consume n) True = unat n"
| "let_through _ _ = 0"

fun recorded :: "quota_op \<Rightarrow> bool \<Rightarrow> bytes option" where
  "recorded (CheckNonce nonce) True = Some nonce"
| "recorded _ _ = None"

definition quota_inv :: "quota \<Rightarrow> bool" where
  "quota_inv q \<longleftrightarrow> (blocked q \<longrightarrow> remaining_bytes q = 0)"

definition is_credit :: "quota_op \<Rightarrow> bool" where
  "is_credit x \<longleftrightarrow> (case x of Credit _ \<Rightarrow> True | _ \<Rightarrow> False)"

section \<open>One operation\<close>

lemmas quota_defs = consume_def credit_def check_and_record_nonce_def Let_def

lemma unat_sub_le: "(n :: u64) \<le> m \<Longrightarrow> unat (m - n) + unat n = unat m"
  by (simp add: unat_sub word_le_nat_alt)

lemma new_quota_sel [simp]:
  "remaining_bytes (new_quota n) = n" "\<not> blocked (new_quota n)" "total_consumed (new_quota n) = 0"
  "payment_count (new_quota n) = 0" "used_nonces (new_quota n) = {}"
  by (simp_all add: new_quota_def)

lemma quota_inv_new [simp]: "quota_inv (new_quota n)"
  by (simp add: quota_inv_def)

lemma quota_inv_step: "quota_inv q \<Longrightarrow> quota_inv (fst (quota_step q x))"
  by (cases x) (auto simp: quota_inv_def quota_defs)

lemma quota_step_pays:
  "unat (remaining_bytes (fst (quota_step q x))) + let_through x (snd (quota_step q x))
     \<le> unat (remaining_bytes q) + credited x"
proof (cases x)
  case (Consume n)
  then show ?thesis using unat_sub_le [of n "remaining_bytes q"] by (auto simp: quota_defs not_less)
next
  case (Credit n)
  then show ?thesis by (simp add: quota_defs unat_word_ariths)
next
  case (CheckNonce nonce)
  then show ?thesis by (simp add: quota_defs)
qed

interpretation quota_machine: invariant_machine quota_step "\<lambda>_. True" quota_inv
  by unfold_locales (rule quota_inv_step)

interpretation quota_meter: metered quota_step "\<lambda>_. True" quota_inv
    "\<lambda>q. unat (remaining_bytes q)" credited let_through
  by unfold_locales (rule quota_step_pays)

interpretation quota_nonces: replay_guard quota_step "\<lambda>_. True" quota_inv recorded used_nonces
proof unfold_locales
  fix q x k
  show "recorded x (snd (quota_step q x)) = Some k \<Longrightarrow> k \<notin> used_nonces q"
    by (cases x) (auto simp: quota_defs elim: recorded.elims)
  show "recorded x (snd (quota_step q x)) = Some k \<Longrightarrow> k \<in> used_nonces (fst (quota_step q x))"
    by (cases x) (auto simp: quota_defs elim: recorded.elims)
  show "used_nonces q \<subseteq> used_nonces (fst (quota_step q x))"
    by (cases x) (auto simp: quota_defs)
qed

section \<open>Runs\<close>

lemma quota_step_conserves:
  assumes "unat (remaining_bytes q) + unat (total_consumed q) + credited x < 2 ^ 64"
  shows "unat (remaining_bytes (fst (quota_step q x))) + unat (total_consumed (fst (quota_step q x)))
    = unat (remaining_bytes q) + unat (total_consumed q) + credited x"
proof (cases x)
  case (Consume n)
  then show ?thesis
    using assms unat_sub_le [of n "remaining_bytes q"]
    by (auto simp: quota_defs not_less unat_word_ariths)
next
  case (Credit n)
  then show ?thesis using assms by (auto simp: quota_defs unat_word_ariths)
next
  case (CheckNonce nonce)
  then show ?thesis by (simp add: quota_defs)
qed

lemma quota_blocked_step:
  assumes "quota_inv q" and "blocked q" and "\<not> is_credit x"
  shows "blocked (fst (quota_step q x))" and "let_through x (snd (quota_step q x)) = 0"
  using assms by (cases x; auto simp: quota_defs quota_inv_def is_credit_def)+

text \<open>Accounting: as long as the credits do not exceed 64 bits, the bytes still available plus
  the bytes charged equal what the quota started with plus what was credited, after any sequence of
  operations.\<close>

theorem quota_conserves_bytes:
  assumes "unat (remaining_bytes q) + unat (total_consumed q) + sum_list (map credited xs) < 2 ^ 64"
  shows "unat (remaining_bytes (fst (run quota_step q xs)))
      + unat (total_consumed (fst (run quota_step q xs)))
    = unat (remaining_bytes q) + unat (total_consumed q) + sum_list (map credited xs)"
  using assms
proof (induction xs arbitrary: q)
  case Nil
  then show ?case by simp
next
  case (Cons x xs)
  then show ?case using quota_step_conserves [of q x] by (simp add: run_Cons)
qed

theorem quota_conserves_bytes_witness:
  "unat (remaining_bytes (fst (run quota_step (new_quota 1000) [Consume 500, Consume 600, Credit 70])))
      + unat (total_consumed (fst (run quota_step (new_quota 1000) [Consume 500, Consume 600, Credit 70])))
    = 1070"
  using quota_conserves_bytes [of "new_quota 1000" "[Consume 500, Consume 600, Credit 70]"]
  by simp

text \<open>C14. Nothing is let through unpaid: along any sequence of operations the bytes that
  \<open>consume\<close> allowed never exceed the initial allowance plus the credited bytes.\<close>

theorem quota_never_overdrawn:
  "sum_list (map2 let_through xs (snd (run quota_step (new_quota n) xs)))
     \<le> unat n + sum_list (map credited xs)"
  using quota_meter.passed_run [of "new_quota n" xs]
  by (simp add: list.pred_True)

text \<open>Replay protection of payments: along any sequence of operations no nonce passes
  \<open>check_and_record_nonce\<close> twice.\<close>

theorem quota_nonce_once:
  "distinct (accepted recorded xs (snd (run quota_step (new_quota n) xs)))"
  by (rule quota_nonces.accepted_distinct) (simp_all add: list.pred_True)

text \<open>Once a quota is blocked it stays blocked and lets nothing through until it is credited.
  The initial state and the operations before the quota was blocked are arbitrary.\<close>

theorem quota_blocked_until_credit:
  assumes "q = fst (run quota_step (new_quota n) before)" and "is_blocked q"
    and "list_all (\<lambda>x. \<not> is_credit x) xs"
  shows "is_blocked (fst (run quota_step q xs))
    \<and> sum_list (map2 let_through xs (snd (run quota_step q xs))) = 0"
proof -
  have "quota_inv q"
    unfolding assms(1) by (rule quota_machine.inv_run) (simp_all add: list.pred_True)
  with assms(2,3) show ?thesis
  proof (induction xs arbitrary: q)
    case Nil
    then show ?case by simp
  next
    case (Cons x xs)
    then show ?case
      using quota_blocked_step [of q x] quota_inv_step [of q x]
      by (simp add: run_Cons is_blocked_def)
  qed
qed

theorem quota_blocked_until_credit_witness:
  "is_blocked (fst (run quota_step (fst (run quota_step (new_quota 100) [Consume 200])) [Consume 1]))"
  using quota_blocked_until_credit [of "fst (run quota_step (new_quota 100) [Consume 200])" 100
      "[Consume 200]" "[Consume 1]"]
  by (simp add: run_Cons quota_defs is_blocked_def is_credit_def)

text \<open>A quota that is used up to the last byte is never marked blocked: \<open>consume\<close> takes the early
  return on a zero balance, so every later packet is refused without the \<open>blocked\<close> flag being set,
  whatever its size and however many follow.\<close>

theorem quota_exact_exhaustion_unblocked:
  assumes "remaining_bytes q \<noteq> 0" and "\<not> is_blocked q" and "list_all (\<lambda>x. \<exists>n. x = Consume n) xs"
  shows "snd (consume q (remaining_bytes q))
    \<and> fst (run quota_step (fst (consume q (remaining_bytes q))) xs) = fst (consume q (remaining_bytes q))
    \<and> list_all Not (snd (run quota_step (fst (consume q (remaining_bytes q))) xs))
    \<and> \<not> is_blocked (fst (run quota_step (fst (consume q (remaining_bytes q))) xs))"
proof -
  define q0 where "q0 = fst (consume q (remaining_bytes q))"
  have q0: "remaining_bytes q0 = 0" "\<not> is_blocked q0"
    using assms(1,2) by (simp_all add: q0_def quota_defs is_blocked_def)
  have "fst (run quota_step q0 xs) = q0 \<and> list_all Not (snd (run quota_step q0 xs))"
    using assms(3) by (induction xs) (auto simp: run_Cons quota_defs q0)
  with q0 show ?thesis using assms(1) by (simp add: q0_def [symmetric]) (simp add: quota_defs)
qed

theorem quota_exact_exhaustion_unblocked_witness:
  "\<not> is_blocked (fst (run quota_step (fst (consume (new_quota 100) 100)) [Consume 1, Consume 50]))"
  using quota_exact_exhaustion_unblocked [of "new_quota 100" "[Consume 1, Consume 50]"]
  by (auto simp: is_blocked_def)

end
