(* ===== verification/Payment_Protocol.thy ===== *)
theory Payment_Protocol
  imports Veil_Prelude
begin

unbundle bit_operations_syntax

text \<open>
  The payment signalling protocol of \<^verbatim>\<open>protocol/boringtun/src/payment/protocol.rs\<close>: the three
  tag-length-value messages with their encoders and decoders, the IPv4/UDP packet that carries one
  message inside the tunnel, its header checksum, and the functions that recognise such a packet and
  take the message out again. A fixed-size array \<^verbatim>\<open>[u8; N]\<close> is a byte list of length \<open>N\<close>; the
  predicates \<open>wf_*\<close> state these lengths. An IPv4 address is the 32-bit word of its octets.
\<close>

section \<open>Definitions\<close>

type_synonym ipv4 = u32
type_synonym ipv6 = u128

datatype ip_addr = V4 ipv4 | V6 ipv6

definition ipv4_new :: "u8 \<Rightarrow> u8 \<Rightarrow> u8 \<Rightarrow> u8 \<Rightarrow> ipv4" where
  "ipv4_new a b c d = from_be [a, b, c, d]"

definition octets :: "ipv4 \<Rightarrow> bytes" where
  "octets a = be_bytes 4 a"

definition PAYMENT_GATEWAY_IP :: ipv4 where
  "PAYMENT_GATEWAY_IP = ipv4_new 169 254 254 1"

definition PAYMENT_PORT :: u16 where
  "PAYMENT_PORT = 7078"

definition MSG_PAYMENT_REQUIRED :: u8 where "MSG_PAYMENT_REQUIRED = 0x01"
definition MSG_PAYMENT_ACCEPTED :: u8 where "MSG_PAYMENT_ACCEPTED = 0x02"
definition MSG_PAYMENT_SUBMIT :: u8 where "MSG_PAYMENT_SUBMIT = 0x81"

record payment_required =
  pr_amount_usdc :: u64
  pr_nonce :: bytes
  pr_recipient :: bytes
  pr_deadline :: u64
  pr_chain_id :: u64
  pr_usdc_contract :: bytes

record payment_submit =
  ps_from :: bytes
  ps_to :: bytes
  ps_value :: u64
  ps_valid_after :: u64
  ps_valid_before :: u64
  ps_nonce :: bytes
  ps_v :: u8
  ps_r :: bytes
  ps_s :: bytes

record payment_accepted =
  pa_new_quota_bytes :: u64

definition wf_required :: "payment_required \<Rightarrow> bool" where
  "wf_required m \<longleftrightarrow>
     length (pr_nonce m) = 32 \<and> length (pr_recipient m) = 20 \<and> length (pr_usdc_contract m) = 20"

definition wf_submit :: "payment_submit \<Rightarrow> bool" where
  "wf_submit m \<longleftrightarrow> length (ps_from m) = 20 \<and> length (ps_to m) = 20 \<and> length (ps_nonce m) = 32
     \<and> length (ps_r m) = 32 \<and> length (ps_s m) = 32"

subsection \<open>Messages\<close>

definition required_encode :: "payment_required \<Rightarrow> bytes" where
  "required_encode m =
     (let payload_len = 8 + 32 + 20 + 8 + 8 + 20 :: nat in
      [MSG_PAYMENT_REQUIRED] @ be_bytes 2 (of_nat payload_len :: u16)
      @ be_bytes 8 (pr_amount_usdc m) @ pr_nonce m @ pr_recipient m
      @ be_bytes 8 (pr_deadline m) @ be_bytes 8 (pr_chain_id m) @ pr_usdc_contract m)"

definition required_decode :: "bytes \<Rightarrow> payment_required opt" where
  "required_decode data =
     (if length data < 3 then Err () else
      rbind (index data 0) (\<lambda>t. if t \<noteq> MSG_PAYMENT_REQUIRED then Err () else
      rbind (index data 1) (\<lambda>l1. rbind (index data 2) (\<lambda>l2.
      let len = unat (from_be [l1, l2] :: u16) in
      if length data < 3 + len \<or> len < 96 then Err () else
      rbind (range 3 (length data) data) (\<lambda>p.
      rbind (range 0 8 p) (\<lambda>amount. rbind (range 8 40 p) (\<lambda>nonce.
      rbind (range 40 60 p) (\<lambda>recipient. rbind (range 60 68 p) (\<lambda>deadline.
      rbind (range 68 76 p) (\<lambda>chain_id. rbind (range 76 96 p) (\<lambda>usdc_contract.
      Ok \<lparr>pr_amount_usdc = from_be amount, pr_nonce = nonce, pr_recipient = recipient,
          pr_deadline = from_be deadline, pr_chain_id = from_be chain_id,
          pr_usdc_contract = usdc_contract\<rparr>)))))))))))"

definition submit_encode :: "payment_submit \<Rightarrow> bytes" where
  "submit_encode m =
     (let payload_len = 20 + 20 + 8 + 8 + 8 + 32 + 1 + 32 + 32 :: nat in
      [MSG_PAYMENT_SUBMIT] @ be_bytes 2 (of_nat payload_len :: u16)
      @ ps_from m @ ps_to m @ be_bytes 8 (ps_value m) @ be_bytes 8 (ps_valid_after m)
      @ be_bytes 8 (ps_valid_before m) @ ps_nonce m @ [ps_v m] @ ps_r m @ ps_s m)"

definition submit_decode :: "bytes \<Rightarrow> payment_submit opt" where
  "submit_decode data =
     (if length data < 3 then Err () else
      rbind (index data 0) (\<lambda>t. if t \<noteq> MSG_PAYMENT_SUBMIT then Err () else
      rbind (index data 1) (\<lambda>l1. rbind (index data 2) (\<lambda>l2.
      let len = unat (from_be [l1, l2] :: u16) in
      if length data < 3 + len \<or> len < 161 then Err () else
      rbind (range 3 (length data) data) (\<lambda>p.
      rbind (range 0 20 p) (\<lambda>from. rbind (range 20 40 p) (\<lambda>to.
      rbind (range 40 48 p) (\<lambda>value. rbind (range 48 56 p) (\<lambda>valid_after.
      rbind (range 56 64 p) (\<lambda>valid_before. rbind (range 64 96 p) (\<lambda>nonce.
      rbind (index p 96) (\<lambda>v. rbind (range 97 129 p) (\<lambda>r. rbind (range 129 161 p) (\<lambda>s.
      Ok \<lparr>ps_from = from, ps_to = to, ps_value = from_be value, ps_valid_after = from_be valid_after,
          ps_valid_before = from_be valid_before, ps_nonce = nonce, ps_v = v, ps_r = r,
          ps_s = s\<rparr>))))))))))))))"

definition accepted_encode :: "payment_accepted \<Rightarrow> bytes" where
  "accepted_encode m =
     [MSG_PAYMENT_ACCEPTED] @ be_bytes 2 (8 :: u16) @ be_bytes 8 (pa_new_quota_bytes m)"

definition accepted_decode :: "bytes \<Rightarrow> payment_accepted opt" where
  "accepted_decode data =
     (if length data < 3 then Err () else
      rbind (index data 0) (\<lambda>t. if t \<noteq> MSG_PAYMENT_ACCEPTED then Err () else
      rbind (index data 1) (\<lambda>l1. rbind (index data 2) (\<lambda>l2.
      let len = unat (from_be [l1, l2] :: u16) in
      if length data < 3 + len \<or> len < 8 then Err () else
      rbind (range 3 11 data) (\<lambda>n. Ok \<lparr>pa_new_quota_bytes = from_be n\<rparr>)))))"

subsection \<open>The carrying packet\<close>

text \<open>\<^verbatim>\<open>packet[off..off + n].copy_from_slice(bs)\<close> with \<open>n = length bs\<close>.\<close>

definition copy_at :: "nat \<Rightarrow> 'a list \<Rightarrow> 'a list \<Rightarrow> 'a list" where
  "copy_at off bs xs = take off xs @ bs @ drop (off + length bs) xs"

fun sum_words :: "bytes \<Rightarrow> u32 \<Rightarrow> u32" where
  "sum_words [] acc = acc"
| "sum_words [a] acc = acc + ucast (from_be [a, 0] :: u16)"
| "sum_words (a # b # rest) acc = sum_words rest (acc + ucast (from_be [a, b] :: u16))"

function fold_carry :: "u32 \<Rightarrow> u32" where
  "fold_carry acc =
     (if drop_bit 16 acc \<noteq> 0 then fold_carry ((acc AND 0xFFFF) + drop_bit 16 acc) else acc)"
  by pat_completeness auto

termination fold_carry
proof (relation "measure unat")
  show "wf (measure unat)" by simp
next
  fix acc :: u32
  assume "drop_bit 16 acc \<noteq> 0"
  then have "0 < unat acc div 65536"
    unfolding unat_drop_16 [symmetric] by (simp add: unat_gt_0)
  then have "unat acc mod 65536 + unat acc div 65536 < unat acc"
    using div_mult_mod_eq [of "unat acc" 65536] by linarith
  then show "((acc AND 0xFFFF) + drop_bit 16 acc, acc) \<in> measure unat"
    by (simp only: in_measure unat_carry_step)
qed

declare fold_carry.simps [simp del]

definition ip_checksum :: "bytes \<Rightarrow> u16" where
  "ip_checksum header = NOT (ucast (fold_carry (sum_words header 0)) :: u16)"

definition build_signal_packet :: "ipv4 \<Rightarrow> ipv4 \<Rightarrow> bytes \<Rightarrow> ('e, bytes) rust" where
  "build_signal_packet src_ip dst_ip payload =
     (let udp_len = 8 + length payload; total_len = 20 + udp_len in
      if \<not> total_len \<le> 65535 then Panic else
      let packet = replicate total_len 0;
          packet = packet[0 := 0x45];
          packet = copy_at 2 (be_bytes 2 (of_nat total_len :: u16)) packet;
          packet = packet[6 := 0x40];
          packet = packet[8 := 64];
          packet = packet[9 := 17];
          packet = copy_at 12 (octets src_ip) packet;
          packet = copy_at 16 (octets dst_ip) packet;
          cksum = ip_checksum (take 20 packet);
          packet = copy_at 10 (be_bytes 2 cksum) packet;
          packet = copy_at (20 + 0) (be_bytes 2 PAYMENT_PORT) packet;
          packet = copy_at (20 + 2) (be_bytes 2 PAYMENT_PORT) packet;
          packet = copy_at (20 + 4) (be_bytes 2 (of_nat udp_len :: u16)) packet;
          packet = copy_at (20 + 8) payload packet
      in Ok packet)"

definition is_payment_signal :: "bytes \<Rightarrow> bool" where
  "is_payment_signal packet =
     (if length packet < 20 \<or> drop_bit 4 (packet ! 0) \<noteq> 4 then False
      else let src = ipv4_new (packet ! 12) (packet ! 13) (packet ! 14) (packet ! 15);
               dst = ipv4_new (packet ! 16) (packet ! 17) (packet ! 18) (packet ! 19)
           in src = PAYMENT_GATEWAY_IP \<or> dst = PAYMENT_GATEWAY_IP)"

definition extract_signal_payload :: "bytes \<Rightarrow> bytes opt" where
  "extract_signal_payload packet =
     (if length packet < 20 then Err () else
      rbind (index packet 0) (\<lambda>b0.
      let ihl = unat (b0 AND 0x0f) * 4 in
      rbind (index packet 9) (\<lambda>protocol.
      if protocol \<noteq> 17 then Err () else
      if length packet < ihl + 8 then Err () else
      rbind (index packet (ihl + 4)) (\<lambda>u4. rbind (index packet (ihl + 5)) (\<lambda>u5.
      let udp_len = unat (from_be [u4, u5] :: u16) in
      if udp_len < 8 \<or> length packet < ihl + udp_len then Err () else
      range (ihl + 8) (ihl + udp_len) packet)))))"

definition src_ipv4 :: "bytes \<Rightarrow> ipv4 option" where
  "src_ipv4 packet =
     (if length packet < 20 then None
      else Some (ipv4_new (packet ! 12) (packet ! 13) (packet ! 14) (packet ! 15)))"

definition dst_ipv4 :: "bytes \<Rightarrow> ipv4 option" where
  "dst_ipv4 packet =
     (if length packet < 20 then None
      else Some (ipv4_new (packet ! 16) (packet ! 17) (packet ! 18) (packet ! 19)))"

subsection \<open>Reference forms and sample messages\<close>

text \<open>The sum of the big-endian 16-bit words of a header, without a bound.\<close>

fun word_total :: "bytes \<Rightarrow> nat" where
  "word_total [] = 0"
| "word_total [a] = unat (from_be [a, 0] :: u16)"
| "word_total (a # b # rest) = unat (from_be [a, b] :: u16) + word_total rest"

text \<open>The finished packet as one concatenation: the header up to the checksum, the checksum, the two
  addresses, the UDP header and the payload.\<close>

definition ip_front :: "nat \<Rightarrow> bytes" where
  "ip_front n = [0x45, 0] @ be_bytes 2 (of_nat (20 + (8 + n)) :: u16) @ [0, 0, 0x40, 0, 64, 17]"

definition signal_layout :: "ipv4 \<Rightarrow> ipv4 \<Rightarrow> bytes \<Rightarrow> bytes" where
  "signal_layout src dst payload =
     (let front = ip_front (length payload); addrs = octets src @ octets dst in
      front @ be_bytes 2 (ip_checksum (front @ [0, 0] @ addrs)) @ addrs
      @ be_bytes 2 PAYMENT_PORT @ be_bytes 2 PAYMENT_PORT
      @ be_bytes 2 (of_nat (8 + length payload) :: u16) @ [0, 0] @ payload)"

definition sample_required :: payment_required where
  "sample_required = \<lparr>pr_amount_usdc = 10000, pr_nonce = replicate 32 7, pr_recipient = replicate 20 0xAA,
     pr_deadline = 1000000, pr_chain_id = 84532, pr_usdc_contract = replicate 20 0xBB\<rparr>"

definition sample_submit :: payment_submit where
  "sample_submit = \<lparr>ps_from = replicate 20 1, ps_to = replicate 20 2, ps_value = 10000,
     ps_valid_after = 100, ps_valid_before = 200, ps_nonce = replicate 32 3, ps_v = 28,
     ps_r = replicate 32 4, ps_s = replicate 32 5\<rparr>"

section \<open>Tag-length-value codecs\<close>

text \<open>
  The contract the signalling handlers rely on: an encoder and a decoder of one message type, with
  its tag and payload length. The decoder inverts the encoder and ignores what follows the message;
  it never panics, and whatever it accepts carries the tag, is long enough, and agrees with the
  encoder on the payload.
\<close>

locale tlv_codec =
  fixes enc :: "'m \<Rightarrow> bytes" and dec :: "bytes \<Rightarrow> 'm opt" and wf_msg :: "'m \<Rightarrow> bool"
    and tag :: u8 and plen :: nat
  assumes enc_shape: "wf_msg m \<Longrightarrow>
      \<exists>p. enc m = tag # be_bytes 2 (of_nat plen :: u16) @ p \<and> length p = plen"
    and dec_enc: "wf_msg m \<Longrightarrow> dec (enc m @ junk) = Ok m"
    and dec_total: "dec d \<noteq> Panic"
    and dec_accepts: "dec d = Ok m \<Longrightarrow> wf_msg m \<and> 3 + plen \<le> length d \<and> d ! 0 = tag
      \<and> drop 3 (enc m) = take plen (drop 3 d)"
begin

lemma length_enc: "wf_msg m \<Longrightarrow> length (enc m) = 3 + plen"
  using enc_shape by fastforce

lemma enc_inj: "wf_msg m \<Longrightarrow> wf_msg m' \<Longrightarrow> enc m = enc m' \<Longrightarrow> m = m'"
  using dec_enc [of m "[]"] dec_enc [of m' "[]"] by simp

lemma dec_short: "length d < 3 + plen \<Longrightarrow> dec d = Err ()"
  using dec_total [of d] dec_accepts [of d] by (cases "dec d") auto

lemma dec_other_tag: "d ! 0 \<noteq> tag \<Longrightarrow> dec d = Err ()"
  using dec_total [of d] dec_accepts [of d] by (cases "dec d") auto

lemma dec_canonical:
  "dec d = Ok m \<Longrightarrow> take 2 (drop 1 d) = be_bytes 2 (of_nat plen :: u16) \<Longrightarrow> take (3 + plen) d = enc m"
proof -
  assume d: "dec d = Ok m" and len: "take 2 (drop 1 d) = be_bytes 2 (of_nat plen :: u16)"
  note acc = dec_accepts [OF d]
  then obtain p where p: "enc m = tag # be_bytes 2 (of_nat plen :: u16) @ p" "length p = plen"
    using enc_shape by blast
  have split: "take (3 + plen) d = take 1 d @ take 2 (drop 1 d) @ take plen (drop 3 d)"
    using take_split [of 1 "3 + plen" d] take_split [of 2 "2 + plen" "drop 1 d"] by simp
  have "take 1 d = [tag]" using acc by (cases d) auto
  moreover have "p = take plen (drop 3 d)" using acc p by simp
  ultimately show ?thesis unfolding split len p(1) by simp
qed

end

lemma payload_len_bytes [simp]:
  "be_bytes 2 (96 :: u16) = [0, 96]" "be_bytes 2 (161 :: u16) = [0, 161]"
  "be_bytes 2 (8 :: u16) = [0, 8]"
  by code_simp+

lemma payload_len_word [simp]:
  "from_be [0, 96] = (96 :: u16)" "from_be [0, 161] = (161 :: u16)" "from_be [0, 8] = (8 :: u16)"
  by code_simp+

lemmas required_defs = required_encode_def required_decode_def wf_required_def
lemmas submit_defs = submit_encode_def submit_decode_def wf_submit_def
lemmas accepted_defs = accepted_encode_def accepted_decode_def

lemma required_decode_eq:
  "required_decode d =
     (if length d < 3 \<or> d ! 0 \<noteq> MSG_PAYMENT_REQUIRED
         \<or> length d < 3 + unat (from_be [d ! 1, d ! 2] :: u16) \<or> unat (from_be [d ! 1, d ! 2] :: u16) < 96
      then Err ()
      else let p = drop 3 d in
        Ok \<lparr>pr_amount_usdc = from_be (take 8 p), pr_nonce = take 32 (drop 8 p),
          pr_recipient = take 20 (drop 40 p), pr_deadline = from_be (take 8 (drop 60 p)),
          pr_chain_id = from_be (take 8 (drop 68 p)), pr_usdc_contract = take 20 (drop 76 p)\<rparr>)"
proof (cases "length d < 3 \<or> d ! 0 \<noteq> MSG_PAYMENT_REQUIRED
         \<or> length d < 3 + unat (from_be [d ! 1, d ! 2] :: u16) \<or> unat (from_be [d ! 1, d ! 2] :: u16) < 96")
  case True
  then show ?thesis by (auto simp: required_decode_def index_def Let_def)
next
  case False
  then obtain a b c p where d: "d = a # b # c # p" using three_bytes by blast
  with False have "96 \<le> length p" by auto
  with False show ?thesis unfolding d by (simp add: required_decode_def wire Let_def)
qed

lemma required_decode_accepts:
  assumes "required_decode d = Ok m"
  shows "wf_required m \<and> 3 + 96 \<le> length d \<and> d ! 0 = MSG_PAYMENT_REQUIRED
    \<and> drop 3 (required_encode m) = take 96 (drop 3 d)"
  using assms take_split [of 8 96 "drop 3 d"] take_split [of 32 88 "drop 11 d"]
    take_split [of 20 56 "drop 43 d"] take_split [of 8 36 "drop 63 d"] take_split [of 8 28 "drop 71 d"]
  by (auto simp: required_decode_eq required_encode_def wf_required_def Let_def byte_images
      split: if_splits)

interpretation required_codec: tlv_codec required_encode required_decode wf_required
    MSG_PAYMENT_REQUIRED 96
proof unfold_locales
  fix m :: payment_required and d junk :: bytes
  show "wf_required m \<Longrightarrow> \<exists>p. required_encode m
      = MSG_PAYMENT_REQUIRED # be_bytes 2 (of_nat 96 :: u16) @ p \<and> length p = 96"
    by (simp add: required_encode_def wf_required_def)
  show "wf_required m \<Longrightarrow> required_decode (required_encode m @ junk) = Ok m"
    by (simp add: required_decode_eq required_encode_def wf_required_def wire byte_images)
  show "required_decode d \<noteq> Panic"
    by (simp add: required_decode_eq Let_def)
  show "required_decode d = Ok m \<Longrightarrow> wf_required m \<and> 3 + 96 \<le> length d \<and> d ! 0 = MSG_PAYMENT_REQUIRED
      \<and> drop 3 (required_encode m) = take 96 (drop 3 d)"
    by (rule required_decode_accepts)
qed

lemma submit_decode_eq:
  "submit_decode d =
     (if length d < 3 \<or> d ! 0 \<noteq> MSG_PAYMENT_SUBMIT
         \<or> length d < 3 + unat (from_be [d ! 1, d ! 2] :: u16) \<or> unat (from_be [d ! 1, d ! 2] :: u16) < 161
      then Err ()
      else let p = drop 3 d in
        Ok \<lparr>ps_from = take 20 p, ps_to = take 20 (drop 20 p), ps_value = from_be (take 8 (drop 40 p)),
          ps_valid_after = from_be (take 8 (drop 48 p)), ps_valid_before = from_be (take 8 (drop 56 p)),
          ps_nonce = take 32 (drop 64 p), ps_v = p ! 96, ps_r = take 32 (drop 97 p),
          ps_s = take 32 (drop 129 p)\<rparr>)"
proof (cases "length d < 3 \<or> d ! 0 \<noteq> MSG_PAYMENT_SUBMIT
         \<or> length d < 3 + unat (from_be [d ! 1, d ! 2] :: u16) \<or> unat (from_be [d ! 1, d ! 2] :: u16) < 161")
  case True
  then show ?thesis by (auto simp: submit_decode_def index_def Let_def)
next
  case False
  then obtain a b c p where d: "d = a # b # c # p" using three_bytes by blast
  with False have "161 \<le> length p" by auto
  with False show ?thesis unfolding d by (simp add: submit_decode_def wire Let_def)
qed

lemma submit_decode_accepts:
  assumes "submit_decode d = Ok m"
  shows "wf_submit m \<and> 3 + 161 \<le> length d \<and> d ! 0 = MSG_PAYMENT_SUBMIT
    \<and> drop 3 (submit_encode m) = take 161 (drop 3 d)"
  using assms take_split [of 20 161 "drop 3 d"] take_split [of 20 141 "drop 23 d"]
    take_split [of 8 121 "drop 43 d"] take_split [of 8 113 "drop 51 d"]
    take_split [of 8 105 "drop 59 d"] take_split [of 32 97 "drop 67 d"]
    take_split [of 1 65 "drop 99 d"] take_split [of 32 64 "drop 100 d"]
  by (auto simp: submit_decode_eq submit_encode_def wf_submit_def Let_def byte_images
      take_Suc_conv_app_nth hd_drop_conv_nth split: if_splits)

lemma accepted_decode_eq:
  "accepted_decode d =
     (if length d < 3 \<or> d ! 0 \<noteq> MSG_PAYMENT_ACCEPTED
         \<or> length d < 3 + unat (from_be [d ! 1, d ! 2] :: u16) \<or> unat (from_be [d ! 1, d ! 2] :: u16) < 8
      then Err () else Ok \<lparr>pa_new_quota_bytes = from_be (take 8 (drop 3 d))\<rparr>)"
proof (cases "length d < 3 \<or> d ! 0 \<noteq> MSG_PAYMENT_ACCEPTED
         \<or> length d < 3 + unat (from_be [d ! 1, d ! 2] :: u16) \<or> unat (from_be [d ! 1, d ! 2] :: u16) < 8")
  case True
  then show ?thesis by (auto simp: accepted_decode_def index_def Let_def)
next
  case False
  then obtain a b c p where d: "d = a # b # c # p" using three_bytes by blast
  with False have "8 \<le> length p" by auto
  with False show ?thesis unfolding d by (simp add: accepted_decode_def wire Let_def)
qed

interpretation submit_codec: tlv_codec submit_encode submit_decode wf_submit MSG_PAYMENT_SUBMIT 161
proof unfold_locales
  fix m :: payment_submit and d junk :: bytes
  show "wf_submit m \<Longrightarrow> \<exists>p. submit_encode m
      = MSG_PAYMENT_SUBMIT # be_bytes 2 (of_nat 161 :: u16) @ p \<and> length p = 161"
    by (simp add: submit_encode_def wf_submit_def)
  show "wf_submit m \<Longrightarrow> submit_decode (submit_encode m @ junk) = Ok m"
    by (simp add: submit_decode_eq submit_encode_def wf_submit_def wire byte_images nth_append)
  show "submit_decode d \<noteq> Panic"
    by (simp add: submit_decode_eq Let_def)
  show "submit_decode d = Ok m \<Longrightarrow> wf_submit m \<and> 3 + 161 \<le> length d \<and> d ! 0 = MSG_PAYMENT_SUBMIT
      \<and> drop 3 (submit_encode m) = take 161 (drop 3 d)"
    by (rule submit_decode_accepts)
qed

interpretation accepted_codec: tlv_codec accepted_encode accepted_decode "\<lambda>_. True"
    MSG_PAYMENT_ACCEPTED 8
proof unfold_locales
  fix m :: payment_accepted and d junk :: bytes
  show "\<exists>p. accepted_encode m
      = MSG_PAYMENT_ACCEPTED # be_bytes 2 (of_nat 8 :: u16) @ p \<and> length p = 8"
    by (simp add: accepted_encode_def)
  show "accepted_decode (accepted_encode m @ junk) = Ok m"
    by (simp add: accepted_decode_eq accepted_encode_def wire byte_images)
  show "accepted_decode d \<noteq> Panic"
    by (simp add: accepted_decode_eq)
  show "accepted_decode d = Ok m \<Longrightarrow> True \<and> 3 + 8 \<le> length d \<and> d ! 0 = MSG_PAYMENT_ACCEPTED
      \<and> drop 3 (accepted_encode m) = take 8 (drop 3 d)"
    by (auto simp: accepted_decode_eq accepted_encode_def byte_images split: if_splits)
qed

section \<open>The header checksum\<close>

lemma unat_u16: "unat (w :: u16) \<le> 65535"
  using unsigned_less [of w, where 'a = nat] by simp

lemma unat_ucast_u16: "unat (ucast (w :: u16) :: u32) = unat w"
proof -
  have "unat w < 2 ^ 16" using unsigned_less [of w, where 'a = nat] by simp
  then show ?thesis by (simp add: unsigned_ucast_eq take_bit_nat_eq_self)
qed

lemma unat_add_small: "unat (a :: u32) + unat b < 2 ^ 32 \<Longrightarrow> unat (a + b) = unat a + unat b"
  by (simp add: unat_word_ariths)

lemma unat_sum_words:
  "unat acc + 65535 * length bs < 2 ^ 32 \<Longrightarrow> unat (sum_words bs acc) = unat acc + word_total bs"
proof (induction bs acc rule: sum_words.induct)
  case (1 acc)
  then show ?case by simp
next
  case (2 a acc)
  then show ?case using unat_u16 [of "from_be [a, 0]"] by (simp add: unat_add_small unat_ucast_u16)
next
  case (3 a b rest acc)
  have "unat (acc + ucast (from_be [a, b] :: u16)) = unat acc + unat (from_be [a, b] :: u16)"
    using 3(2) unat_u16 [of "from_be [a, b]"] by (simp add: unat_add_small unat_ucast_u16)
  moreover from this have "unat (acc + ucast (from_be [a, b] :: u16)) + 65535 * length rest < 2 ^ 32"
    using 3(2) unat_u16 [of "from_be [a, b]"] by simp
  ultimately show ?case using 3(1) by simp
qed

text \<open>Folding the carries keeps the residue modulo \<open>65535\<close> and whether the sum is zero.\<close>

lemma fold_carry_residue:
  "unat (fold_carry w) < 65536 \<and> unat (fold_carry w) mod 65535 = unat w mod 65535
   \<and> (unat (fold_carry w) = 0 \<longleftrightarrow> unat w = 0)"
proof (induction w rule: fold_carry.induct)
  case (1 w)
  show ?case
  proof (cases "drop_bit 16 w = 0")
    case True
    then have "unat w div 65536 = 0" unfolding unat_drop_16 [symmetric] by simp
    then have "unat w < 65536" by (simp add: div_eq_0_iff)
    then show ?thesis using True by (subst (1 2 3) fold_carry.simps) simp
  next
    case False
    let ?w' = "(w AND 0xFFFF) + drop_bit 16 w"
    have step: "unat ?w' = unat w mod 65536 + unat w div 65536" by (rule unat_carry_step)
    have "unat w = unat w div 65536 * 65536 + unat w mod 65536" by simp
    then have "unat w = unat ?w' + 65535 * (unat w div 65536)" unfolding step by linarith
    then have "unat w mod 65535 = unat ?w' mod 65535" by (metis mod_mult_self2)
    moreover have "unat ?w' = 0 \<longleftrightarrow> unat w = 0"
      unfolding step using \<open>unat w = unat w div 65536 * 65536 + unat w mod 65536\<close> by linarith
    moreover have "fold_carry w = fold_carry ?w'" using False by (subst fold_carry.simps) simp
    ultimately show ?thesis using 1 False by simp
  qed
qed

lemma word_total_append: "even (length xs) \<Longrightarrow> word_total (xs @ ys) = word_total xs + word_total ys"
  by (induction xs rule: word_total.induct) auto

lemma be_bytes_2: "be_bytes 2 c = [ucast (drop_bit 8 c), ucast c]"
  by (simp add: be_bytes_def numeral_2_eq_2)

lemma word_total_be_bytes: "word_total (be_bytes 2 (c :: u16) @ post) = unat c + word_total post"
  using from_be_be_bytes [of 2 c] by (simp add: be_bytes_2)

lemma unat_not_u16: "unat (NOT (c :: u16)) = 65535 - unat c"
proof -
  have "NOT c = - 1 - c" by (simp add: not_eq_complement)
  moreover have "unat (- 1 - c) = unat (- 1 :: u16) - unat c"
    by (rule unat_sub) (rule word_order.extremum)
  moreover have "unat (- 1 :: u16) = 65535"
    by (simp add: unsigned_minus_1_eq_mask mask_eq_exp_minus_1)
  ultimately show ?thesis by metis
qed

lemma unat_ip_checksum:
  "unat (ip_checksum h) = 65535 - unat (fold_carry (sum_words h 0))"
proof -
  have "unat (ucast (fold_carry (sum_words h 0)) :: u16) = unat (fold_carry (sum_words h 0))"
    using fold_carry_residue [of "sum_words h 0"] by (simp add: unsigned_ucast_eq take_bit_nat_eq_self)
  then show ?thesis by (simp add: ip_checksum_def unat_not_u16)
qed

lemma mod_add_cancel: "(a + f) mod m = f mod m \<Longrightarrow> a mod m = (0 :: nat)"
  by (metis add_diff_cancel_right' le_add2 mod_eq_dvd_iff_nat dvd_imp_mod_0)

lemma only_multiple: "g < Suc m \<Longrightarrow> g mod m = 0 \<Longrightarrow> g \<noteq> 0 \<Longrightarrow> g = (m :: nat)"
  by (metis less_antisym mod_less)

text \<open>Writing the checksum of a header into its zeroed checksum field makes the header sum to zero.\<close>

lemma ip_checksum_verifies:
  assumes "even (length pre)" and "even (length post)" and "length pre + length post \<le> 65000"
  shows "ip_checksum (pre @ be_bytes 2 (ip_checksum (pre @ [0, 0] @ post)) @ post) = 0"
proof -
  define h0 where "h0 = pre @ [0, 0] @ post"
  define c where "c = ip_checksum h0"
  define h1 where "h1 = pre @ be_bytes 2 c @ post"
  define f where "f = unat (fold_carry (sum_words h0 0))"
  define g where "g = unat (fold_carry (sum_words h1 0))"
  have tot0: "word_total h0 = word_total pre + word_total post"
    using assms(1) by (simp add: h0_def word_total_append from_be_def)
  have tot1: "word_total h1 = word_total pre + unat c + word_total post"
    using assms(1) by (simp add: h1_def word_total_append word_total_be_bytes)
  have "unat (sum_words h0 0) = word_total h0" "unat (sum_words h1 0) = word_total h1"
    using assms(3) by (simp_all add: unat_sum_words h0_def h1_def)
  then have f: "f < 65536" "f mod 65535 = word_total h0 mod 65535" "f = 0 \<longleftrightarrow> word_total h0 = 0"
    and g: "g < 65536" "g mod 65535 = word_total h1 mod 65535" "g = 0 \<longleftrightarrow> word_total h1 = 0"
    using fold_carry_residue [of "sum_words h0 0"] fold_carry_residue [of "sum_words h1 0"]
    by (simp_all add: f_def g_def)
  have c: "unat c = 65535 - f" by (simp add: c_def f_def unat_ip_checksum)
  then have "word_total h1 + f = word_total h0 + 65535" using tot0 tot1 f(1) by simp
  then have "(word_total h1 + f) mod 65535 = f mod 65535" using f(2) by simp
  then have "word_total h1 mod 65535 = 0" by (rule mod_add_cancel)
  moreover have "word_total h1 \<noteq> 0" using tot0 tot1 c f(1,3) by auto
  ultimately have "g = 65535" using g only_multiple [of g 65535] by simp
  then have "unat (ip_checksum h1) = 0" by (simp add: unat_ip_checksum g_def)
  then show ?thesis by (simp add: h1_def c_def h0_def unat_eq_zero)
qed

section \<open>Signal packets\<close>

lemma length_octets [simp]: "length (octets a) = 4"
  by (simp add: octets_def)

lemma four_bytes: "length xs = 4 \<Longrightarrow> \<exists>a b c d. xs = [a, b, c, d]"
  by (auto simp: length_Suc_conv numeral_eq_Suc)

lemma two_bytes: "length xs = 2 \<Longrightarrow> \<exists>a b. xs = [a, b]"
  by (auto simp: length_Suc_conv numeral_eq_Suc)

lemma replicate_packet:
  "replicate (20 + (8 + n)) (0 :: u8) =
     [0,0,0,0,0,0,0,0,0,0,0,0,0,0,0,0,0,0,0,0, 0,0,0,0,0,0,0,0] @ replicate n 0"
  by (simp add: numeral_eq_Suc)

lemma build_signal_packet_layout:
  assumes "length payload \<le> 65507"
  shows "build_signal_packet src dst payload = Ok (signal_layout src dst payload)"
proof -
  obtain a b c d where src: "octets src = [a, b, c, d]" using four_bytes [of "octets src"] by auto
  obtain e f g h where dst: "octets dst = [e, f, g, h]" using four_bytes [of "octets dst"] by auto
  define len where "len = (of_nat (20 + (8 + length payload)) :: u16)"
  define ulen where "ulen = (of_nat (8 + length payload) :: u16)"
  obtain l1 l2 where len: "be_bytes 2 len = [l1, l2]" using two_bytes [of "be_bytes 2 len"] by auto
  obtain u1 u2 where ulen: "be_bytes 2 ulen = [u1, u2]" using two_bytes [of "be_bytes 2 ulen"] by auto
  obtain p1 p2 where port: "be_bytes 2 PAYMENT_PORT = [p1, p2]"
    using two_bytes [of "be_bytes 2 PAYMENT_PORT"] by auto
  have guard: "20 + (8 + length payload) \<le> 65535" using assms by simp
  define ck where
    "ck = ip_checksum [0x45, 0, l1, l2, 0, 0, 0x40, 0, 64, 17, 0, 0, a, b, c, d, e, f, g, h]"
  obtain c1 c2 where ck: "be_bytes 2 ck = [c1, c2]" using two_bytes [of "be_bytes 2 ck"] by auto
  show ?thesis
    unfolding build_signal_packet_def signal_layout_def ip_front_def Let_def replicate_packet
      len_def [symmetric] ulen_def [symmetric] src dst len ulen port
    using guard ck by (simp add: copy_at_def ck_def [symmetric] upd_conv_take_nth_drop)
qed

lemma signal_layout_bytes:
  obtains l1 l2 c1 c2 u1 u2 where
    "signal_layout src dst payload =
       [0x45, 0, l1, l2, 0, 0, 0x40, 0, 64, 17, c1, c2] @ octets src @ octets dst
       @ be_bytes 2 PAYMENT_PORT @ be_bytes 2 PAYMENT_PORT @ [u1, u2, 0, 0] @ payload"
    and "[u1, u2] = be_bytes 2 (of_nat (8 + length payload) :: u16)"
  by (simp add: signal_layout_def ip_front_def be_bytes_2 Let_def)

lemma ipv4_new_octets: "octets a = [w, x, y, z] \<Longrightarrow> ipv4_new w x y z = a"
  using from_be_be_bytes [of 4 a] by (simp add: octets_def ipv4_new_def)

lemma udp_length_word:
  "length payload \<le> 65507 \<Longrightarrow> unat (of_nat (8 + length payload) :: u16) = 8 + length payload"
  unfolding unat_of_nat by simp

lemma ihl_nibble: "unat ((0x45 :: u8) AND 0x0f) * 4 = 20" and version_nibble: "drop_bit 4 (0x45 :: u8) = 4"
  by simp_all

lemma signal_layout_read:
  assumes "length payload \<le> 65507"
  shows "length (signal_layout src dst payload) = 28 + length payload"
    and "is_payment_signal (signal_layout src dst payload)
      \<longleftrightarrow> src = PAYMENT_GATEWAY_IP \<or> dst = PAYMENT_GATEWAY_IP"
    and "extract_signal_payload (signal_layout src dst payload) = Ok payload"
    and "src_ipv4 (signal_layout src dst payload) = Some src"
    and "dst_ipv4 (signal_layout src dst payload) = Some dst"
proof -
  obtain a b c d where src: "octets src = [a, b, c, d]" using four_bytes [of "octets src"] by auto
  obtain e f g h where dst: "octets dst = [e, f, g, h]" using four_bytes [of "octets dst"] by auto
  obtain p1 p2 where port: "be_bytes 2 PAYMENT_PORT = [p1, p2]"
    using two_bytes [of "be_bytes 2 PAYMENT_PORT"] by auto
  obtain l1 l2 c1 c2 u1 u2 where packet: "signal_layout src dst payload =
      [0x45, 0, l1, l2, 0, 0, 0x40, 0, 64, 17, c1, c2] @ octets src @ octets dst
      @ be_bytes 2 PAYMENT_PORT @ be_bytes 2 PAYMENT_PORT @ [u1, u2, 0, 0] @ payload"
    and "[u1, u2] = be_bytes 2 (of_nat (8 + length payload) :: u16)"
    by (rule signal_layout_bytes)
  then have udp: "unat (from_be [u1, u2] :: u16) = 8 + length payload"
    using udp_length_word [OF assms] by (simp add: from_be_be_bytes del: of_nat_add)
  note addrs = ipv4_new_octets [OF src] ipv4_new_octets [OF dst]
  show "length (signal_layout src dst payload) = 28 + length payload"
    by (simp add: packet)
  show "is_payment_signal (signal_layout src dst payload)
      \<longleftrightarrow> src = PAYMENT_GATEWAY_IP \<or> dst = PAYMENT_GATEWAY_IP"
    unfolding packet src dst port by (simp add: is_payment_signal_def version_nibble addrs)
  show "extract_signal_payload (signal_layout src dst payload) = Ok payload"
    unfolding packet src dst port
    by (simp add: extract_signal_payload_def wire ihl_nibble udp Let_def)
  show "src_ipv4 (signal_layout src dst payload) = Some src"
    "dst_ipv4 (signal_layout src dst payload) = Some dst"
    unfolding packet src dst port by (simp_all add: src_ipv4_def dst_ipv4_def addrs)
qed

lemma signal_layout_checksum: "ip_checksum (take 20 (signal_layout src dst payload)) = 0"
  using ip_checksum_verifies [of "ip_front (length payload)" "octets src @ octets dst"]
  by (simp add: signal_layout_def Let_def ip_front_def del: of_nat_add)

text \<open>C19. Every payment message survives the wire: decoding an encoded message, with anything behind
  it, gives the message back, and neither of the two other decoders accepts it.\<close>

theorem payment_messages_roundtrip:
  assumes "wf_required r" and "wf_submit s"
  shows "required_decode (required_encode r @ junk) = Ok r
    \<and> submit_decode (submit_encode s @ junk) = Ok s
    \<and> accepted_decode (accepted_encode a @ junk) = Ok a
    \<and> submit_decode (required_encode r @ junk) = Err () \<and> accepted_decode (required_encode r @ junk) = Err ()
    \<and> required_decode (submit_encode s @ junk) = Err () \<and> accepted_decode (submit_encode s @ junk) = Err ()
    \<and> required_decode (accepted_encode a @ junk) = Err () \<and> submit_decode (accepted_encode a @ junk) = Err ()"
  using required_codec.dec_enc [OF assms(1)] submit_codec.dec_enc [OF assms(2)] accepted_codec.dec_enc
    required_codec.enc_shape [OF assms(1)] submit_codec.enc_shape [OF assms(2)]
    accepted_codec.enc_shape [OF TrueI]
  by (auto intro!: required_codec.dec_other_tag submit_codec.dec_other_tag accepted_codec.dec_other_tag
      simp: MSG_PAYMENT_REQUIRED_def MSG_PAYMENT_SUBMIT_def MSG_PAYMENT_ACCEPTED_def
        required_encode_def submit_encode_def accepted_encode_def)

theorem payment_messages_roundtrip_witness:
  "required_decode (required_encode sample_required @ [9]) = Ok sample_required
   \<and> submit_decode (submit_encode sample_submit @ [9]) = Ok sample_submit"
  using payment_messages_roundtrip [of sample_required sample_submit "[9]"]
  by (simp add: wf_required_def wf_submit_def sample_required_def sample_submit_def)

text \<open>What a decoder accepts is canonical in its payload: the payload bytes of an accepted message
  are exactly the bytes its encoder writes, so two different payloads never decode to one message.\<close>

theorem submit_decode_canonical:
  assumes "submit_decode d = Ok m"
  shows "wf_submit m \<and> d ! 0 = MSG_PAYMENT_SUBMIT \<and> take 161 (drop 3 d) = drop 3 (submit_encode m)"
  using submit_codec.dec_accepts [OF assms] by simp

theorem submit_decode_canonical_witness:
  "wf_submit sample_submit \<and> take 161 (drop 3 (submit_encode sample_submit)) = drop 3 (submit_encode sample_submit)"
  using submit_decode_canonical [of "submit_encode sample_submit" sample_submit]
    submit_codec.dec_enc [of sample_submit "[]"]
  by (simp add: wf_submit_def sample_submit_def)

text \<open>C20. The carrying packet: building a packet around a payload succeeds exactly for payloads of at
  most 65507 bytes and panics otherwise; the built packet is recognised as a payment signal exactly when
  one of its addresses is the gateway, its addresses and payload are read back unchanged, and its IPv4
  header checksum verifies.\<close>

theorem signal_packet_roundtrip:
  "(build_signal_packet src dst payload = (Panic :: bytes opt) \<longleftrightarrow> 65507 < length payload)
   \<and> (length payload \<le> 65507 \<longrightarrow> (\<exists>packet.
       build_signal_packet src dst payload = (Ok packet :: bytes opt)
       \<and> length packet = 28 + length payload
       \<and> (is_payment_signal packet \<longleftrightarrow> src = PAYMENT_GATEWAY_IP \<or> dst = PAYMENT_GATEWAY_IP)
       \<and> extract_signal_payload packet = Ok payload
       \<and> src_ipv4 packet = Some src \<and> dst_ipv4 packet = Some dst
       \<and> ip_checksum (take 20 packet) = 0))"
proof (cases "length payload \<le> 65507")
  case True
  then show ?thesis
    by (simp add: build_signal_packet_layout signal_layout_read signal_layout_checksum)
next
  case False
  then show ?thesis by (simp add: build_signal_packet_def)
qed

theorem signal_packet_roundtrip_witness:
  "\<exists>packet. build_signal_packet PAYMENT_GATEWAY_IP 7 [1, 2, 3] = (Ok packet :: bytes opt)
     \<and> is_payment_signal packet \<and> extract_signal_payload packet = Ok [1, 2, 3]"
  using signal_packet_roundtrip [of PAYMENT_GATEWAY_IP 7 "[1, 2, 3]"] by auto

text \<open>No packet from the tunnel makes the signal parsers panic: payload extraction and the three
  message decoders index and slice within bounds on every byte string.\<close>

theorem signal_parsers_total:
  "extract_signal_payload packet \<noteq> Panic \<and> required_decode d \<noteq> Panic \<and> submit_decode d \<noteq> Panic
   \<and> accepted_decode d \<noteq> Panic"
proof -
  have "extract_signal_payload packet \<noteq> Panic"
    by (cases "length packet < 20")
      (auto simp: extract_signal_payload_def index_def range_def Let_def not_less)
  then show ?thesis
    using required_codec.dec_total submit_codec.dec_total accepted_codec.dec_total by simp
qed

end
