(* ===== verification/Noise_Base.thy ===== *)
theory Noise_Base
  imports Veil_Prelude
begin

text \<open>
  What the noise components share: the error type of
  \<^verbatim>\<open>protocol/boringtun/src/noise/errors.rs\<close> and the cryptographic primitives the crate takes from
  \<^verbatim>\<open>ring\<close>, \<^verbatim>\<open>blake2\<close>, \<^verbatim>\<open>chacha20poly1305\<close> and \<^verbatim>\<open>x25519-dalek\<close>. The primitives are parameters: a record
  that every operation using them takes as its first argument. What the protocol relies on are the
  predicates \<open>aead_correct\<close>, \<open>xaead_correct\<close>, \<open>dh_correct\<close> and \<open>digest_lengths\<close>, used as named
  hypotheses; \<open>toy_crypto\<close> is an executable instance that satisfies all of them, for the witnesses.
\<close>

datatype wireguard_error =
    DestinationBufferTooSmall | IncorrectPacketLength | UnexpectedPacket | WrongPacketType
  | WrongIndex | WrongKey | InvalidTai64nTimestamp | WrongTai64nTimestamp | InvalidMac
  | InvalidAeadTag | InvalidCounter | DuplicateCounter | InvalidPacket | NoCurrentSession
  | LockFailed | ConnectionExpired | UnderLoad

text \<open>
  \<open>aead_seal key nonce aad plaintext\<close> returns ciphertext and tag, \<open>aead_open\<close> the plaintext if the tag
  verifies (ChaCha20-Poly1305); \<open>xaead_*\<close> is XChaCha20-Poly1305. \<open>hash\<close> is BLAKE2s-256, \<open>hmac\<close> the HMAC
  over it, \<open>mac16\<close> and \<open>mac24\<close> keyed BLAKE2s with 16 and 24 bytes of output. \<open>dh secret public\<close> and
  \<open>pubkey secret\<close> are X25519.
\<close>

record crypto =
  aead_seal :: "bytes \<Rightarrow> bytes \<Rightarrow> bytes \<Rightarrow> bytes \<Rightarrow> bytes"
  aead_open :: "bytes \<Rightarrow> bytes \<Rightarrow> bytes \<Rightarrow> bytes \<Rightarrow> bytes option"
  xaead_seal :: "bytes \<Rightarrow> bytes \<Rightarrow> bytes \<Rightarrow> bytes \<Rightarrow> bytes"
  xaead_open :: "bytes \<Rightarrow> bytes \<Rightarrow> bytes \<Rightarrow> bytes \<Rightarrow> bytes option"
  hash :: "bytes \<Rightarrow> bytes"
  hmac :: "bytes \<Rightarrow> bytes \<Rightarrow> bytes"
  mac16 :: "bytes \<Rightarrow> bytes \<Rightarrow> bytes"
  mac24 :: "bytes \<Rightarrow> bytes \<Rightarrow> bytes"
  dh :: "bytes \<Rightarrow> bytes \<Rightarrow> bytes"
  pubkey :: "bytes \<Rightarrow> bytes"

definition aead_correct :: "crypto \<Rightarrow> bool" where
  "aead_correct C \<longleftrightarrow>
     (\<forall>k n a p. aead_open C k n a (aead_seal C k n a p) = Some p
        \<and> length (aead_seal C k n a p) = length p + 16)
     \<and> (\<forall>k n a c p. aead_open C k n a c = Some p \<longrightarrow> length c = length p + 16)"

definition xaead_correct :: "crypto \<Rightarrow> bool" where
  "xaead_correct C \<longleftrightarrow>
     (\<forall>k n a p. xaead_open C k n a (xaead_seal C k n a p) = Some p
        \<and> length (xaead_seal C k n a p) = length p + 16)"

definition dh_correct :: "crypto \<Rightarrow> bool" where
  "dh_correct C \<longleftrightarrow> (\<forall>a b. dh C a (pubkey C b) = dh C b (pubkey C a))
     \<and> (\<forall>a. length (pubkey C a) = 32) \<and> (\<forall>a b. length (dh C a b) = 32)"

definition digest_lengths :: "crypto \<Rightarrow> bool" where
  "digest_lengths C \<longleftrightarrow> (\<forall>x. length (hash C x) = 32) \<and> (\<forall>k x. length (hmac C k x) = 32)
     \<and> (\<forall>k x. length (mac16 C k x) = 16) \<and> (\<forall>k x. length (mac24 C k x) = 24)"

text \<open>A small instance: a tag that repeats the low part of key and nonce, addition for
  Diffie-Hellman, padding for the digests.\<close>

definition fit :: "nat \<Rightarrow> bytes \<Rightarrow> bytes" where
  "fit n xs = take n (xs @ replicate n 0)"

definition toy_seal :: "bytes \<Rightarrow> bytes \<Rightarrow> bytes \<Rightarrow> bytes \<Rightarrow> bytes" where
  "toy_seal k n a p = p @ fit 16 (n @ k)"

definition toy_open :: "bytes \<Rightarrow> bytes \<Rightarrow> bytes \<Rightarrow> bytes \<Rightarrow> bytes option" where
  "toy_open k n a c =
     (if 16 \<le> length c \<and> drop (length c - 16) c = fit 16 (n @ k)
      then Some (take (length c - 16) c) else None)"

definition toy_crypto :: crypto where
  "toy_crypto = \<lparr>aead_seal = toy_seal, aead_open = toy_open, xaead_seal = toy_seal, xaead_open = toy_open,
     hash = fit 32, hmac = (\<lambda>k x. fit 32 (x @ k)), mac16 = (\<lambda>k x. 1 # fit 15 (k @ x)),
     mac24 = (\<lambda>k x. fit 24 (x @ k)), dh = (\<lambda>a b. map2 (+) (fit 32 a) (fit 32 b)), pubkey = fit 32\<rparr>"

lemma length_fit [simp]: "length (fit n xs) = n"
  by (simp add: fit_def)

lemma toy_open_seal [simp]: "toy_open k n a (toy_seal k n a p) = Some p"
  by (simp add: toy_open_def toy_seal_def)

lemma length_toy_seal [simp]: "length (toy_seal k n a p) = length p + 16"
  by (simp add: toy_seal_def)

lemma length_toy_open [simp]: "toy_open k n a c = Some p \<Longrightarrow> length c = length p + 16"
  by (auto simp: toy_open_def split: if_splits)

lemma fit_id: "length xs = n \<Longrightarrow> fit n xs = xs"
  by (simp add: fit_def)

lemma map2_add_commute: "map2 (+) xs ys = map2 (+) ys (xs :: bytes)"
  by (induction xs arbitrary: ys; case_tac ys) (auto simp: add.commute)

lemma toy_crypto_laws [simp]:
  "aead_correct toy_crypto" "xaead_correct toy_crypto" "dh_correct toy_crypto" "digest_lengths toy_crypto"
  by (simp_all add: aead_correct_def xaead_correct_def dh_correct_def digest_lengths_def toy_crypto_def
      fit_id map2_add_commute)

end
