(* ===== verification/Replay_Window.thy ===== *)
theory Replay_Window
  imports Noise_Base Machines
begin

unbundle bit_operations_syntax

text \<open>
  \<^verbatim>\<open>ReceivingKeyCounterValidator\<close> of \<^verbatim>\<open>protocol/boringtun/src/noise/session.rs\<close>: the anti-replay window
  of a transport session, a bitmap of 1024 bits in 16 words and the next expected counter. Counters
  are 64-bit words and \<open>counter + N_BITS\<close>, \<open>next + 1\<close> and \<open>i + WORD_SIZE\<close> wrap. The word-clearing loop
  does not terminate on every argument, so it is a partial function with \<open>None\<close> for divergence; that
  \<open>mark_did_receive\<close> never diverges is a theorem.
\<close>

section \<open>Definitions\<close>

definition WORD_SIZE :: u64 where "WORD_SIZE = 64"
definition N_WORDS :: u64 where "N_WORDS = 16"
definition N_BITS :: u64 where "N_BITS = WORD_SIZE * N_WORDS"

record validator =
  nxt :: u64
  receive_cnt :: u64
  bitmap :: "u64 list"

definition default_validator :: validator where
  "default_validator = \<lparr>nxt = 0, receive_cnt = 0, bitmap = replicate 16 0\<rparr>"

definition set_bit_at :: "u64 list \<Rightarrow> u64 \<Rightarrow> u64 list" where
  "set_bit_at bm idx =
     (let bit_idx = idx mod N_BITS;
          word = unat (bit_idx div WORD_SIZE);
          b = unat (bit_idx mod WORD_SIZE)
      in bm[word := (bm ! word) OR push_bit b 1])"

definition clear_bit_at :: "u64 list \<Rightarrow> u64 \<Rightarrow> u64 list" where
  "clear_bit_at bm idx =
     (let bit_idx = idx mod N_BITS;
          word = unat (bit_idx div WORD_SIZE);
          b = unat (bit_idx mod WORD_SIZE)
      in bm[word := (bm ! word) AND NOT (push_bit b 1)])"

definition clear_word :: "u64 list \<Rightarrow> u64 \<Rightarrow> u64 list" where
  "clear_word bm idx =
     (let bit_idx = idx mod N_BITS; word = unat (bit_idx div WORD_SIZE) in bm[word := 0])"

definition check_bit :: "u64 list \<Rightarrow> u64 \<Rightarrow> bool" where
  "check_bit bm idx =
     (let bit_idx = idx mod N_BITS;
          word = unat (bit_idx div WORD_SIZE);
          b = unat (bit_idx mod WORD_SIZE)
      in (drop_bit b (bm ! word) AND 1) = 1)"

definition will_accept :: "validator \<Rightarrow> u64 \<Rightarrow> (wireguard_error, unit) rust" where
  "will_accept v counter =
     (if counter \<ge> nxt v then Ok ()
      else if counter + N_BITS < nxt v then Err InvalidCounter
      else if \<not> check_bit (bitmap v) counter then Ok () else Err DuplicateCounter)"

text \<open>The three clearing loops of \<^verbatim>\<open>mark_did_receive\<close>: bits up to the next word boundary, whole words,
  and the remaining bits. Each returns the bitmap and the loop variable.\<close>

function clear_to_boundary :: "u64 list \<Rightarrow> u64 \<Rightarrow> u64 \<Rightarrow> u64 list \<times> u64" where
  "clear_to_boundary bm i counter =
     (if i mod WORD_SIZE \<noteq> 0 \<and> i < counter
      then clear_to_boundary (clear_bit_at bm i) (i + 1) counter else (bm, i))"
  by pat_completeness auto

partial_function (option) clear_words :: "u64 list \<Rightarrow> u64 \<Rightarrow> u64 \<Rightarrow> (u64 list \<times> u64) option" where
  "clear_words bm i counter =
     (if i + WORD_SIZE < counter
      then clear_words (clear_word bm i) ((i + WORD_SIZE) AND (0 - WORD_SIZE)) counter
      else Some (bm, i))"

function clear_rest :: "u64 list \<Rightarrow> u64 \<Rightarrow> u64 \<Rightarrow> u64 list" where
  "clear_rest bm i counter =
     (if i < counter then clear_rest (clear_bit_at bm i) (i + 1) counter else bm)"
  by pat_completeness auto

termination clear_to_boundary
  by (relation "measure (\<lambda>(bm, i, counter). unat counter - unat i)")
    (auto simp: unat_Suc_below word_less_nat_alt)

termination clear_rest
  by (relation "measure (\<lambda>(bm, i, counter). unat counter - unat i)")
    (auto simp: unat_Suc_below word_less_nat_alt)

declare clear_to_boundary.simps [simp del] clear_rest.simps [simp del]

definition mark_did_receive :: "validator \<Rightarrow> u64 \<Rightarrow> (validator \<times> (wireguard_error, unit) rust) option" where
  "mark_did_receive v counter =
     (if counter + N_BITS < nxt v then Some (v, Err InvalidCounter)
      else if counter = nxt v
      then Some (v\<lparr>bitmap := set_bit_at (bitmap v) counter, nxt := nxt v + 1\<rparr>, Ok ())
      else if counter < nxt v
      then if check_bit (bitmap v) counter then Some (v, Err InvalidCounter)
           else Some (v\<lparr>bitmap := set_bit_at (bitmap v) counter\<rparr>, Ok ())
      else
        let cleared =
          (if counter - nxt v \<ge> N_BITS then Some (map (\<lambda>_. 0) (bitmap v))
           else let (bm, i) = clear_to_boundary (bitmap v) (nxt v) counter in
                case clear_words bm i counter of
                  None \<Rightarrow> None
                | Some (bm, i) \<Rightarrow> Some (clear_rest bm i counter))
        in case cleared of
             None \<Rightarrow> None
           | Some bm \<Rightarrow> Some (v\<lparr>bitmap := set_bit_at bm counter, nxt := counter + 1\<rparr>, Ok ()))"

text \<open>\<^verbatim>\<open>Session::receiving_counter_mark\<close>: the validator's part of accepting a packet.\<close>

definition receiving_counter_mark ::
    "validator \<Rightarrow> u64 \<Rightarrow> (validator \<times> (wireguard_error, unit) rust) option" where
  "receiving_counter_mark v counter =
     (case mark_did_receive v counter of
        None \<Rightarrow> None
      | Some (v', ret) \<Rightarrow>
          Some (if ret = Ok () then v'\<lparr>receive_cnt := receive_cnt v' + 1\<rparr> else v', ret))"

section \<open>Abstract window\<close>

text \<open>
  What the window promises, over unbounded counters: the next counter and the set of counters
  received. A counter is good if it is new or lies in the last 1024 and was not received.
\<close>

record window =
  w_next :: nat
  w_seen :: "nat set"

definition w_good :: "window \<Rightarrow> nat \<Rightarrow> bool" where
  "w_good w c \<longleftrightarrow> w_next w \<le> c \<or> w_next w \<le> c + 1024 \<and> c \<notin> w_seen w"

definition w_mark :: "window \<Rightarrow> nat \<Rightarrow> window" where
  "w_mark w c = (if w_good w c then \<lparr>w_next = max (w_next w) (Suc c), w_seen = insert c (w_seen w)\<rparr> else w)"

text \<open>Bit \<open>s\<close> of the whole bitmap, and the relation between a validator and the abstract window.\<close>

definition slot :: "u64 list \<Rightarrow> nat \<Rightarrow> bool" where
  "slot bm s \<longleftrightarrow> bit (bm ! (s div 64)) (s mod 64)"

definition window_rel :: "validator \<Rightarrow> window \<Rightarrow> bool" where
  "window_rel v w \<longleftrightarrow> length (bitmap v) = 16 \<and> unat (nxt v) = w_next w \<and> w_next w \<le> 2 ^ 64 - 1024
     \<and> (\<forall>c \<in> w_seen w. c < w_next w)
     \<and> (\<forall>c < w_next w. w_next w \<le> c + 1024 \<longrightarrow> (slot (bitmap v) (c mod 1024) \<longleftrightarrow> c \<in> w_seen w))"

text \<open>Bitmap \<open>b'\<close> is \<open>b\<close> with the slots of the counters from \<open>i\<close> up to \<open>j\<close> cleared.\<close>

definition cleared :: "u64 list \<Rightarrow> u64 list \<Rightarrow> nat \<Rightarrow> nat \<Rightarrow> bool" where
  "cleared b b' i j \<longleftrightarrow> length b' = length b
     \<and> (\<forall>s < 1024. slot b' s \<longleftrightarrow> slot b s \<and> (\<forall>k. i \<le> k \<and> k < j \<longrightarrow> s \<noteq> k mod 1024))"

text \<open>The abstract window a bitmap stands for, and marking as the step of a machine whose reply says
  whether the counter was accepted.\<close>

definition window_of :: "validator \<Rightarrow> window" where
  "window_of v = \<lparr>w_next = unat (nxt v),
     w_seen = {c. c < unat (nxt v) \<and> unat (nxt v) \<le> c + 1024 \<and> slot (bitmap v) (c mod 1024)}\<rparr>"

definition mark_step :: "validator \<Rightarrow> u64 \<Rightarrow> validator \<times> bool" where
  "mark_step v counter =
     (case receiving_counter_mark v counter of
        Some (v', ret) \<Rightarrow> (v', ret = Ok ())
      | None \<Rightarrow> (v, False))"

definition window_inv :: "validator \<Rightarrow> bool" where
  "window_inv v \<longleftrightarrow> length (bitmap v) = 16 \<and> unat (nxt v) \<le> 2 ^ 64 - 1024"

definition regular_counter :: "u64 \<Rightarrow> bool" where
  "regular_counter c \<longleftrightarrow> unat c < 2 ^ 64 - 1024"

definition stale :: "validator \<Rightarrow> u64 set" where
  "stale v = {c. \<not> w_good (window_of v) (unat c)}"

fun taken :: "u64 \<Rightarrow> bool \<Rightarrow> u64 option" where
  "taken c True = Some c"
| "taken c False = None"

section \<open>Single bits\<close>

lemma window_consts: "WORD_SIZE = 64" "N_BITS = 1024"
  by (simp_all add: WORD_SIZE_def N_WORDS_def N_BITS_def)

lemma unat_idx: "unat ((i :: u64) mod 1024 div 64) = unat i mod 1024 div 64"
    "unat ((i :: u64) mod 1024 mod 64) = unat i mod 1024 mod 64"
  by (simp_all add: unat_div unat_mod)

lemma slot_index: "s < 1024 \<Longrightarrow> s div 64 < 16" for s :: nat
  by auto

lemma slot_same_word:
  "s div 64 = t div 64 \<Longrightarrow> s mod 64 = t mod 64 \<longleftrightarrow> s = t" for s t :: nat
  by (metis div_mult_mod_eq)

lemma check_bit_slot: "check_bit bm i \<longleftrightarrow> slot bm (unat i mod 1024)"
  by (simp add: check_bit_def slot_def window_consts unat_idx Let_def and_one_eq bit_iff_odd_drop_bit
      odd_iff_mod_2_eq_one)

lemma slot_set_bit_at:
  assumes "length bm = 16" and "s < 1024"
  shows "slot (set_bit_at bm i) s \<longleftrightarrow> s = unat i mod 1024 \<or> slot bm s"
proof -
  define t where "t = unat i mod 1024"
  have "t div 64 < 16" unfolding t_def by (rule slot_index) simp
  then show ?thesis
    unfolding set_bit_at_def slot_def window_consts unat_idx Let_def t_def [symmetric]
    using assms slot_same_word [of s t] by (cases "s div 64 = t div 64") (auto simp: bit_or_iff bit_exp_iff)
qed

lemma slot_clear_bit_at:
  assumes "length bm = 16" and "s < 1024"
  shows "slot (clear_bit_at bm i) s \<longleftrightarrow> s \<noteq> unat i mod 1024 \<and> slot bm s"
proof -
  have "unat i mod 1024 div 64 < 16" by (rule slot_index) simp
  then show ?thesis using assms slot_same_word [of "unat i mod 1024" s]
    by (auto simp: clear_bit_at_def slot_def window_consts unat_idx Let_def nth_list_update bit_and_iff
        bit_not_iff bit_exp_iff)
qed

lemma slot_clear_word:
  assumes "length bm = 16" and "s < 1024"
  shows "slot (clear_word bm i) s \<longleftrightarrow> s div 64 \<noteq> unat i mod 1024 div 64 \<and> slot bm s"
proof -
  have "unat i mod 1024 div 64 < 16" by (rule slot_index) simp
  then show ?thesis using assms
    by (auto simp: clear_word_def slot_def window_consts unat_idx Let_def nth_list_update)
qed

lemma length_bitmap_ops [simp]:
  "length (set_bit_at bm i) = length bm" "length (clear_bit_at bm i) = length bm"
  "length (clear_word bm i) = length bm"
  by (simp_all add: set_bit_at_def clear_bit_at_def clear_word_def Let_def)

lemma cleared_refl: "j \<le> i \<Longrightarrow> cleared b b i j"
  by (auto simp: cleared_def)

lemma all_between:
  "i \<le> j \<Longrightarrow> j \<le> l \<Longrightarrow> (\<forall>k. i \<le> k \<and> k < l \<longrightarrow> P k)
     \<longleftrightarrow> (\<forall>k. i \<le> k \<and> k < j \<longrightarrow> P k) \<and> (\<forall>k. j \<le> k \<and> k < l \<longrightarrow> P k)" for i j l :: nat
  by (meson le_trans less_le_trans not_le)

lemma cleared_trans: "cleared a b i j \<Longrightarrow> cleared b c j l \<Longrightarrow> i \<le> j \<Longrightarrow> j \<le> l \<Longrightarrow> cleared a c i l"
  by (simp add: cleared_def all_between [of i j l])

lemma cleared_bit: "length b = 16 \<Longrightarrow> cleared b (clear_bit_at b i) (unat i) (Suc (unat i))"
  by (auto simp: cleared_def slot_clear_bit_at less_Suc_eq)

text \<open>A whole word holds exactly the slots of 64 consecutive counters when the first one is aligned.\<close>

lemma aligned_word:
  fixes i s :: nat
  assumes "i mod 64 = 0" and "s < 1024"
  shows "s div 64 = i mod 1024 div 64 \<longleftrightarrow> (\<exists>k. i \<le> k \<and> k < i + 64 \<and> s = k mod 1024)"
proof -
  obtain q where i: "i = 64 * q" using assms(1) by auto
  have slot: "(i + r) mod 1024 = 64 * (q mod 16) + r" if "r < 64" for r
  proof -
    have "(i + r) mod 1024 = 64 * ((i + r) div 64 mod 16) + (i + r) mod 64"
      using mod_mult2_eq [of "i + r" 64 16] by simp
    then show ?thesis unfolding i using that by simp
  qed
  then have word: "i mod 1024 div 64 = q mod 16" using slot [of 0] by simp
  show ?thesis
  proof
    assume "s div 64 = i mod 1024 div 64"
    then have "s = 64 * (q mod 16) + s mod 64" unfolding word by (metis mult_div_mod_eq)
    then have "s = (i + s mod 64) mod 1024" by (simp add: slot)
    then show "\<exists>k. i \<le> k \<and> k < i + 64 \<and> s = k mod 1024" by (intro exI [of _ "i + s mod 64"]) simp
  next
    assume "\<exists>k. i \<le> k \<and> k < i + 64 \<and> s = k mod 1024"
    then obtain k where "i \<le> k" "k < i + 64" "s = k mod 1024" by blast
    then have "s = 64 * (q mod 16) + (k - i)" using slot [of "k - i"] by simp
    then show "s div 64 = i mod 1024 div 64" unfolding word using \<open>k < i + 64\<close> by simp
  qed
qed

lemma cleared_word:
  "length b = 16 \<Longrightarrow> unat i mod 64 = 0 \<Longrightarrow> cleared b (clear_word b i) (unat i) (unat i + 64)"
  by (auto simp: cleared_def slot_clear_word aligned_word)

section \<open>The clearing loops\<close>

lemma clear_to_boundary_spec:
  assumes "length bm = 16" and "i \<le> counter" and "clear_to_boundary bm i counter = (bm', i')"
  shows "cleared bm bm' (unat i) (unat i') \<and> i \<le> i' \<and> i' \<le> counter \<and> (i' mod 64 = 0 \<or> i' = counter)"
  using assms
proof (induction bm i counter arbitrary: bm' i' rule: clear_to_boundary.induct)
  case (1 bm i counter)
  show ?case
  proof (cases "i mod 64 \<noteq> 0 \<and> i < counter")
    case True
    then have Suc: "unat (i + 1) = Suc (unat i)" using unat_Suc_below by blast
    with True have le: "i + 1 \<le> counter" by (simp add: word_le_nat_alt word_less_nat_alt)
    have "clear_to_boundary (clear_bit_at bm i) (i + 1) counter = (bm', i')"
      using 1(4) True by (simp add: clear_to_boundary.simps [of bm] window_consts)
    then have "cleared (clear_bit_at bm i) bm' (Suc (unat i)) (unat i') \<and> i + 1 \<le> i' \<and> i' \<le> counter
        \<and> (i' mod 64 = 0 \<or> i' = counter)"
      using 1(1) True 1(2) le by (simp add: window_consts Suc)
    moreover from this have "Suc (unat i) \<le> unat i'" by (simp add: word_le_nat_alt Suc)
    ultimately show ?thesis
      using cleared_trans [OF cleared_bit [OF 1(2), of i]] by (auto simp: word_le_nat_alt)
  next
    case False
    then show ?thesis using 1(3,4)
      by (auto simp: clear_to_boundary.simps [of bm] window_consts cleared_refl split: if_splits)
  qed
qed

lemma clear_rest_spec:
  assumes "length bm = 16" and "i \<le> counter"
  shows "cleared bm (clear_rest bm i counter) (unat i) (unat counter)"
  using assms
proof (induction bm i counter rule: clear_rest.induct)
  case (1 bm i counter)
  show ?case
  proof (cases "i < counter")
    case True
    then have Suc: "unat (i + 1) = Suc (unat i)" using unat_Suc_below by blast
    with True have le: "i + 1 \<le> counter" by (simp add: word_le_nat_alt word_less_nat_alt)
    with 1 True have "cleared (clear_bit_at bm i) (clear_rest bm i counter) (Suc (unat i)) (unat counter)"
      by (simp add: clear_rest.simps [of bm i counter] Suc)
    with True show ?thesis using cleared_trans [OF cleared_bit [OF 1(2), of i]]
      by (auto simp: word_less_nat_alt)
  next
    case False
    with 1(3) show ?thesis by (subst clear_rest.simps) (simp add: cleared_refl)
  qed
qed

lemma mod_64_unat: "(w :: u64) mod 64 = 0 \<longleftrightarrow> unat w mod 64 = 0"
  using unat_mod [of w 64] unat_eq_zero [of "w mod 64"] by simp

lemma and_minus_64: "(w :: u64) mod 64 = 0 \<Longrightarrow> w AND (0 - 64) = w"
proof -
  assume "w mod 64 = 0"
  then have low: "take_bit 6 w = 0" by (simp add: take_bit_eq_mod)
  have m: "(0 - 64 :: u64) = NOT (mask 6)" by (simp add: mask_eq_exp_minus_1)
  show ?thesis unfolding m
  proof (rule bit_eqI)
    fix n
    have "\<not> bit (take_bit 6 w) n" unfolding low by simp
    then show "bit (w AND NOT (mask 6)) n = bit w n"
      by (auto simp: bit_and_iff bit_not_iff bit_mask_iff bit_take_bit_iff dest: bit_imp_possible_bit)
  qed
qed

lemma clear_words_spec:
  assumes "length bm = 16" and "unat i mod 64 = 0 \<or> i = counter" and "i \<le> counter"
    and "unat counter + 64 < 2 ^ 64"
  shows "\<exists>bm' i'. clear_words bm i counter = Some (bm', i') \<and> cleared bm bm' (unat i) (unat i')
    \<and> i \<le> i' \<and> i' \<le> counter"
  using assms
proof (induction "unat counter - unat i" arbitrary: bm i rule: less_induct)
  case less
  have le: "unat i \<le> unat counter" using less.prems(3) by (simp add: word_le_nat_alt)
  then have plus: "unat (i + 64) = unat i + 64" using less.prems(4) by (simp add: unat_word_ariths)
  show ?case
  proof (cases "i + 64 < counter")
    case True
    then have lt: "unat i + 64 < unat counter" by (simp add: word_less_nat_alt plus)
    then have al: "unat i mod 64 = 0" using less.prems(2) by auto
    then have "(i + 64) mod 64 = 0" by (simp add: word_arith_nat_mod plus flip: unat_eq_zero)
    then have step: "clear_words bm i counter = clear_words (clear_word bm i) (i + 64) counter"
      using True by (subst clear_words.simps) (simp add: window_consts and_minus_64 [simplified])
    have dec: "unat counter - unat (i + 64) < unat counter - unat i" using lt by (simp add: plus)
    have "unat (i + 64) mod 64 = 0" "i + 64 \<le> counter" using al True by (simp_all add: plus)
    then obtain bm' i' where IH: "clear_words (clear_word bm i) (i + 64) counter = Some (bm', i')"
        "cleared (clear_word bm i) bm' (unat i + 64) (unat i')" "i + 64 \<le> i'" "i' \<le> counter"
      using less.hyps [OF dec, of "clear_word bm i"] less.prems(1,4) unfolding plus by auto
    moreover have "cleared bm bm' (unat i) (unat i')"
      using cleared_trans [OF cleared_word [OF less.prems(1) al] IH(2)] IH(3)
      by (simp add: word_le_nat_alt plus)
    ultimately show ?thesis unfolding step by (auto simp: word_le_nat_alt plus)
  next
    case False
    then have "clear_words bm i counter = Some (bm, i)"
      by (subst clear_words.simps) (simp add: window_consts)
    then show ?thesis using less.prems(3) by (simp add: cleared_refl)
  qed
qed

lemma bitmap_eqI:
  assumes "length b = 16" and "length b' = 16" and "\<And>s. s < 1024 \<Longrightarrow> slot b s = slot b' s"
  shows "b = b'"
proof (rule nth_equalityI)
  show "length b = length b'" using assms by simp
  fix i
  assume i: "i < length b"
  show "b ! i = b' ! i"
  proof (rule bit_eqI)
    fix n
    assume "possible_bit TYPE(64 word) n"
    then have "n < 64" by simp
    then show "bit (b ! i) n = bit (b' ! i) n"
      using assms(3) [of "64 * i + n"] assms(1) i by (simp add: slot_def)
  qed
qed

lemma cleared_unique: "length b = 16 \<Longrightarrow> cleared b c i j \<Longrightarrow> cleared b d i j \<Longrightarrow> c = d"
  by (rule bitmap_eqI) (auto simp: cleared_def)

text \<open>The three loops together clear bit by bit.\<close>

lemma clear_loops:
  assumes "length bm = 16" and "i \<le> counter" and "unat counter + 64 < 2 ^ 64"
  shows "(let (bm, i) = clear_to_boundary bm i counter in
          case clear_words bm i counter of None \<Rightarrow> None
          | Some (bm, i) \<Rightarrow> Some (clear_rest bm i counter)) = Some (clear_rest bm i counter)"
proof -
  obtain b1 i1 where 1: "clear_to_boundary bm i counter = (b1, i1)" by fastforce
  note s1 = clear_to_boundary_spec [OF assms(1,2) 1]
  then have l1: "length b1 = 16" using assms(1) by (simp add: cleared_def)
  have al: "unat i1 mod 64 = 0 \<or> i1 = counter"
    using s1 by (simp add: mod_64_unat)
  obtain b2 i2 where 2: "clear_words b1 i1 counter = Some (b2, i2)"
      "cleared b1 b2 (unat i1) (unat i2)" "i1 \<le> i2" "i2 \<le> counter"
    using clear_words_spec [OF l1 al _ assms(3)] s1 by auto
  then have l2: "length b2 = 16" using l1 by (simp add: cleared_def)
  have "cleared bm b2 (unat i) (unat i2)"
    using cleared_trans s1 2 by (metis word_le_nat_alt)
  then have "cleared bm (clear_rest b2 i2 counter) (unat i) (unat counter)"
    using cleared_trans clear_rest_spec [OF l2 2(4)] s1 2 by (metis order_trans word_le_nat_alt)
  then have "clear_rest b2 i2 counter = clear_rest bm i counter"
    using cleared_unique [OF assms(1)] clear_rest_spec [OF assms(1,2)] by blast
  then show ?thesis by (simp add: 1 2)
qed

section \<open>Marking a counter\<close>

lemma no_wrap_in_window:
  fixes counter n :: u64
  assumes "\<not> counter + 1024 < n" and "n < counter" and "\<not> 1024 \<le> counter - n"
  shows "unat counter + 1024 < 2 ^ 64"
proof (rule ccontr)
  assume wrap: "\<not> unat counter + 1024 < 2 ^ 64"
  have c: "unat counter < 2 ^ 64" using unsigned_less [of counter, where 'a = nat] by simp
  have "unat (counter + 1024) = (unat counter + 1024) mod 2 ^ 64" by (simp add: unat_word_ariths)
  also have "\<dots> = unat counter + 1024 - 2 ^ 64" using wrap c by (subst mod_if) simp
  finally have "unat n \<le> unat counter + 1024 - 2 ^ 64" using assms(1) by (simp add: word_less_nat_alt not_less)
  moreover have "unat (counter - n) = unat counter - unat n"
    using assms(2) by (simp add: unat_sub word_less_nat_alt word_le_nat_alt)
  then have "unat counter - unat n < 1024" using assms(3) by (simp add: word_le_nat_alt)
  ultimately show False using wrap c by simp
qed

text \<open>The bitmap after skipping ahead from \<open>nxt v\<close> to \<open>counter\<close>, by clearing every skipped bit.\<close>

lemma mark_did_receive_eq:
  assumes "length (bitmap v) = 16"
  shows "mark_did_receive v counter =
     (if counter + 1024 < nxt v then Some (v, Err InvalidCounter)
      else if counter = nxt v
      then Some (v\<lparr>bitmap := set_bit_at (bitmap v) counter, nxt := nxt v + 1\<rparr>, Ok ())
      else if counter < nxt v
      then if check_bit (bitmap v) counter then Some (v, Err InvalidCounter)
           else Some (v\<lparr>bitmap := set_bit_at (bitmap v) counter\<rparr>, Ok ())
      else Some (v\<lparr>bitmap := set_bit_at (if counter - nxt v \<ge> 1024 then replicate 16 0
                                      else clear_rest (bitmap v) (nxt v) counter) counter,
               nxt := counter + 1\<rparr>, Ok ()))"
proof (cases "counter + 1024 < nxt v \<or> counter \<le> nxt v")
  case True
  then show ?thesis by (auto simp: mark_did_receive_def window_consts)
next
  case False
  then have ahead: "\<not> counter + 1024 < nxt v" "nxt v < counter" "counter \<noteq> nxt v" "\<not> counter < nxt v"
    by auto
  show ?thesis
  proof (cases "1024 \<le> counter - nxt v")
    case True
    then show ?thesis using ahead assms
      by (simp add: mark_did_receive_def window_consts map_replicate_const)
  next
    case False
    then have "unat counter + 64 < 2 ^ 64" using no_wrap_in_window [OF ahead(1,2)] by simp
    then show ?thesis
      using clear_loops [OF assms, of "nxt v" counter] ahead False
      by (simp add: mark_did_receive_def window_consts)
  qed
qed

lemma mod_window: "a < b \<Longrightarrow> b < a + 1024 \<Longrightarrow> a mod 1024 \<noteq> b mod 1024" for a b :: nat
  by (metis add_diff_inverse_nat dvd_imp_le less_imp_le_nat less_not_refl mod_eq_dvd_iff_nat
      nat_add_left_cancel_less not_le order_less_trans zero_less_diff)

lemma slot_zero [simp]: "s < 1024 \<Longrightarrow> \<not> slot (replicate 16 0) s"
  by (simp add: slot_def slot_index)

text \<open>Skipping ahead keeps the slots of the counters that stay in the window and clears the others.\<close>

lemma skip_slots:
  assumes "length bm = 16" and "n < counter" and "c < unat counter" and "unat counter < c + 1024"
  shows "slot (if counter - n \<ge> 1024 then replicate 16 0 else clear_rest bm n counter) (c mod 1024)
    \<longleftrightarrow> c < unat n \<and> slot bm (c mod 1024)"
proof -
  have sub: "unat (counter - n) = unat counter - unat n" "unat n < unat counter"
    using assms(2) by (simp_all add: unat_sub word_less_nat_alt word_le_nat_alt)
  show ?thesis
  proof (cases "counter - n \<ge> 1024")
    case True
    then have "1024 \<le> unat counter - unat n" by (simp add: word_le_nat_alt sub)
    then have "\<not> c < unat n" using assms(4) sub(2) by linarith
    then show ?thesis using True by simp
  next
    case False
    have "cleared bm (clear_rest bm n counter) (unat n) (unat counter)"
      using clear_rest_spec assms(1,2) by simp
    then have "slot (clear_rest bm n counter) (c mod 1024) \<longleftrightarrow>
        slot bm (c mod 1024) \<and> (\<forall>k. unat n \<le> k \<and> k < unat counter \<longrightarrow> c mod 1024 \<noteq> k mod 1024)"
      by (simp add: cleared_def)
    moreover have "(\<forall>k. unat n \<le> k \<and> k < unat counter \<longrightarrow> c mod 1024 \<noteq> k mod 1024) \<longleftrightarrow> c < unat n"
      using mod_window [of c] assms(3,4) by (metis linorder_not_less order_less_le_trans order_less_trans)
    ultimately show ?thesis using False by auto
  qed
qed

section \<open>Refinement of the abstract window\<close>

lemma window_rel_of: "window_inv v \<Longrightarrow> window_rel v (window_of v)"
  by (auto simp: window_rel_def window_of_def window_inv_def)

lemma window_rel_good: "window_rel v w \<Longrightarrow> w_good (window_of v) c \<longleftrightarrow> w_good w c"
  by (auto simp: window_rel_def window_of_def w_good_def)

lemma window_rel_inv: "window_rel v w \<Longrightarrow> window_inv v"
  by (simp add: window_rel_def window_inv_def)

lemma regular_add: "regular_counter c \<Longrightarrow> unat (c + 1024) = unat c + 1024"
  by (simp add: regular_counter_def unat_word_ariths)

lemma regular_Suc: "regular_counter c \<Longrightarrow> unat (c + 1) = Suc (unat c)"
  by (simp add: regular_counter_def unat_word_ariths)

lemma will_accept_refines:
  assumes "window_rel v w" and "regular_counter c"
  shows "will_accept v c = Ok () \<longleftrightarrow> w_good w (unat c)"
  using assms
  by (auto simp: will_accept_def window_consts word_le_nat_alt word_less_nat_alt regular_add
      window_rel_def w_good_def check_bit_slot not_less split: if_splits)

lemma window_rel_set:
  assumes rel: "window_rel v w" and c: "regular_counter c" and len: "length bm = 16"
    and n: "unat n = max (w_next w) (Suc (unat c))"
    and old: "\<And>k. k < w_next w \<Longrightarrow> k \<noteq> unat c \<Longrightarrow> unat n \<le> k + 1024 \<Longrightarrow>
      slot bm (k mod 1024) = slot (bitmap v) (k mod 1024)"
    and skipped: "\<And>k. w_next w \<le> k \<Longrightarrow> k < unat c \<Longrightarrow> unat n \<le> k + 1024 \<Longrightarrow> \<not> slot bm (k mod 1024)"
    and near: "unat n \<le> unat c + 1024"
  shows "window_rel (v\<lparr>bitmap := set_bit_at bm c, nxt := n\<rparr>)
    \<lparr>w_next = max (w_next w) (Suc (unat c)), w_seen = insert (unat c) (w_seen w)\<rparr>"
proof -
  have bounds: "Suc (unat c) \<le> unat n" "w_next w \<le> unat n" using n by simp_all
  have "slot (set_bit_at bm c) (k mod 1024) \<longleftrightarrow> k = unat c \<or> k \<in> w_seen w"
    if k: "k < unat n" "unat n \<le> k + 1024" for k
  proof -
    have "k < unat c + 1024" "unat c < k + 1024" using k near bounds by linarith+
    then have "k mod 1024 = unat c mod 1024 \<longleftrightarrow> k = unat c"
      using mod_window [of k "unat c"] mod_window [of "unat c" k] by (metis linorder_neqE_nat)
    then have set: "slot (set_bit_at bm c) (k mod 1024) \<longleftrightarrow> k = unat c \<or> slot bm (k mod 1024)"
      by (simp add: slot_set_bit_at [OF len])
    show ?thesis
    proof (cases "k < w_next w")
      case True
      then have "slot (bitmap v) (k mod 1024) \<longleftrightarrow> k \<in> w_seen w"
        using rel bounds(2) k(2) unfolding window_rel_def by auto
      then show ?thesis using set old [OF True _ k(2)] by auto
    next
      case False
      then have "k \<notin> w_seen w" "k \<le> unat c" using rel k(1) n unfolding window_rel_def by auto
      then show ?thesis using set skipped [of k] False k(2) by (cases "k = unat c") auto
    qed
  qed
  then show ?thesis using rel c len n by (auto simp: window_rel_def regular_counter_def less_SucI)
qed

lemma mark_refines_back:
  assumes rel: "window_rel v w" and c: "regular_counter c" and behind: "c < nxt v"
  shows "\<exists>v' r. mark_did_receive v c = Some (v', r) \<and> window_rel v' (w_mark w (unat c))
    \<and> (r = Ok () \<longleftrightarrow> w_good w (unat c))"
proof -
  have len: "length (bitmap v) = 16" and nx: "unat (nxt v) = w_next w" using rel by (auto simp: window_rel_def)
  have lt: "unat c < w_next w" using behind by (simp add: word_less_nat_alt nx)
  show ?thesis
  proof (cases "unat c + 1024 < w_next w")
    case True
    then have "c + 1024 < nxt v" by (simp add: word_less_nat_alt regular_add [OF c] nx)
    then show ?thesis using rel True by (simp add: mark_did_receive_eq [OF len] w_mark_def w_good_def)
  next
    case False
    then have near: "\<not> c + 1024 < nxt v" by (simp add: word_less_nat_alt regular_add [OF c] nx)
    have seen: "check_bit (bitmap v) c \<longleftrightarrow> unat c \<in> w_seen w"
      using rel lt False by (simp add: check_bit_slot window_rel_def)
    have "window_rel (v\<lparr>bitmap := set_bit_at (bitmap v) c, nxt := nxt v\<rparr>)
        \<lparr>w_next = max (w_next w) (Suc (unat c)), w_seen = insert (unat c) (w_seen w)\<rparr>"
      by (rule window_rel_set [OF rel c len]) (use lt False nx in auto)
    then show ?thesis using seen near behind lt False rel
      by (auto simp: mark_did_receive_eq [OF len] w_mark_def w_good_def)
  qed
qed

lemma mark_refines_ahead:
  assumes rel: "window_rel v w" and c: "regular_counter c" and ahead: "nxt v \<le> c"
  shows "\<exists>v'. mark_did_receive v c = Some (v', Ok ()) \<and> window_rel v' (w_mark w (unat c))"
proof -
  have len: "length (bitmap v) = 16" and nx: "unat (nxt v) = w_next w" using rel by (auto simp: window_rel_def)
  have le: "w_next w \<le> unat c" using ahead by (simp add: word_le_nat_alt nx)
  then have near: "\<not> c + 1024 < nxt v" by (simp add: word_less_nat_alt regular_add [OF c] nx)
  have mark: "w_mark w (unat c) =
      \<lparr>w_next = max (w_next w) (Suc (unat c)), w_seen = insert (unat c) (w_seen w)\<rparr>"
    using le by (simp add: w_mark_def w_good_def)
  show ?thesis
  proof (cases "c = nxt v")
    case True
    have "window_rel (v\<lparr>bitmap := set_bit_at (bitmap v) c, nxt := c + 1\<rparr>) (w_mark w (unat c))"
      unfolding mark by (rule window_rel_set [OF rel c len]) (use le True nx regular_Suc [OF c] in auto)
    then show ?thesis using near True by (simp add: mark_did_receive_eq [OF len])
  next
    case False
    then have lt: "nxt v < c" using ahead by simp
    define bm where "bm = (if c - nxt v \<ge> 1024 then replicate 16 0 else clear_rest (bitmap v) (nxt v) c)"
    have bm: "length bm = 16"
      using clear_rest_spec [OF len ahead] len by (simp add: bm_def cleared_def)
    have skip: "slot bm (k mod 1024) \<longleftrightarrow> k < w_next w \<and> slot (bitmap v) (k mod 1024)"
      if "k < unat c" "unat c < k + 1024" for k
      unfolding bm_def nx [symmetric] by (rule skip_slots [OF len lt that])
    have "window_rel (v\<lparr>bitmap := set_bit_at bm c, nxt := c + 1\<rparr>) (w_mark w (unat c))"
      unfolding mark
      by (rule window_rel_set [OF rel c bm]) (use le skip regular_Suc [OF c] in auto)
    moreover have "\<not> c < nxt v" using lt by simp
    ultimately show ?thesis using near False by (simp add: mark_did_receive_eq [OF len] bm_def)
  qed
qed

lemma mark_refines:
  assumes "window_rel v w" and "regular_counter c"
  shows "\<exists>v' r. mark_did_receive v c = Some (v', r) \<and> window_rel v' (w_mark w (unat c))
    \<and> (r = Ok () \<longleftrightarrow> w_good w (unat c))"
proof (cases "c < nxt v")
  case True
  then show ?thesis by (rule mark_refines_back [OF assms])
next
  case False
  then have "nxt v \<le> c" by simp
  moreover from this have "w_good w (unat c)"
    using assms(1) by (simp add: w_good_def window_rel_def word_le_nat_alt)
  ultimately show ?thesis using mark_refines_ahead [OF assms] by fastforce
qed

section \<open>Replay protection\<close>

lemma mark_step_refines:
  assumes "window_rel v w" and "regular_counter c"
  shows "window_rel (fst (mark_step v c)) (w_mark w (unat c))"
    and "snd (mark_step v c) \<longleftrightarrow> w_good w (unat c)"
  using mark_refines [OF assms]
  by (auto simp: mark_step_def receiving_counter_mark_def window_rel_def)

lemma w_mark_mono: "\<not> w_good w c' \<Longrightarrow> \<not> w_good (w_mark w c) c'"
  by (auto simp: w_good_def w_mark_def)

lemma w_mark_marks: "\<not> w_good (w_mark w c) c"
  by (auto simp: w_good_def w_mark_def)

lemma mark_step_stale:
  assumes "window_inv v" and "regular_counter c"
  shows "window_inv (fst (mark_step v c))"
    and "snd (mark_step v c) \<longleftrightarrow> c \<notin> stale v"
    and "stale (fst (mark_step v c)) = {k. \<not> w_good (w_mark (window_of v) (unat c)) (unat k)}"
  using mark_step_refines [OF window_rel_of [OF assms(1)] assms(2)]
  by (auto simp: window_rel_inv stale_def window_rel_good)

lemma taken_Some: "taken c b = Some k \<longleftrightarrow> b \<and> k = c"
  by (cases b) auto

interpretation window_guard: replay_guard mark_step regular_counter window_inv taken stale
proof unfold_locales
  fix v c k
  assume v: "window_inv v" and c: "regular_counter c"
  show "window_inv (fst (mark_step v c))" by (rule mark_step_stale(1) [OF v c])
  show "stale v \<subseteq> stale (fst (mark_step v c))"
    unfolding mark_step_stale(3) [OF v c] by (auto simp: stale_def dest: w_mark_mono)
  assume "taken c (snd (mark_step v c)) = Some k"
  then show "k \<notin> stale v" "k \<in> stale (fst (mark_step v c))"
    by (simp_all add: taken_Some mark_step_stale(2,3) [OF v c] w_mark_marks)
qed

lemma window_inv_default [simp]: "window_inv default_validator"
  by (simp add: window_inv_def default_validator_def)

lemma window_rel_default [simp]: "window_rel default_validator \<lparr>w_next = 0, w_seen = {}\<rparr>"
  by (simp add: window_rel_def default_validator_def)

text \<open>C12. Replay protection of transport data: whatever sequence of counters below \<open>2^64 - 1024\<close> is
  marked on a new session, in whatever order the receiving threads reach the lock, no counter is
  accepted twice.\<close>

theorem window_no_replay:
  assumes "list_all regular_counter cs"
  shows "distinct (accepted taken cs (snd (run mark_step default_validator cs)))"
  by (rule window_guard.accepted_distinct [OF window_inv_default assms])

theorem window_no_replay_witness:
  "distinct (accepted taken [0, 3, 1, 3, 5000, 1] (snd (run mark_step default_validator [0, 3, 1, 3, 5000, 1])))"
  using window_no_replay [of "[0, 3, 1, 3, 5000, 1]"] by (simp add: regular_counter_def)

lemma receiving_counter_mark_refines:
  assumes "window_rel v w" and "regular_counter c"
  shows "\<exists>v' r. receiving_counter_mark v c = Some (v', r) \<and> window_rel v' (w_mark w (unat c))
    \<and> (r = Ok () \<longleftrightarrow> w_good w (unat c))"
  using mark_refines [OF assms] by (auto simp: receiving_counter_mark_def window_rel_def)



text \<open>The word-clearing loop does not return from an aligned start if the counter is among the last
  63: adding a word to the last aligned position wraps to zero.\<close>

lemma aligned_below: "unat (i :: u64) mod 64 = 0 \<Longrightarrow> unat i \<le> 2 ^ 64 - 64"
proof -
  assume "unat i mod 64 = 0"
  then obtain q where q: "unat i = 64 * q" by auto
  have "unat i < 2 ^ 64" using unsigned_less [of i, where 'a = nat] by simp
  then show ?thesis unfolding q by simp
qed

lemma aligned_next:
  fixes i :: u64
  assumes "unat i mod 64 = 0"
  shows "unat ((i + 64) AND (0 - 64)) mod 64 = 0" and "unat (i + 64) \<le> 2 ^ 64 - 64"
proof -
  have "unat (i + 64) mod 64 = 0"
  proof -
    have "unat (i + 64) = (unat i + 64) mod 2 ^ 64" by (simp add: unat_word_ariths)
    then show ?thesis using assms by (simp add: mod_mod_cancel)
  qed
  moreover from this have "(i + 64) mod 64 = 0" by (simp only: mod_64_unat)
  ultimately show "unat ((i + 64) AND (0 - 64)) mod 64 = 0" "unat (i + 64) \<le> 2 ^ 64 - 64"
    using aligned_below [of "i + 64"] by (simp_all only: and_minus_64)
qed

lemma clear_words_diverges:
  assumes "unat i mod 64 = 0" and "2 ^ 64 - 64 < unat counter"
  shows "clear_words bm i counter = None"
proof -
  have "\<not> (unat i mod 64 = 0 \<and> 2 ^ 64 - 64 < unat counter)"
    if ret: "clear_words bm i counter = Some r" for bm i counter r
  proof (rule clear_words.raw_induct [OF _ ret])
    fix f :: "u64 list \<Rightarrow> u64 \<Rightarrow> u64 \<Rightarrow> (u64 list \<times> u64) option" and bm i counter r
    assume IH: "\<And>bm i counter r. f bm i counter = Some r \<Longrightarrow>
        \<not> (unat i mod 64 = 0 \<and> 2 ^ 64 - 64 < unat counter)"
      and body: "(if i + WORD_SIZE < counter
        then f (clear_word bm i) ((i + WORD_SIZE) AND (0 - WORD_SIZE)) counter else Some (bm, i)) = Some r"
    show "\<not> (unat i mod 64 = 0 \<and> 2 ^ 64 - 64 < unat counter)"
    proof
      assume al: "unat i mod 64 = 0 \<and> 2 ^ 64 - 64 < unat counter"
      then have "i + 64 < counter" using aligned_next(2) [of i] by (simp add: word_less_nat_alt)
      then have "f (clear_word bm i) ((i + 64) AND (0 - 64)) counter = Some r"
        using body unfolding window_consts by simp
      with IH aligned_next(1) [of i] al show False by metis
    qed
  qed
  then show ?thesis using assms by (metis not_Some_eq)
qed

text \<open>C21. Marking always returns. The word-clearing loop runs forever from a word-aligned start if the
  counter is among the last 63, but \<open>mark_did_receive\<close> never calls it there: for every 64-bit counter
  and every state of a 16-word validator it returns, with the bitmap still of 16 words.\<close>

theorem mark_did_receive_returns:
  "(unat i mod 64 = 0 \<longrightarrow> 2 ^ 64 - 64 < unat counter \<longrightarrow> clear_words bm i counter = None)
   \<and> (length (bitmap v) = 16 \<longrightarrow>
        (\<exists>v' r. mark_did_receive v counter = Some (v', r) \<and> length (bitmap v') = 16 \<and> r \<noteq> Panic))"
proof -
  have "length (clear_rest (bitmap v) (nxt v) counter) = 16"
    if "length (bitmap v) = 16" "nxt v < counter"
    using clear_rest_spec [OF that(1), of "nxt v" counter] that by (simp add: cleared_def)
  then show ?thesis using clear_words_diverges
    by (auto simp: mark_did_receive_eq not_less order_le_less)
qed

theorem mark_did_receive_returns_witness:
  "clear_words [] 0 (- 1) = None
   \<and> (\<exists>v' r. mark_did_receive (default_validator\<lparr>nxt := 100\<rparr>) (- 1) = Some (v', r)
        \<and> length (bitmap v') = 16 \<and> r \<noteq> Panic)"
  using mark_did_receive_returns [of 0 "- 1" "[]" "default_validator\<lparr>nxt := 100\<rparr>"]
  by (simp add: default_validator_def unsigned_minus_1_eq_mask mask_eq_exp_minus_1)

text \<open>C40. The three clearing loops (bits up to a word boundary, whole words, remaining bits) compute the
  same bitmap as clearing the skipped counters one bit at a time.\<close>

theorem window_clear_equiv:
  assumes "length bm = 16" and "i \<le> counter" and "unat counter + 64 < 2 ^ 64"
  shows "(let (bm, i) = clear_to_boundary bm i counter in
          case clear_words bm i counter of None \<Rightarrow> None
          | Some (bm, i) \<Rightarrow> Some (clear_rest bm i counter)) = Some (clear_rest bm i counter)"
  by (rule clear_loops [OF assms])

theorem window_clear_equiv_witness:
  "(let (bm, i) = clear_to_boundary (replicate 16 (- 1)) 5 300 in
    case clear_words bm i 300 of None \<Rightarrow> None
    | Some (bm, i) \<Rightarrow> Some (clear_rest bm i 300)) = Some (clear_rest (replicate 16 (- 1)) 5 300)"
  using window_clear_equiv [of "replicate 16 (- 1)" 5 300] by (simp add: word_le_nat_alt)

text \<open>The last counter resets the window: on a validator whose next counter is below 1024, counter
  \<open>2^64 - 1\<close> is accepted and leaves the next expected counter at zero, after which the quick check
  accepts every counter and the same packet is accepted again.\<close>

theorem window_wraps_at_max:
  assumes "length (bitmap v) = 16" and "unat (nxt v) < 1024"
  shows "\<exists>v'. mark_did_receive v (- 1) = Some (v', Ok ()) \<and> nxt v' = 0
    \<and> (\<forall>c. will_accept v' c = Ok ()) \<and> (\<exists>v''. mark_did_receive v' (- 1) = Some (v'', Ok ()))"
proof -
  have step: "\<exists>v'. mark_did_receive v (- 1) = Some (v', Ok ()) \<and> nxt v' = 0 \<and> length (bitmap v') = 16"
    if len: "length (bitmap v) = 16" and small: "unat (nxt v) < 1024" for v
  proof -
    have max: "unat (- 1 :: u64) = 2 ^ 64 - 1" by (simp add: unsigned_minus_1_eq_mask mask_eq_exp_minus_1)
    have "unat (- 1 - nxt v) = unat (- 1 :: u64) - unat (nxt v)"
      by (rule unat_sub) (rule word_order.extremum)
    then have "1024 \<le> - 1 - nxt v" using small by (simp add: word_le_nat_alt max)
    moreover have "\<not> - 1 + 1024 < nxt v" "- 1 \<noteq> nxt v" "\<not> - 1 < nxt v"
      using small max by (auto simp: word_less_nat_alt)
    ultimately show ?thesis by (simp add: mark_did_receive_eq [OF len])
  qed
  obtain v' where v': "mark_did_receive v (- 1) = Some (v', Ok ())" "nxt v' = 0" "length (bitmap v') = 16"
    using step [OF assms] by blast
  moreover have "\<exists>v''. mark_did_receive v' (- 1) = Some (v'', Ok ())" using step [of v'] v' by auto
  ultimately show ?thesis by (auto simp: will_accept_def)
qed

theorem window_wraps_at_max_witness:
  "\<exists>v'. mark_did_receive default_validator (- 1) = Some (v', Ok ()) \<and> nxt v' = 0
    \<and> (\<exists>v''. mark_did_receive v' (- 1) = Some (v'', Ok ()))"
  using window_wraps_at_max [of default_validator] by (auto simp: default_validator_def)

end
