(* ===== verification/Noise_Packets.thy ===== *)
theory Noise_Packets
  imports Noise_Base Payment_Protocol
begin

unbundle bit_operations_syntax

text \<open>
  The wire format of the tunnel in \<^verbatim>\<open>protocol/boringtun/src/noise/mod.rs\<close>: message types and sizes, the
  four kinds of packets, \<^verbatim>\<open>Tunn::parse_incoming_packet\<close> and \<^verbatim>\<open>Tunn::dst_address\<close>. The parser is
  specified by the serialisation \<open>packet_wire\<close>: it accepts exactly the serialised packets.
\<close>

section \<open>Definitions\<close>

definition HANDSHAKE_INIT :: u32 where "HANDSHAKE_INIT = 1"
definition HANDSHAKE_RESP :: u32 where "HANDSHAKE_RESP = 2"
definition COOKIE_REPLY :: u32 where "COOKIE_REPLY = 3"
definition DATA :: u32 where "DATA = 4"

definition HANDSHAKE_INIT_SZ :: nat where "HANDSHAKE_INIT_SZ = 148"
definition HANDSHAKE_RESP_SZ :: nat where "HANDSHAKE_RESP_SZ = 92"
definition COOKIE_REPLY_SZ :: nat where "COOKIE_REPLY_SZ = 64"
definition DATA_OVERHEAD_SZ :: nat where "DATA_OVERHEAD_SZ = 32"

definition IPV4_MIN_HEADER_SIZE :: nat where "IPV4_MIN_HEADER_SIZE = 20"
definition IPV4_LEN_OFF :: nat where "IPV4_LEN_OFF = 2"
definition IPV4_SRC_IP_OFF :: nat where "IPV4_SRC_IP_OFF = 12"
definition IPV4_DST_IP_OFF :: nat where "IPV4_DST_IP_OFF = 16"
definition IPV4_IP_SZ :: nat where "IPV4_IP_SZ = 4"
definition IPV6_MIN_HEADER_SIZE :: nat where "IPV6_MIN_HEADER_SIZE = 40"
definition IPV6_LEN_OFF :: nat where "IPV6_LEN_OFF = 4"
definition IPV6_SRC_IP_OFF :: nat where "IPV6_SRC_IP_OFF = 8"
definition IPV6_DST_IP_OFF :: nat where "IPV6_DST_IP_OFF = 24"
definition IPV6_IP_SZ :: nat where "IPV6_IP_SZ = 16"
definition IP_LEN_SZ :: nat where "IP_LEN_SZ = 2"

record handshake_init =
  hi_sender_idx :: u32
  hi_unencrypted_ephemeral :: bytes
  hi_encrypted_static :: bytes
  hi_encrypted_timestamp :: bytes

record handshake_response =
  hr_sender_idx :: u32
  hr_receiver_idx :: u32
  hr_unencrypted_ephemeral :: bytes
  hr_encrypted_nothing :: bytes

record packet_cookie_reply =
  cr_receiver_idx :: u32
  cr_nonce :: bytes
  cr_encrypted_cookie :: bytes

record packet_data =
  pd_receiver_idx :: u32
  pd_counter :: u64
  pd_encrypted_encapsulated_packet :: bytes

datatype packet =
    HandshakeInit handshake_init
  | HandshakeResponse handshake_response
  | PacketCookieReply packet_cookie_reply
  | PacketData packet_data

definition parse_incoming_packet :: "bytes \<Rightarrow> (wireguard_error, packet) rust" where
  "parse_incoming_packet src =
     (if length src < 4 then Err InvalidPacket else
      rbind (range 0 4 src) (\<lambda>ty.
      let packet_type = from_le ty :: u32 in
      if packet_type = HANDSHAKE_INIT \<and> length src = HANDSHAKE_INIT_SZ then
        rbind (range 4 8 src) (\<lambda>sender_idx. rbind (range 8 40 src) (\<lambda>ephemeral.
        rbind (range 40 88 src) (\<lambda>static. rbind (range 88 116 src) (\<lambda>timestamp.
        Ok (HandshakeInit \<lparr>hi_sender_idx = from_le sender_idx, hi_unencrypted_ephemeral = ephemeral,
          hi_encrypted_static = static, hi_encrypted_timestamp = timestamp\<rparr>)))))
      else if packet_type = HANDSHAKE_RESP \<and> length src = HANDSHAKE_RESP_SZ then
        rbind (range 4 8 src) (\<lambda>sender_idx. rbind (range 8 12 src) (\<lambda>receiver_idx.
        rbind (range 12 44 src) (\<lambda>ephemeral. rbind (range 44 60 src) (\<lambda>nothing.
        Ok (HandshakeResponse \<lparr>hr_sender_idx = from_le sender_idx, hr_receiver_idx = from_le receiver_idx,
          hr_unencrypted_ephemeral = ephemeral, hr_encrypted_nothing = nothing\<rparr>)))))
      else if packet_type = COOKIE_REPLY \<and> length src = COOKIE_REPLY_SZ then
        rbind (range 4 8 src) (\<lambda>receiver_idx. rbind (range 8 32 src) (\<lambda>nonce.
        rbind (range 32 64 src) (\<lambda>cookie.
        Ok (PacketCookieReply \<lparr>cr_receiver_idx = from_le receiver_idx, cr_nonce = nonce,
          cr_encrypted_cookie = cookie\<rparr>))))
      else if packet_type = DATA \<and> DATA_OVERHEAD_SZ \<le> length src then
        rbind (range 4 8 src) (\<lambda>receiver_idx. rbind (range 8 16 src) (\<lambda>counter.
        rbind (range 16 (length src) src) (\<lambda>data.
        Ok (PacketData \<lparr>pd_receiver_idx = from_le receiver_idx, pd_counter = from_le counter,
          pd_encrypted_encapsulated_packet = data\<rparr>))))
      else Err InvalidPacket))"

definition dst_address :: "bytes \<Rightarrow> ip_addr opt" where
  "dst_address packet =
     (if packet = [] then Err () else
      rbind (index packet 0) (\<lambda>b0.
      if drop_bit 4 b0 = 4 \<and> length packet \<ge> IPV4_MIN_HEADER_SIZE then
        rbind (range IPV4_DST_IP_OFF (IPV4_DST_IP_OFF + IPV4_IP_SZ) packet) (\<lambda>a. Ok (V4 (from_be a)))
      else if drop_bit 4 b0 = 6 \<and> length packet \<ge> IPV6_MIN_HEADER_SIZE then
        rbind (range IPV6_DST_IP_OFF (IPV6_DST_IP_OFF + IPV6_IP_SZ) packet) (\<lambda>a. Ok (V6 (from_be a)))
      else Err ()))"

text \<open>The serialisation: the fields of a packet in wire order, followed by what the parser does not
  read (the two MAC fields of a handshake message).\<close>

fun packet_wire :: "packet \<Rightarrow> bytes \<Rightarrow> bytes" where
  "packet_wire (HandshakeInit p) macs =
     le_bytes 4 HANDSHAKE_INIT @ le_bytes 4 (hi_sender_idx p) @ hi_unencrypted_ephemeral p
     @ hi_encrypted_static p @ hi_encrypted_timestamp p @ macs"
| "packet_wire (HandshakeResponse p) macs =
     le_bytes 4 HANDSHAKE_RESP @ le_bytes 4 (hr_sender_idx p) @ le_bytes 4 (hr_receiver_idx p)
     @ hr_unencrypted_ephemeral p @ hr_encrypted_nothing p @ macs"
| "packet_wire (PacketCookieReply p) macs =
     le_bytes 4 COOKIE_REPLY @ le_bytes 4 (cr_receiver_idx p) @ cr_nonce p @ cr_encrypted_cookie p @ macs"
| "packet_wire (PacketData p) macs =
     le_bytes 4 DATA @ le_bytes 4 (pd_receiver_idx p) @ le_bytes 8 (pd_counter p)
     @ pd_encrypted_encapsulated_packet p @ macs"

fun wf_packet :: "packet \<Rightarrow> bytes \<Rightarrow> bool" where
  "wf_packet (HandshakeInit p) macs \<longleftrightarrow> length (hi_unencrypted_ephemeral p) = 32
     \<and> length (hi_encrypted_static p) = 48 \<and> length (hi_encrypted_timestamp p) = 28 \<and> length macs = 32"
| "wf_packet (HandshakeResponse p) macs \<longleftrightarrow> length (hr_unencrypted_ephemeral p) = 32
     \<and> length (hr_encrypted_nothing p) = 16 \<and> length macs = 32"
| "wf_packet (PacketCookieReply p) macs \<longleftrightarrow>
     length (cr_nonce p) = 24 \<and> length (cr_encrypted_cookie p) = 32 \<and> macs = []"
| "wf_packet (PacketData p) macs \<longleftrightarrow> 16 \<le> length (pd_encrypted_encapsulated_packet p) \<and> macs = []"

section \<open>The parser\<close>

lemmas packet_types = HANDSHAKE_INIT_def HANDSHAKE_RESP_def COOKIE_REPLY_def DATA_def
lemmas packet_sizes = HANDSHAKE_INIT_SZ_def HANDSHAKE_RESP_SZ_def COOKIE_REPLY_SZ_def DATA_OVERHEAD_SZ_def
lemmas ip_offsets = IPV4_MIN_HEADER_SIZE_def IPV4_LEN_OFF_def IPV4_SRC_IP_OFF_def IPV4_DST_IP_OFF_def
  IPV4_IP_SZ_def IPV6_MIN_HEADER_SIZE_def IPV6_LEN_OFF_def IPV6_SRC_IP_OFF_def IPV6_DST_IP_OFF_def
  IPV6_IP_SZ_def IP_LEN_SZ_def

lemma parse_packet_wire:
  "wf_packet p macs \<Longrightarrow> parse_incoming_packet (packet_wire p macs) = Ok p"
  by (cases p) (simp_all add: parse_incoming_packet_def packet_types packet_sizes wire byte_images Let_def)

lemma parse_incoming_packet_total: "parse_incoming_packet src \<noteq> Panic"
  by (cases "length src < 4")
    (auto simp: parse_incoming_packet_def packet_sizes wire Let_def)

lemma type_field: "from_le (take 4 src) = (ty :: u32) \<Longrightarrow> 4 \<le> length src \<Longrightarrow> le_bytes 4 ty = take 4 src"
  using le_bytes_from_le [of "take 4 src" 4, where 'a = 32] by auto

lemmas parse_simps = parse_incoming_packet_def wire Let_def packet_sizes

lemma parse_init_canonical:
  assumes "parse_incoming_packet src = Ok (HandshakeInit h)"
  shows "\<exists>macs. wf_packet (HandshakeInit h) macs \<and> src = packet_wire (HandshakeInit h) macs"
proof -
  have ty: "4 \<le> length src" "from_le (take 4 src) = HANDSHAKE_INIT" "length src = 148"
    using assms by (auto simp: parse_simps rbind_eq_Ok split: if_splits)
  have h: "h = \<lparr>hi_sender_idx = from_le (take 4 (drop 4 src)), hi_unencrypted_ephemeral = take 32 (drop 8 src),
      hi_encrypted_static = take 48 (drop 40 src), hi_encrypted_timestamp = take 28 (drop 88 src)\<rparr>"
    using assms ty by (simp add: parse_simps split: if_splits)
  show ?thesis
    using ty(3) type_field [OF ty(2,1)] take_split [of 4 148 src] take_split [of 4 144 "drop 4 src"]
      take_split [of 32 140 "drop 8 src"] take_split [of 48 108 "drop 40 src"]
      take_split [of 28 60 "drop 88 src"]
    by (auto simp: h byte_images intro!: exI [of _ "drop 116 src"])
qed

lemma parse_response_canonical:
  assumes "parse_incoming_packet src = Ok (HandshakeResponse h)"
  shows "\<exists>macs. wf_packet (HandshakeResponse h) macs \<and> src = packet_wire (HandshakeResponse h) macs"
proof -
  have ty: "4 \<le> length src" "from_le (take 4 src) = HANDSHAKE_RESP" "length src = 92"
    using assms by (auto simp: parse_simps rbind_eq_Ok split: if_splits)
  have h: "h = \<lparr>hr_sender_idx = from_le (take 4 (drop 4 src)), hr_receiver_idx = from_le (take 4 (drop 8 src)),
      hr_unencrypted_ephemeral = take 32 (drop 12 src), hr_encrypted_nothing = take 16 (drop 44 src)\<rparr>"
    using assms ty by (simp add: parse_simps split: if_splits)
  show ?thesis
    using ty(3) type_field [OF ty(2,1)] take_split [of 4 92 src] take_split [of 4 88 "drop 4 src"]
      take_split [of 4 84 "drop 8 src"] take_split [of 32 80 "drop 12 src"] take_split [of 16 48 "drop 44 src"]
    by (auto simp: h byte_images intro!: exI [of _ "drop 60 src"])
qed

lemma parse_cookie_canonical:
  assumes "parse_incoming_packet src = Ok (PacketCookieReply h)"
  shows "wf_packet (PacketCookieReply h) [] \<and> src = packet_wire (PacketCookieReply h) []"
proof -
  have ty: "4 \<le> length src" "from_le (take 4 src) = COOKIE_REPLY" "length src = 64"
    using assms by (auto simp: parse_simps rbind_eq_Ok split: if_splits)
  have h: "h = \<lparr>cr_receiver_idx = from_le (take 4 (drop 4 src)), cr_nonce = take 24 (drop 8 src),
      cr_encrypted_cookie = take 32 (drop 32 src)\<rparr>"
    using assms ty by (simp add: parse_simps split: if_splits)
  show ?thesis
    using ty(3) type_field [OF ty(2,1)] take_split [of 4 64 src] take_split [of 4 60 "drop 4 src"]
      take_split [of 24 56 "drop 8 src"]
    by (auto simp: h byte_images)
qed

lemma parse_data_canonical:
  assumes "parse_incoming_packet src = Ok (PacketData h)"
  shows "wf_packet (PacketData h) [] \<and> src = packet_wire (PacketData h) []"
proof -
  have ty: "4 \<le> length src" "from_le (take 4 src) = DATA" "32 \<le> length src"
    using assms by (auto simp: parse_simps rbind_eq_Ok split: if_splits)
  have h: "h = \<lparr>pd_receiver_idx = from_le (take 4 (drop 4 src)), pd_counter = from_le (take 8 (drop 8 src)),
      pd_encrypted_encapsulated_packet = drop 16 src\<rparr>"
    using assms ty by (simp add: parse_simps split: if_splits)
  show ?thesis
    using ty(3) type_field [OF ty(2,1)] append_take_drop_id [of 4 src] append_take_drop_id [of 4 "drop 4 src"]
      append_take_drop_id [of 8 "drop 8 src"]
    by (auto simp: h byte_images)
qed

lemma parse_incoming_packet_canonical:
  "parse_incoming_packet src = Ok p \<Longrightarrow> \<exists>macs. wf_packet p macs \<and> src = packet_wire p macs"
  using parse_init_canonical parse_response_canonical parse_cookie_canonical parse_data_canonical
  by (cases p) blast+

text \<open>C32. The parser accepts exactly the serialised packets: on no datagram does it panic, and it
  returns packet \<open>p\<close> if and only if the datagram is the serialisation of \<open>p\<close> with fields of the protocol's
  lengths, followed by 32 bytes of MACs for a handshake message and by nothing otherwise.\<close>

theorem parse_incoming_packet_exact:
  "parse_incoming_packet src \<noteq> Panic
   \<and> (parse_incoming_packet src = Ok p \<longleftrightarrow> (\<exists>macs. wf_packet p macs \<and> src = packet_wire p macs))"
  using parse_incoming_packet_total parse_incoming_packet_canonical parse_packet_wire by blast

lemma dst_address_total: "dst_address packet \<noteq> Panic"
  by (cases "packet = []") (auto simp: dst_address_def ip_offsets wire index_in)

end
