(* ===== verification/Session.thy ===== *)
theory Session
  imports Replay_Window Noise_Packets
begin

text \<open>
  \<^verbatim>\<open>Session\<close> of \<^verbatim>\<open>protocol/boringtun/src/noise/session.rs\<close>: sealing a packet under the sending key with the
  next counter, and opening a received one behind the replay window. A key is its 32 bytes; the
  destination buffer is its length, since every byte of the returned slice is written. \<open>None\<close> means that
  the call does not return (the clearing loop of the replay window diverged).
\<close>

section \<open>Definitions\<close>

definition DATA_OFFSET :: nat where "DATA_OFFSET = 16"
definition AEAD_SIZE :: nat where "AEAD_SIZE = 16"

record session =
  receiving_index :: u32
  sending_index :: u32
  receiver :: bytes
  sender :: bytes
  sending_key_counter :: u64
  receiving_key_counter :: validator

definition session_new :: "u32 \<Rightarrow> u32 \<Rightarrow> bytes \<Rightarrow> bytes \<Rightarrow> session" where
  "session_new local_index peer_index receiving_key sending_key =
     \<lparr>receiving_index = local_index, sending_index = peer_index, receiver = receiving_key,
      sender = sending_key, sending_key_counter = 0, receiving_key_counter = default_validator\<rparr>"

definition local_index :: "session \<Rightarrow> nat" where
  "local_index s = unat (receiving_index s)"

definition counter_nonce :: "u64 \<Rightarrow> bytes" where
  "counter_nonce counter = replicate 4 0 @ le_bytes 8 counter"

definition format_packet_data :: "crypto \<Rightarrow> session \<Rightarrow> bytes \<Rightarrow> nat \<Rightarrow> session \<times> (wireguard_error, bytes) rust" where
  "format_packet_data C s src dst_len =
     (if dst_len < length src + DATA_OVERHEAD_SZ then (s, Panic) else
      let counter = sending_key_counter s;
          s = s\<lparr>sending_key_counter := sending_key_counter s + 1\<rparr>;
          data = aead_seal C (sender s) (counter_nonce counter) [] src;
          n = length src + AEAD_SIZE
      in (s, Ok (take (DATA_OFFSET + n)
           (le_bytes 4 DATA @ le_bytes 4 (sending_index s) @ le_bytes 8 counter @ data))))"

definition receive_packet_data ::
    "crypto \<Rightarrow> session \<Rightarrow> packet_data \<Rightarrow> nat \<Rightarrow> (session \<times> (wireguard_error, bytes) rust) option" where
  "receive_packet_data C s packet dst_len =
     (let ct = pd_encrypted_encapsulated_packet packet; counter = pd_counter packet in
      if dst_len < length ct then Some (s, Panic)
      else if pd_receiver_idx packet \<noteq> receiving_index s then Some (s, Err WrongIndex)
      else case will_accept (receiving_key_counter s) counter of
        Err e \<Rightarrow> Some (s, Err e)
      | Panic \<Rightarrow> Some (s, Panic)
      | Ok _ \<Rightarrow>
          (case aead_open C (receiver s) (counter_nonce counter) [] ct of
             None \<Rightarrow> Some (s, Err InvalidAeadTag)
           | Some ret \<Rightarrow>
               (case receiving_counter_mark (receiving_key_counter s) counter of
                  None \<Rightarrow> None
                | Some (v, r) \<Rightarrow>
                    Some (s\<lparr>receiving_key_counter := v\<rparr>, rbind r (\<lambda>_. Ok ret)))))"

definition current_packet_cnt :: "session \<Rightarrow> u64 \<times> u64" where
  "current_packet_cnt s = (nxt (receiving_key_counter s), receive_cnt (receiving_key_counter s))"

text \<open>Two ends of one session: the keys and the indices cross.\<close>

definition sessions_match :: "session \<Rightarrow> session \<Rightarrow> bool" where
  "sessions_match a b \<longleftrightarrow> sender a = receiver b \<and> receiver a = sender b
     \<and> sending_index a = receiving_index b \<and> receiving_index a = sending_index b"

text \<open>The packets a session seals for a list of payloads, and what the other end returns for a list of
  datagrams that it parses and receives in turn.\<close>

fun send_all :: "crypto \<Rightarrow> session \<Rightarrow> bytes list \<Rightarrow> session \<times> bytes list" where
  "send_all C s [] = (s, [])"
| "send_all C s (src # srcs) =
     (case format_packet_data C s src (length src + 32) of
        (s, Ok d) \<Rightarrow> (case send_all C s srcs of (s, ds) \<Rightarrow> (s, d # ds))
      | (s, _) \<Rightarrow> send_all C s srcs)"

fun receive_all :: "crypto \<Rightarrow> session \<Rightarrow> bytes list \<Rightarrow> (session \<times> (wireguard_error, bytes) rust list) option" where
  "receive_all C s [] = Some (s, [])"
| "receive_all C s (d # ds) =
     (case parse_incoming_packet d of
        Ok (PacketData p) \<Rightarrow>
          (case receive_packet_data C s p (length d) of
             None \<Rightarrow> None
           | Some (s, r) \<Rightarrow>
               (case receive_all C s ds of None \<Rightarrow> None | Some (s, rs) \<Rightarrow> Some (s, r # rs)))
      | _ \<Rightarrow> (case receive_all C s ds of None \<Rightarrow> None | Some (s, rs) \<Rightarrow> Some (s, Err InvalidPacket # rs)))"

text \<open>The packet a session seals next, receiving as the step of a machine that replies whether the packet
  was accepted, and the counter of an accepted packet.\<close>

definition sealed :: "crypto \<Rightarrow> session \<Rightarrow> bytes \<Rightarrow> packet_data" where
  "sealed C s src = \<lparr>pd_receiver_idx = sending_index s, pd_counter = sending_key_counter s,
     pd_encrypted_encapsulated_packet = aead_seal C (sender s) (counter_nonce (sending_key_counter s)) [] src\<rparr>"

definition session_step :: "crypto \<Rightarrow> nat \<Rightarrow> session \<Rightarrow> packet_data \<Rightarrow> session \<times> bool" where
  "session_step C dst_len s p =
     (case receive_packet_data C s p dst_len of
        Some (s', Ok _) \<Rightarrow> (s', True)
      | Some (s', _) \<Rightarrow> (s', False)
      | None \<Rightarrow> (s, False))"

definition accepted_counter :: "packet_data \<Rightarrow> bool \<Rightarrow> u64 option" where
  "accepted_counter p ok = (if ok then Some (pd_counter p) else None)"

definition sample_data :: "u64 \<Rightarrow> packet_data" where
  "sample_data c = \<lparr>pd_receiver_idx = 9, pd_counter = c,
     pd_encrypted_encapsulated_packet = toy_seal (replicate 32 1) (counter_nonce c) [] [7]\<rparr>"

section \<open>One packet\<close>

lemma session_new_sel [simp]:
  "receiving_index (session_new l p rk sk) = l" "sending_index (session_new l p rk sk) = p"
  "receiver (session_new l p rk sk) = rk" "sender (session_new l p rk sk) = sk"
  "sending_key_counter (session_new l p rk sk) = 0"
  "receiving_key_counter (session_new l p rk sk) = default_validator"
  by (simp_all add: session_new_def)

lemma format_packet_data_sealed:
  assumes "aead_correct C" and "length src + 32 \<le> dst_len"
  shows "format_packet_data C s src dst_len =
      (s\<lparr>sending_key_counter := sending_key_counter s + 1\<rparr>, Ok (packet_wire (PacketData (sealed C s src)) []))"
    and "parse_incoming_packet (packet_wire (PacketData (sealed C s src)) []) = Ok (PacketData (sealed C s src))"
    and "length (packet_wire (PacketData (sealed C s src)) []) = length src + 32"
proof -
  have len: "length (aead_seal C k n a src) = length src + 16" for k n a
    using assms(1) by (simp add: aead_correct_def)
  show "parse_incoming_packet (packet_wire (PacketData (sealed C s src)) []) = Ok (PacketData (sealed C s src))"
    by (rule parse_packet_wire) (simp add: sealed_def len)
  show "format_packet_data C s src dst_len =
      (s\<lparr>sending_key_counter := sending_key_counter s + 1\<rparr>, Ok (packet_wire (PacketData (sealed C s src)) []))"
    using assms(2)
    by (simp add: format_packet_data_def sealed_def packet_sizes DATA_OFFSET_def AEAD_SIZE_def len Let_def)
  show "length (packet_wire (PacketData (sealed C s src)) []) = length src + 32"
    by (simp add: sealed_def len)
qed

lemma receive_sealed:
  assumes C: "aead_correct C" and match: "sessions_match a b"
    and rel: "window_rel (receiving_key_counter b) w"
    and ctr: "regular_counter (sending_key_counter a)" and good: "w_good w (unat (sending_key_counter a))"
    and dst: "length src + 16 \<le> dst_len"
  shows "\<exists>b'. receive_packet_data C b (sealed C a src) dst_len = Some (b', Ok src)
    \<and> window_rel (receiving_key_counter b') (w_mark w (unat (sending_key_counter a)))
    \<and> b' = b\<lparr>receiving_key_counter := receiving_key_counter b'\<rparr>"
proof -
  have "will_accept (receiving_key_counter b) (sending_key_counter a) = Ok ()"
    using will_accept_refines [OF rel ctr] good by simp
  moreover obtain v where "receiving_counter_mark (receiving_key_counter b) (sending_key_counter a) = Some (v, Ok ())"
      "window_rel v (w_mark w (unat (sending_key_counter a)))"
    using receiving_counter_mark_refines [OF rel ctr] good by auto
  ultimately show ?thesis
    using C match dst by (simp add: receive_packet_data_def sealed_def aead_correct_def sessions_match_def)
qed

section \<open>Replay protection of a session\<close>

lemma session_step_cases:
  assumes "window_inv (receiving_key_counter s)" and "regular_counter (pd_counter p)"
  shows "session_step C n s p = (s, False)
    \<or> session_step C n s p = (s\<lparr>receiving_key_counter := fst (mark_step (receiving_key_counter s) (pd_counter p))\<rparr>,
         snd (mark_step (receiving_key_counter s) (pd_counter p)))"
proof -
  obtain v r where "receiving_counter_mark (receiving_key_counter s) (pd_counter p) = Some (v, r)"
    using receiving_counter_mark_refines [OF window_rel_of [OF assms(1)] assms(2)] by auto
  then show ?thesis
    by (cases r) (auto simp: session_step_def receive_packet_data_def mark_step_def Let_def
        split: rust.split option.split)
qed

interpretation session_guard: replay_guard "session_step C n" "\<lambda>p. regular_counter (pd_counter p)"
    "\<lambda>s. window_inv (receiving_key_counter s)" accepted_counter "\<lambda>s. stale (receiving_key_counter s)"
  for C n
proof unfold_locales
  fix s :: session and p :: packet_data and k
  assume v: "window_inv (receiving_key_counter s)" and c: "regular_counter (pd_counter p)"
  note cases = session_step_cases [OF v c, of C n]
  show "window_inv (receiving_key_counter (fst (session_step C n s p)))"
    using cases mark_step_stale(1) [OF v c] v by auto
  show "stale (receiving_key_counter s) \<subseteq> stale (receiving_key_counter (fst (session_step C n s p)))"
    using cases window_guard.dead_mono [OF v c] by auto
  assume "accepted_counter p (snd (session_step C n s p)) = Some k"
  then have k: "k = pd_counter p" "snd (session_step C n s p)"
    by (auto simp: accepted_counter_def split: if_splits)
  then have step: "snd (mark_step (receiving_key_counter s) (pd_counter p))"
    "receiving_key_counter (fst (session_step C n s p)) = fst (mark_step (receiving_key_counter s) (pd_counter p))"
    using cases by auto
  then show "k \<notin> stale (receiving_key_counter s)" "k \<in> stale (receiving_key_counter (fst (session_step C n s p)))"
    using window_guard.fresh [OF v c, of k] window_guard.kills [OF v c, of k] by (simp_all add: k(1))
qed



section \<open>Streams\<close>

lemma send_all_Cons:
  assumes "aead_correct C"
  shows "send_all C a (src # srcs) =
    (fst (send_all C (a\<lparr>sending_key_counter := sending_key_counter a + 1\<rparr>) srcs),
     packet_wire (PacketData (sealed C a src)) []
       # snd (send_all C (a\<lparr>sending_key_counter := sending_key_counter a + 1\<rparr>) srcs))"
  using format_packet_data_sealed(1) [OF assms, of src "length src + 32" a] by (simp add: case_prod_beta)

text \<open>C8. Data round trip: if two sessions have crossing keys and indices and the receiver's window stands
  before the sender's counter, then every stream of payloads that one end seals is parsed, opened and
  returned unchanged and in order by the other end, up to counter \<open>2^64 - 1024\<close>.\<close>

theorem session_stream_roundtrip:
  assumes "aead_correct C" and "sessions_match a b"
    and "window_rel (receiving_key_counter b) w" and "w_next w \<le> unat (sending_key_counter a)"
    and "unat (sending_key_counter a) + length srcs \<le> 2 ^ 64 - 1024"
  shows "\<exists>b'. receive_all C b (snd (send_all C a srcs)) = Some (b', map Ok srcs)"
  using assms(2-)
proof (induction srcs arbitrary: a b w)
  case Nil
  then show ?case by simp
next
  case (Cons src srcs)
  let ?a = "a\<lparr>sending_key_counter := sending_key_counter a + 1\<rparr>"
  have ctr: "regular_counter (sending_key_counter a)" using Cons.prems(4) by (simp add: regular_counter_def)
  have good: "w_good w (unat (sending_key_counter a))" using Cons.prems(3) by (simp add: w_good_def)
  note wire = format_packet_data_sealed [OF assms(1), of src "length src + 32" a, OF order_refl]
  have "length src + 16 \<le> length (packet_wire (PacketData (sealed C a src)) [])" by (simp only: wire(3))
  from receive_sealed [OF assms(1) Cons.prems(1,2) ctr good this] obtain b' where
    b': "receive_packet_data C b (sealed C a src) (length (packet_wire (PacketData (sealed C a src)) []))
        = Some (b', Ok src)"
      "window_rel (receiving_key_counter b') (w_mark w (unat (sending_key_counter a)))"
      "b' = b\<lparr>receiving_key_counter := receiving_key_counter b'\<rparr>" by blast
  have "sessions_match ?a b'" using Cons.prems(1) unfolding sessions_match_def by (subst (1 2 3 4) b'(3)) simp
  moreover have "w_next (w_mark w (unat (sending_key_counter a))) \<le> unat (sending_key_counter ?a)"
    using good Cons.prems(3) by (simp add: w_mark_def regular_Suc [OF ctr])
  moreover have "unat (sending_key_counter ?a) + length srcs \<le> 2 ^ 64 - 1024"
    using Cons.prems(4) by (simp add: regular_Suc [OF ctr])
  ultimately obtain b'' where "receive_all C b' (snd (send_all C ?a srcs)) = Some (b'', map Ok srcs)"
    using Cons.IH b'(2) by blast
  then show ?case unfolding send_all_Cons [OF assms(1)] by (simp add: wire(2) b'(1) del: packet_wire.simps)
qed

theorem session_stream_roundtrip_witness:
  "\<exists>b'. receive_all toy_crypto (session_new 9 8 (replicate 32 1) (replicate 32 2))
      (snd (send_all toy_crypto (session_new 8 9 (replicate 32 2) (replicate 32 1)) [[1, 2], [], [3]]))
    = Some (b', map Ok [[1, 2], [], [3]])"
  using session_stream_roundtrip [of toy_crypto "session_new 8 9 (replicate 32 2) (replicate 32 1)"
      "session_new 9 8 (replicate 32 1) (replicate 32 2)" "\<lparr>w_next = 0, w_seen = {}\<rparr>" "[[1, 2], [], [3]]"]
  by (simp add: sessions_match_def)

end
