(* ===== verification/Handshake.thy ===== *)
theory Handshake
  imports Session
begin

unbundle bit_operations_syntax

text \<open>
  The Noise IK handshake of \<^verbatim>\<open>protocol/boringtun/src/noise/handshake.rs\<close>. The state of a handshake is a
  record; an operation returns the new state together with its outcome, because an error may be
  returned after the state was changed. Randomness is explicit: the ephemeral secret an operation draws
  is an argument. Clock readings are arguments in nanoseconds; \<^verbatim>\<open>duration_since\<close> saturates at zero like
  subtraction on \<^typ>\<open>nat\<close>. Public, private and symmetric keys are byte lists.
\<close>

section \<open>Definitions\<close>

definition LABEL_MAC1 :: bytes where
  "LABEL_MAC1 = [109, 97, 99, 49, 45, 45, 45, 45]"

definition LABEL_COOKIE :: bytes where
  "LABEL_COOKIE = [99, 111, 111, 107, 105, 101, 45, 45]"

definition INITIAL_CHAIN_KEY :: bytes where
  "INITIAL_CHAIN_KEY =
     [96, 226, 109, 174, 243, 39, 239, 192, 46, 195, 53, 226, 160, 37, 210, 208, 22, 235, 66, 6, 248,
      114, 119, 245, 45, 56, 209, 152, 139, 120, 205, 54]"

definition INITIAL_CHAIN_HASH :: bytes where
  "INITIAL_CHAIN_HASH =
     [34, 17, 179, 97, 8, 26, 197, 102, 105, 18, 67, 219, 69, 138, 213, 50, 45, 156, 108, 102, 34,
      147, 232, 183, 14, 225, 156, 101, 186, 7, 158, 243]"

definition b2s_hash :: "crypto \<Rightarrow> bytes \<Rightarrow> bytes \<Rightarrow> bytes" where
  "b2s_hash C data1 data2 = hash C (data1 @ data2)"

definition b2s_hmac :: "crypto \<Rightarrow> bytes \<Rightarrow> bytes \<Rightarrow> bytes" where
  "b2s_hmac C key data1 = hmac C key data1"

definition b2s_hmac2 :: "crypto \<Rightarrow> bytes \<Rightarrow> bytes \<Rightarrow> bytes \<Rightarrow> bytes" where
  "b2s_hmac2 C key data1 data2 = hmac C key (data1 @ data2)"

definition b2s_keyed_mac_16 :: "crypto \<Rightarrow> bytes \<Rightarrow> bytes \<Rightarrow> bytes" where
  "b2s_keyed_mac_16 C key data1 = mac16 C key data1"

definition b2s_keyed_mac_16_2 :: "crypto \<Rightarrow> bytes \<Rightarrow> bytes \<Rightarrow> bytes \<Rightarrow> bytes" where
  "b2s_keyed_mac_16_2 C key data1 data2 = mac16 C key (data1 @ data2)"

definition b2s_mac_24 :: "crypto \<Rightarrow> bytes \<Rightarrow> bytes \<Rightarrow> bytes" where
  "b2s_mac_24 C key data1 = mac24 C key data1"

definition aead_chacha20_seal :: "crypto \<Rightarrow> bytes \<Rightarrow> u64 \<Rightarrow> bytes \<Rightarrow> bytes \<Rightarrow> bytes" where
  "aead_chacha20_seal C key counter data aad = aead_seal C key (counter_nonce counter) aad data"

text \<open>The buffer of length \<open>n\<close> that receives the plaintext must have exactly its length.\<close>

definition aead_chacha20_open ::
    "crypto \<Rightarrow> nat \<Rightarrow> bytes \<Rightarrow> u64 \<Rightarrow> bytes \<Rightarrow> bytes \<Rightarrow> (wireguard_error, bytes) rust" where
  "aead_chacha20_open C n key counter data aad =
     (case aead_open C key (counter_nonce counter) aad data of
        None \<Rightarrow> Err InvalidAeadTag
      | Some plaintext \<Rightarrow> if length plaintext = n then Ok plaintext else Panic)"

subsection \<open>Timestamps\<close>

record tai64n =
  secs :: u64
  nano :: u32

record time_stamper =
  duration_at_start :: nat
  instant_at_start :: nat

definition stamper_new :: "nat \<Rightarrow> nat \<Rightarrow> time_stamper" where
  "stamper_new system_time now = \<lparr>duration_at_start = system_time, instant_at_start = now\<rparr>"

definition TAI64_BASE :: u64 where
  "TAI64_BASE = push_bit 62 1 + 37"

definition stamp :: "time_stamper \<Rightarrow> nat \<Rightarrow> bytes" where
  "stamp st now =
     (let t = (now - instant_at_start st) + duration_at_start st in
      be_bytes 8 (of_nat (t div 1000000000) + TAI64_BASE) @ be_bytes 4 (of_nat (t mod 1000000000) :: u32))"

definition tai64n_zero :: tai64n where
  "tai64n_zero = \<lparr>secs = 0, nano = 0\<rparr>"

definition tai64n_parse :: "bytes \<Rightarrow> (wireguard_error, tai64n) rust" where
  "tai64n_parse buf =
     (if length buf < 12 then Err InvalidTai64nTimestamp
      else let (sec_bytes, nano_bytes) = (take 8 buf, drop 8 buf)
           in Ok \<lparr>secs = from_be sec_bytes, nano = from_be nano_bytes\<rparr>)"

definition after :: "tai64n \<Rightarrow> tai64n \<Rightarrow> bool" where
  "after t u \<longleftrightarrow> secs t > secs u \<or> secs t = secs u \<and> nano t > nano u"

subsection \<open>State\<close>

record noise_params =
  static_public :: bytes
  static_private :: bytes
  peer_static_public :: bytes
  static_shared :: bytes
  sending_mac1_key :: bytes
  preshared_key :: "bytes option"

record init_sent =
  is_local_index :: u32
  is_hash :: bytes
  is_chaining_key :: bytes
  is_ephemeral_private :: bytes
  is_time_sent :: nat

record init_received =
  ir_hash :: bytes
  ir_chaining_key :: bytes
  ir_peer_ephemeral_public :: bytes
  ir_peer_index :: u32

datatype handshake_state = NoHandshake | InitSent init_sent | InitReceived init_received | Expired

record cookies =
  last_mac1 :: "bytes option"
  cookie_index :: u32
  write_cookie :: "bytes option"

record handshake =
  params :: noise_params
  next_index :: u32
  previous :: handshake_state
  state :: handshake_state
  hs_cookies :: cookies
  last_handshake_timestamp :: tai64n
  stamper :: time_stamper
  last_rtt :: "u32 option"

record half_handshake =
  hh_peer_index :: u32
  hh_peer_static_public :: bytes

subsection \<open>Operations\<close>

definition parse_handshake_anon ::
    "crypto \<Rightarrow> bytes \<Rightarrow> bytes \<Rightarrow> handshake_init \<Rightarrow> (wireguard_error, half_handshake) rust" where
  "parse_handshake_anon C own_private own_public packet =
     (let peer_index = hi_sender_idx packet;
          chaining_key = INITIAL_CHAIN_KEY;
          h = INITIAL_CHAIN_HASH;
          h = b2s_hash C h own_public;
          peer_ephemeral_public = hi_unencrypted_ephemeral packet;
          h = b2s_hash C h peer_ephemeral_public;
          chaining_key = b2s_hmac C (b2s_hmac C chaining_key peer_ephemeral_public) [0x01];
          ephemeral_shared = dh C own_private peer_ephemeral_public;
          temp = b2s_hmac C chaining_key ephemeral_shared;
          chaining_key = b2s_hmac C temp [0x01];
          key = b2s_hmac2 C temp chaining_key [0x02]
      in rbind (aead_chacha20_open C 32 key 0 (hi_encrypted_static packet) h) (\<lambda>peer_public.
         Ok \<lparr>hh_peer_index = peer_index, hh_peer_static_public = peer_public\<rparr>))"

definition noise_params_new :: "crypto \<Rightarrow> bytes \<Rightarrow> bytes \<Rightarrow> bytes \<Rightarrow> bytes option \<Rightarrow> noise_params" where
  "noise_params_new C own_private own_public peer_public psk =
     (let shared = dh C own_private peer_public;
          initial_sending_mac_key = b2s_hash C LABEL_MAC1 peer_public
      in \<lparr>static_public = own_public, static_private = own_private, peer_static_public = peer_public,
          static_shared = shared, sending_mac1_key = initial_sending_mac_key, preshared_key = psk\<rparr>)"

definition noise_set_static_private ::
    "crypto \<Rightarrow> noise_params \<Rightarrow> bytes \<Rightarrow> bytes \<Rightarrow> (wireguard_error, noise_params) rust" where
  "noise_set_static_private C p new_private new_public =
     (let check_key = pubkey C new_private in
      if check_key \<noteq> new_public then Panic
      else Ok (p\<lparr>static_private := new_private, static_public := new_public,
                static_shared := dh C new_private (peer_static_public p)\<rparr>))"

definition handshake_new ::
    "crypto \<Rightarrow> bytes \<Rightarrow> bytes \<Rightarrow> bytes \<Rightarrow> u32 \<Rightarrow> bytes option \<Rightarrow> nat \<Rightarrow> nat \<Rightarrow> handshake" where
  "handshake_new C own_private own_public peer_public global_idx psk system_time now =
     \<lparr>params = noise_params_new C own_private own_public peer_public psk,
      next_index = global_idx, previous = NoHandshake, state = NoHandshake,
      hs_cookies = \<lparr>last_mac1 = None, cookie_index = 0, write_cookie = None\<rparr>,
      last_handshake_timestamp = tai64n_zero, stamper = stamper_new system_time now, last_rtt = None\<rparr>"

definition is_in_progress :: "handshake \<Rightarrow> bool" where
  "is_in_progress hs \<longleftrightarrow> (case state hs of NoHandshake \<Rightarrow> False | Expired \<Rightarrow> False | _ \<Rightarrow> True)"

definition timer :: "handshake \<Rightarrow> nat option" where
  "timer hs = (case state hs of InitSent s \<Rightarrow> Some (is_time_sent s) | _ \<Rightarrow> None)"

definition set_expired :: "handshake \<Rightarrow> handshake" where
  "set_expired hs = hs\<lparr>previous := Expired, state := Expired\<rparr>"

definition handshake_is_expired :: "handshake \<Rightarrow> bool" where
  "handshake_is_expired hs \<longleftrightarrow> (case state hs of Expired \<Rightarrow> True | _ \<Rightarrow> False)"

definition has_cookie :: "handshake \<Rightarrow> bool" where
  "has_cookie hs \<longleftrightarrow> write_cookie (hs_cookies hs) \<noteq> None"

definition clear_cookie :: "handshake \<Rightarrow> handshake" where
  "clear_cookie hs = hs\<lparr>hs_cookies := (hs_cookies hs)\<lparr>write_cookie := None\<rparr>\<rparr>"

definition inc_index :: "handshake \<Rightarrow> handshake \<times> u32" where
  "inc_index hs =
     (let index = next_index hs;
          idx8 = ucast index :: u8;
          next = (index AND NOT 0xff) OR ucast (idx8 + 1)
      in (hs\<lparr>next_index := next\<rparr>, next))"

definition handshake_set_static_private ::
    "crypto \<Rightarrow> handshake \<Rightarrow> bytes \<Rightarrow> bytes \<Rightarrow> (wireguard_error, handshake) rust" where
  "handshake_set_static_private C hs private_key public_key =
     rbind (noise_set_static_private C (params hs) private_key public_key) (\<lambda>p. Ok (hs\<lparr>params := p\<rparr>))"

text \<open>\<open>dst\<close> is the message without its two MAC fields, which the source overwrites.\<close>

definition append_mac1_and_mac2 :: "crypto \<Rightarrow> handshake \<Rightarrow> u32 \<Rightarrow> bytes \<Rightarrow> handshake \<times> bytes" where
  "append_mac1_and_mac2 C hs idx dst =
     (let msg_mac1 = b2s_keyed_mac_16 C (sending_mac1_key (params hs)) dst;
          msg_mac2 = (case write_cookie (hs_cookies hs) of
             Some cookie \<Rightarrow> b2s_keyed_mac_16 C cookie (dst @ msg_mac1)
           | None \<Rightarrow> replicate 16 0);
          hs = hs\<lparr>hs_cookies := (hs_cookies hs)\<lparr>cookie_index := idx, last_mac1 := Some msg_mac1\<rparr>\<rparr>
      in (hs, dst @ msg_mac1 @ msg_mac2))"

definition format_handshake_initiation ::
    "crypto \<Rightarrow> handshake \<Rightarrow> bytes \<Rightarrow> nat \<Rightarrow> nat \<Rightarrow> nat \<Rightarrow> handshake \<times> (wireguard_error, bytes) rust" where
  "format_handshake_initiation C hs ephemeral_private stamp_now time_now dst_len =
     (if dst_len < HANDSHAKE_INIT_SZ then (hs, Err DestinationBufferTooSmall) else
      let (hs, local_index) = inc_index hs;
          chaining_key = INITIAL_CHAIN_KEY;
          h = INITIAL_CHAIN_HASH;
          h = b2s_hash C h (peer_static_public (params hs));
          message_type = le_bytes 4 HANDSHAKE_INIT;
          sender_index = le_bytes 4 local_index;
          unencrypted_ephemeral = pubkey C ephemeral_private;
          h = b2s_hash C h unencrypted_ephemeral;
          chaining_key = b2s_hmac C (b2s_hmac C chaining_key unencrypted_ephemeral) [0x01];
          ephemeral_shared = dh C ephemeral_private (peer_static_public (params hs));
          temp = b2s_hmac C chaining_key ephemeral_shared;
          chaining_key = b2s_hmac C temp [0x01];
          key = b2s_hmac2 C temp chaining_key [0x02];
          encrypted_static = aead_chacha20_seal C key 0 (static_public (params hs)) h;
          h = b2s_hash C h encrypted_static;
          temp = b2s_hmac C chaining_key (static_shared (params hs));
          chaining_key = b2s_hmac C temp [0x01];
          key = b2s_hmac2 C temp chaining_key [0x02];
          timestamp = stamp (stamper hs) stamp_now;
          encrypted_timestamp = aead_chacha20_seal C key 0 timestamp h;
          h = b2s_hash C h encrypted_timestamp;
          hs = hs\<lparr>previous := state hs,
                 state := InitSent \<lparr>is_local_index = local_index, is_hash = h, is_chaining_key = chaining_key,
                   is_ephemeral_private = ephemeral_private, is_time_sent = time_now\<rparr>\<rparr>;
          (hs, dst) = append_mac1_and_mac2 C hs local_index
            (message_type @ sender_index @ unencrypted_ephemeral @ encrypted_static @ encrypted_timestamp)
      in (hs, Ok dst))"

definition format_handshake_response ::
    "crypto \<Rightarrow> handshake \<Rightarrow> bytes \<Rightarrow> nat \<Rightarrow> handshake \<times> (wireguard_error, bytes \<times> session) rust" where
  "format_handshake_response C hs ephemeral_private dst_len =
     (if dst_len < HANDSHAKE_RESP_SZ then (hs, Err DestinationBufferTooSmall) else
      let st = state hs; hs = hs\<lparr>state := NoHandshake\<rparr> in
      case st of
        InitReceived s \<Rightarrow>
          (let chaining_key = ir_chaining_key s;
               h = ir_hash s;
               peer_ephemeral_public = ir_peer_ephemeral_public s;
               peer_index = ir_peer_index s;
               (hs, local_index) = inc_index hs;
               message_type = le_bytes 4 HANDSHAKE_RESP;
               sender_index = le_bytes 4 local_index;
               receiver_index = le_bytes 4 peer_index;
               unencrypted_ephemeral = pubkey C ephemeral_private;
               h = b2s_hash C h unencrypted_ephemeral;
               temp = b2s_hmac C chaining_key unencrypted_ephemeral;
               chaining_key = b2s_hmac C temp [0x01];
               ephemeral_shared = dh C ephemeral_private peer_ephemeral_public;
               temp = b2s_hmac C chaining_key ephemeral_shared;
               chaining_key = b2s_hmac C temp [0x01];
               temp = b2s_hmac C chaining_key (dh C ephemeral_private (peer_static_public (params hs)));
               chaining_key = b2s_hmac C temp [0x01];
               temp = b2s_hmac C chaining_key
                 (case preshared_key (params hs) of Some k \<Rightarrow> k | None \<Rightarrow> replicate 32 0);
               chaining_key = b2s_hmac C temp [0x01];
               temp2 = b2s_hmac2 C temp chaining_key [0x02];
               key = b2s_hmac2 C temp temp2 [0x03];
               h = b2s_hash C h temp2;
               encrypted_nothing = aead_chacha20_seal C key 0 [] h;
               temp1 = b2s_hmac C chaining_key [];
               temp2 = b2s_hmac C temp1 [0x01];
               temp3 = b2s_hmac2 C temp1 temp2 [0x02];
               (hs, dst) = append_mac1_and_mac2 C hs local_index
                 (message_type @ sender_index @ receiver_index @ unencrypted_ephemeral @ encrypted_nothing)
           in (hs, Ok (dst, session_new local_index peer_index temp2 temp3)))
      | _ \<Rightarrow> (hs, Panic))"

definition receive_handshake_initialization ::
    "crypto \<Rightarrow> handshake \<Rightarrow> handshake_init \<Rightarrow> bytes \<Rightarrow> nat
     \<Rightarrow> handshake \<times> (wireguard_error, bytes \<times> session) rust" where
  "receive_handshake_initialization C hs packet ephemeral_private dst_len =
     (let chaining_key = INITIAL_CHAIN_KEY;
          h = INITIAL_CHAIN_HASH;
          h = b2s_hash C h (static_public (params hs));
          peer_index = hi_sender_idx packet;
          peer_ephemeral_public = hi_unencrypted_ephemeral packet;
          h = b2s_hash C h peer_ephemeral_public;
          chaining_key = b2s_hmac C (b2s_hmac C chaining_key peer_ephemeral_public) [0x01];
          ephemeral_shared = dh C (static_private (params hs)) peer_ephemeral_public;
          temp = b2s_hmac C chaining_key ephemeral_shared;
          chaining_key = b2s_hmac C temp [0x01];
          key = b2s_hmac2 C temp chaining_key [0x02]
      in case aead_chacha20_open C 32 key 0 (hi_encrypted_static packet) h of
        Err e \<Rightarrow> (hs, Err e)
      | Panic \<Rightarrow> (hs, Panic)
      | Ok peer_static_public_decrypted \<Rightarrow>
        if peer_static_public (params hs) \<noteq> peer_static_public_decrypted then (hs, Err WrongKey) else
        let h = b2s_hash C h (hi_encrypted_static packet);
            temp = b2s_hmac C chaining_key (static_shared (params hs));
            chaining_key = b2s_hmac C temp [0x01];
            key = b2s_hmac2 C temp chaining_key [0x02]
        in case rbind (aead_chacha20_open C 12 key 0 (hi_encrypted_timestamp packet) h) tai64n_parse of
          Err e \<Rightarrow> (hs, Err e)
        | Panic \<Rightarrow> (hs, Panic)
        | Ok timestamp \<Rightarrow>
          if \<not> after timestamp (last_handshake_timestamp hs) then (hs, Err WrongTai64nTimestamp) else
          let hs = hs\<lparr>last_handshake_timestamp := timestamp\<rparr>;
              h = b2s_hash C h (hi_encrypted_timestamp packet);
              hs = hs\<lparr>previous := state hs,
                     state := InitReceived \<lparr>ir_hash = h, ir_chaining_key = chaining_key,
                       ir_peer_ephemeral_public = peer_ephemeral_public, ir_peer_index = peer_index\<rparr>\<rparr>
          in format_handshake_response C hs ephemeral_private dst_len)"

definition receive_handshake_response ::
    "crypto \<Rightarrow> handshake \<Rightarrow> handshake_response \<Rightarrow> nat \<Rightarrow> handshake \<times> (wireguard_error, session) rust" where
  "receive_handshake_response C hs packet now =
     (case (case (state hs, previous hs) of
              (InitSent s, pr) \<Rightarrow>
                if is_local_index s = hr_receiver_idx packet then Some (s, False)
                else (case pr of
                        InitSent s' \<Rightarrow> if is_local_index s' = hr_receiver_idx packet then Some (s', True) else None
                      | _ \<Rightarrow> None)
            | (_, InitSent s') \<Rightarrow> if is_local_index s' = hr_receiver_idx packet then Some (s', True) else None
            | _ \<Rightarrow> None) of
        None \<Rightarrow> (hs, Err UnexpectedPacket)
      | Some (st, is_previous) \<Rightarrow>
        let peer_index = hr_sender_idx packet;
            local_index = is_local_index st;
            unencrypted_ephemeral = hr_unencrypted_ephemeral packet;
            h = b2s_hash C (is_hash st) unencrypted_ephemeral;
            temp = b2s_hmac C (is_chaining_key st) unencrypted_ephemeral;
            chaining_key = b2s_hmac C temp [0x01];
            ephemeral_shared = dh C (is_ephemeral_private st) unencrypted_ephemeral;
            temp = b2s_hmac C chaining_key ephemeral_shared;
            chaining_key = b2s_hmac C temp [0x01];
            temp = b2s_hmac C chaining_key (dh C (static_private (params hs)) unencrypted_ephemeral);
            chaining_key = b2s_hmac C temp [0x01];
            temp = b2s_hmac C chaining_key
              (case preshared_key (params hs) of Some k \<Rightarrow> k | None \<Rightarrow> replicate 32 0);
            chaining_key = b2s_hmac C temp [0x01];
            temp2 = b2s_hmac2 C temp chaining_key [0x02];
            key = b2s_hmac2 C temp temp2 [0x03];
            h = b2s_hash C h temp2
        in case aead_chacha20_open C 0 key 0 (hr_encrypted_nothing packet) h of
          Err e \<Rightarrow> (hs, Err e)
        | Panic \<Rightarrow> (hs, Panic)
        | Ok _ \<Rightarrow>
          let temp1 = b2s_hmac C chaining_key [];
              temp2 = b2s_hmac C temp1 [0x01];
              temp3 = b2s_hmac2 C temp1 temp2 [0x02];
              rtt_time = now - is_time_sent st;
              hs = hs\<lparr>last_rtt := Some (of_nat (rtt_time div 1000000))\<rparr>;
              hs = (if is_previous then hs\<lparr>previous := NoHandshake\<rparr> else hs\<lparr>state := NoHandshake\<rparr>)
          in (hs, Ok (session_new local_index peer_index temp3 temp2)))"

definition receive_cookie_reply ::
    "crypto \<Rightarrow> handshake \<Rightarrow> packet_cookie_reply \<Rightarrow> handshake \<times> (wireguard_error, unit) rust" where
  "receive_cookie_reply C hs packet =
     (case last_mac1 (hs_cookies hs) of
        None \<Rightarrow> (hs, Err UnexpectedPacket)
      | Some mac1 \<Rightarrow>
        let local_index = cookie_index (hs_cookies hs) in
        if cr_receiver_idx packet \<noteq> local_index then (hs, Err WrongIndex) else
        let key = b2s_hash C LABEL_COOKIE (peer_static_public (params hs)) in
        case xaead_open C key (cr_nonce packet) (take 16 mac1) (cr_encrypted_cookie packet) of
          None \<Rightarrow> (hs, Err InvalidAeadTag)
        | Some plaintext \<Rightarrow>
            if length plaintext \<noteq> 16 then (hs, Err InvalidPacket)
            else (hs\<lparr>hs_cookies := (hs_cookies hs)\<lparr>write_cookie := Some plaintext\<rparr>\<rparr>, Ok ()))"

subsection \<open>Well-formed and paired parameters\<close>

definition wf_params :: "crypto \<Rightarrow> noise_params \<Rightarrow> bool" where
  "wf_params C p \<longleftrightarrow> static_public p = pubkey C (static_private p)
     \<and> static_shared p = dh C (static_private p) (peer_static_public p)
     \<and> sending_mac1_key p = b2s_hash C LABEL_MAC1 (peer_static_public p)"

definition paired :: "crypto \<Rightarrow> handshake \<Rightarrow> handshake \<Rightarrow> bool" where
  "paired C i r \<longleftrightarrow> wf_params C (params i) \<and> wf_params C (params r)
     \<and> peer_static_public (params i) = static_public (params r)
     \<and> peer_static_public (params r) = static_public (params i)
     \<and> preshared_key (params i) = preshared_key (params r)"

subsection \<open>The key schedule\<close>

text \<open>The Noise transcript as functions of what both sides know: hash, chaining key and encryption key
  after the first Diffie-Hellman result, after the static one, and the final state and transport keys.\<close>

definition ik_first :: "crypto \<Rightarrow> bytes \<Rightarrow> bytes \<Rightarrow> bytes \<Rightarrow> bytes \<times> bytes \<times> bytes" where
  "ik_first C responder_public ephemeral shared =
     (let h = b2s_hash C (b2s_hash C INITIAL_CHAIN_HASH responder_public) ephemeral;
          temp = b2s_hmac C (b2s_hmac C (b2s_hmac C INITIAL_CHAIN_KEY ephemeral) [0x01]) shared;
          ck = b2s_hmac C temp [0x01]
      in (h, ck, b2s_hmac2 C temp ck [0x02]))"

definition ik_static :: "crypto \<Rightarrow> bytes \<Rightarrow> bytes \<Rightarrow> bytes \<times> bytes" where
  "ik_static C ck shared =
     (let temp = b2s_hmac C ck shared; ck = b2s_hmac C temp [0x01] in (ck, b2s_hmac2 C temp ck [0x02]))"

definition ik_response ::
    "crypto \<Rightarrow> bytes \<Rightarrow> bytes \<Rightarrow> bytes \<Rightarrow> bytes \<Rightarrow> bytes \<Rightarrow> bytes option \<Rightarrow> bytes \<times> bytes \<times> bytes" where
  "ik_response C h ck ephemeral ee se psk =
     (let mix = (\<lambda>ck x. b2s_hmac C (b2s_hmac C ck x) [0x01]);
          temp = b2s_hmac C (mix (mix (mix ck ephemeral) ee) se)
            (case psk of Some k \<Rightarrow> k | None \<Rightarrow> replicate 32 0);
          ck = b2s_hmac C temp [0x01];
          temp2 = b2s_hmac2 C temp ck [0x02]
      in (b2s_hash C (b2s_hash C h ephemeral) temp2, ck, b2s_hmac2 C temp temp2 [0x03]))"

definition ik_transport :: "crypto \<Rightarrow> bytes \<Rightarrow> bytes \<times> bytes" where
  "ik_transport C ck =
     (let temp1 = b2s_hmac C ck []; temp2 = b2s_hmac C temp1 [0x01] in (temp2, b2s_hmac2 C temp1 temp2 [0x02]))"

text \<open>The initiation message of a handshake and the state it leaves, and the response to given state.\<close>

definition init_packet :: "crypto \<Rightarrow> handshake \<Rightarrow> bytes \<Rightarrow> nat \<Rightarrow> handshake_init" where
  "init_packet C hs e t =
     (let P = params hs;
          (h, ck, key) = ik_first C (peer_static_public P) (pubkey C e) (dh C e (peer_static_public P));
          es = aead_chacha20_seal C key 0 (static_public P) h;
          (ck', key') = ik_static C ck (static_shared P)
      in \<lparr>hi_sender_idx = snd (inc_index hs), hi_unencrypted_ephemeral = pubkey C e, hi_encrypted_static = es,
          hi_encrypted_timestamp = aead_chacha20_seal C key' 0 (stamp (stamper hs) t) (b2s_hash C h es)\<rparr>)"

text \<open>Hash and chaining key after an initiation message, from the responder's public key, the shared
  secrets and the message.\<close>

definition init_transcript :: "crypto \<Rightarrow> bytes \<Rightarrow> bytes \<Rightarrow> bytes \<Rightarrow> handshake_init \<Rightarrow> bytes \<times> bytes" where
  "init_transcript C responder_public es ss p =
     (let (h, ck, key) = ik_first C responder_public (hi_unencrypted_ephemeral p) es
      in (b2s_hash C (b2s_hash C h (hi_encrypted_static p)) (hi_encrypted_timestamp p),
          fst (ik_static C ck ss)))"

definition resp_packet :: "crypto \<Rightarrow> handshake \<Rightarrow> bytes \<Rightarrow> init_received \<Rightarrow> handshake_response" where
  "resp_packet C hs e s =
     (let (h, ck, key) = ik_response C (ir_hash s) (ir_chaining_key s) (pubkey C e)
            (dh C e (ir_peer_ephemeral_public s)) (dh C e (peer_static_public (params hs)))
            (preshared_key (params hs))
      in \<lparr>hr_sender_idx = snd (inc_index hs), hr_receiver_idx = ir_peer_index s,
          hr_unencrypted_ephemeral = pubkey C e, hr_encrypted_nothing = aead_chacha20_seal C key 0 [] h\<rparr>)"

definition resp_keys :: "crypto \<Rightarrow> handshake \<Rightarrow> bytes \<Rightarrow> init_received \<Rightarrow> bytes \<times> bytes" where
  "resp_keys C hs e s =
     (let (h, ck, key) = ik_response C (ir_hash s) (ir_chaining_key s) (pubkey C e)
            (dh C e (ir_peer_ephemeral_public s)) (dh C e (peer_static_public (params hs)))
            (preshared_key (params hs))
      in ik_transport C ck)"

definition message_macs :: "crypto \<Rightarrow> handshake \<Rightarrow> bytes \<Rightarrow> bytes" where
  "message_macs C hs msg =
     (let mac1 = b2s_keyed_mac_16 C (sending_mac1_key (params hs)) msg in
      mac1 @ (case write_cookie (hs_cookies hs) of
        Some cookie \<Rightarrow> b2s_keyed_mac_16 C cookie (msg @ mac1) | None \<Rightarrow> replicate 16 0))"

definition macs_ok :: "crypto \<Rightarrow> bytes \<Rightarrow> bool" where
  "macs_ok C macs \<longleftrightarrow> (digest_lengths C \<longrightarrow> length macs = 32)"

definition received :: "crypto \<Rightarrow> bytes \<Rightarrow> bytes \<Rightarrow> bytes \<Rightarrow> handshake_init \<Rightarrow> init_received" where
  "received C responder_public es ss p =
     \<lparr>ir_hash = fst (init_transcript C responder_public es ss p),
      ir_chaining_key = snd (init_transcript C responder_public es ss p),
      ir_peer_ephemeral_public = hi_unencrypted_ephemeral p, ir_peer_index = hi_sender_idx p\<rparr>"

subsection \<open>Initiations as a machine\<close>

text \<open>One received initiation with the ephemeral secret drawn for the answer; the reply is the timestamp of
  an accepted initiation.\<close>

definition initiation_step ::
    "crypto \<Rightarrow> nat \<Rightarrow> handshake \<Rightarrow> handshake_init \<times> bytes \<Rightarrow> handshake \<times> tai64n option" where
  "initiation_step C n hs x =
     (case receive_handshake_initialization C hs (fst x) (snd x) n of
        (hs', Ok _) \<Rightarrow> (hs', Some (last_handshake_timestamp hs'))
      | (hs', _) \<Rightarrow> (hs', None))"

definition spent_timestamps :: "handshake \<Rightarrow> tai64n set" where
  "spent_timestamps hs = {t. \<not> after t (last_handshake_timestamp hs)}"

definition zero_init :: handshake_init where
  "zero_init = \<lparr>hi_sender_idx = 0, hi_unencrypted_ephemeral = replicate 32 0,
     hi_encrypted_static = replicate 48 0, hi_encrypted_timestamp = replicate 28 0\<rparr>"

definition sample_initiator :: handshake where
  "sample_initiator = handshake_new toy_crypto (replicate 32 1) (replicate 32 1) (replicate 32 2) 256 None 5000000000 0"

definition sample_responder :: handshake where
  "sample_responder = handshake_new toy_crypto (replicate 32 2) (replicate 32 2) (replicate 32 1) 512 None 5000000000 0"

section \<open>Indices and parameters\<close>

lemma inc_index_sel [simp]:
  "params (fst (inc_index hs)) = params hs" "state (fst (inc_index hs)) = state hs"
  "previous (fst (inc_index hs)) = previous hs" "hs_cookies (fst (inc_index hs)) = hs_cookies hs"
  "stamper (fst (inc_index hs)) = stamper hs"
  "last_handshake_timestamp (fst (inc_index hs)) = last_handshake_timestamp hs"
  "next_index (fst (inc_index hs)) = snd (inc_index hs)"
  by (simp_all add: inc_index_def Let_def)

lemma wf_params_new: "wf_params C (noise_params_new C sk (pubkey C sk) pk psk)"
  by (simp add: wf_params_def noise_params_new_def)

lemma wf_params_set:
  "wf_params C p \<Longrightarrow> noise_set_static_private C p sk pk = Ok p' \<Longrightarrow> wf_params C p'"
  by (auto simp: wf_params_def noise_set_static_private_def Let_def split: if_splits)

section \<open>The two messages\<close>

lemma append_macs_eq:
  "append_mac1_and_mac2 C hs idx dst =
     (hs\<lparr>hs_cookies := (hs_cookies hs)\<lparr>cookie_index := idx,
        last_mac1 := Some (b2s_keyed_mac_16 C (sending_mac1_key (params hs)) dst)\<rparr>\<rparr>,
      dst @ message_macs C hs dst)"
  by (simp add: append_mac1_and_mac2_def message_macs_def Let_def)

lemma message_macs_ok: "macs_ok C (message_macs C hs msg)"
  by (simp add: macs_ok_def message_macs_def Let_def b2s_keyed_mac_16_def digest_lengths_def split: option.split)

lemma message_macs_cong:
  "params hs = params hs' \<Longrightarrow> hs_cookies hs = hs_cookies hs' \<Longrightarrow> message_macs C hs msg = message_macs C hs' msg"
  by (simp add: message_macs_def)

lemma append_macs_sel [simp]:
  "params (fst (append_mac1_and_mac2 C hs idx dst)) = params hs"
  "state (fst (append_mac1_and_mac2 C hs idx dst)) = state hs"
  "previous (fst (append_mac1_and_mac2 C hs idx dst)) = previous hs"
  "last_handshake_timestamp (fst (append_mac1_and_mac2 C hs idx dst)) = last_handshake_timestamp hs"
  "next_index (fst (append_mac1_and_mac2 C hs idx dst)) = next_index hs"
  by (simp_all add: append_mac1_and_mac2_def Let_def)

lemmas ik_defs = ik_first_def ik_static_def ik_response_def ik_transport_def

lemma length_stamp [simp]: "length (stamp st t) = 12"
  by (simp add: stamp_def Let_def)

lemma length_seal: "aead_correct C \<Longrightarrow> length (aead_chacha20_seal C k c d a) = length d + 16"
  by (simp add: aead_chacha20_seal_def aead_correct_def)

lemma open_seal:
  "aead_correct C \<Longrightarrow> aead_chacha20_open C n k c (aead_chacha20_seal C k c d a) a = (if length d = n then Ok d else Panic)"
  by (simp add: aead_chacha20_seal_def aead_chacha20_open_def aead_correct_def)

lemma format_handshake_initiation_eq:
  assumes "148 \<le> n"
  shows "\<exists>hs' macs. format_handshake_initiation C hs e t0 t1 n =
       (hs', Ok (packet_wire (HandshakeInit (init_packet C hs e t0)) macs)) \<and> macs_ok C macs
    \<and> macs = message_macs C hs (packet_wire (HandshakeInit (init_packet C hs e t0)) [])
    \<and> hs_cookies hs' = (hs_cookies hs)\<lparr>cookie_index := snd (inc_index hs), 
        last_mac1 := Some (b2s_keyed_mac_16 C (sending_mac1_key (params hs))
          (packet_wire (HandshakeInit (init_packet C hs e t0)) []))\<rparr>
    \<and> params hs' = params hs \<and> previous hs' = state hs
    \<and> state hs' = InitSent
       \<lparr>is_local_index = snd (inc_index hs),
        is_hash = fst (init_transcript C (peer_static_public (params hs)) (dh C e (peer_static_public (params hs)))
          (static_shared (params hs)) (init_packet C hs e t0)),
        is_chaining_key = snd (init_transcript C (peer_static_public (params hs))
          (dh C e (peer_static_public (params hs))) (static_shared (params hs)) (init_packet C hs e t0)),
        is_ephemeral_private = e, is_time_sent = t1\<rparr>"
proof -
  define msg where "msg = le_bytes 4 HANDSHAKE_INIT @ le_bytes 4 (hi_sender_idx (init_packet C hs e t0))
    @ hi_unencrypted_ephemeral (init_packet C hs e t0) @ hi_encrypted_static (init_packet C hs e t0)
    @ hi_encrypted_timestamp (init_packet C hs e t0)"
  define hs1 where "hs1 = (fst (inc_index hs))\<lparr>previous := state hs, state := InitSent
       \<lparr>is_local_index = snd (inc_index hs),
        is_hash = fst (init_transcript C (peer_static_public (params hs)) (dh C e (peer_static_public (params hs)))
          (static_shared (params hs)) (init_packet C hs e t0)),
        is_chaining_key = snd (init_transcript C (peer_static_public (params hs))
          (dh C e (peer_static_public (params hs))) (static_shared (params hs)) (init_packet C hs e t0)),
        is_ephemeral_private = e, is_time_sent = t1\<rparr>\<rparr>"
  have "format_handshake_initiation C hs e t0 t1 n =
      (fst (append_mac1_and_mac2 C hs1 (snd (inc_index hs)) msg),
       Ok (snd (append_mac1_and_mac2 C hs1 (snd (inc_index hs)) msg)))"
    using assms by (simp add: format_handshake_initiation_def packet_sizes Let_def case_prod_beta
        hs1_def msg_def init_packet_def init_transcript_def ik_defs)
  moreover have "message_macs C hs1 msg = message_macs C hs msg"
    by (rule message_macs_cong) (simp_all add: hs1_def)
  ultimately show ?thesis
    using message_macs_ok [of C hs msg]
    by (simp add: append_macs_eq) (simp add: hs1_def msg_def)
qed

lemma format_handshake_response_eq:
  assumes "92 \<le> n" and "state hs = InitReceived s"
  shows "\<exists>hs' macs. format_handshake_response C hs e n =
       (hs', Ok (packet_wire (HandshakeResponse (resp_packet C hs e s)) macs,
         session_new (snd (inc_index hs)) (ir_peer_index s) (fst (resp_keys C hs e s)) (snd (resp_keys C hs e s))))
    \<and> macs_ok C macs \<and> params hs' = params hs \<and> previous hs' = previous hs \<and> state hs' = NoHandshake
    \<and> macs = message_macs C hs (packet_wire (HandshakeResponse (resp_packet C hs e s)) [])
    \<and> last_handshake_timestamp hs' = last_handshake_timestamp hs"
proof -
  have idx: "snd (inc_index (hs\<lparr>state := st\<rparr>)) = snd (inc_index hs)"
    "fst (inc_index (hs\<lparr>state := st\<rparr>)) = (fst (inc_index hs))\<lparr>state := st\<rparr>" for st
    by (simp_all add: inc_index_def Let_def)
  define msg where "msg = le_bytes 4 HANDSHAKE_RESP @ le_bytes 4 (hr_sender_idx (resp_packet C hs e s))
    @ le_bytes 4 (hr_receiver_idx (resp_packet C hs e s))
    @ hr_unencrypted_ephemeral (resp_packet C hs e s) @ hr_encrypted_nothing (resp_packet C hs e s)"
  define hs1 where "hs1 = (fst (inc_index hs))\<lparr>state := NoHandshake\<rparr>"
  have "format_handshake_response C hs e n =
      (fst (append_mac1_and_mac2 C hs1 (snd (inc_index hs)) msg),
       Ok (snd (append_mac1_and_mac2 C hs1 (snd (inc_index hs)) msg),
         session_new (snd (inc_index hs)) (ir_peer_index s) (fst (resp_keys C hs e s)) (snd (resp_keys C hs e s))))"
    using assms by (simp add: format_handshake_response_def packet_sizes Let_def case_prod_beta
        hs1_def msg_def resp_packet_def resp_keys_def ik_defs idx)
  moreover have "message_macs C hs1 msg = message_macs C hs msg"
    by (rule message_macs_cong) (simp_all add: hs1_def)
  ultimately show ?thesis
    using message_macs_ok [of C hs msg] by (simp add: append_macs_eq) (simp add: hs1_def msg_def)
qed

section \<open>Agreement\<close>

lemma paired_shared:
  assumes "dh_correct C" and "paired C i r"
  shows "static_shared (params r) = static_shared (params i)"
    and "dh C (static_private (params r)) (pubkey C e) = dh C e (peer_static_public (params i))"
    and "dh C (static_private (params i)) (pubkey C e) = dh C e (peer_static_public (params r))"
  using assms unfolding paired_def wf_params_def dh_correct_def by metis+

lemma length_static_public:
  "dh_correct C \<Longrightarrow> wf_params C p \<Longrightarrow> length (static_public p) = 32"
  by (simp add: dh_correct_def wf_params_def)

lemma receive_initialization_paired:
  assumes laws: "aead_correct C" "dh_correct C" and pair: "paired C i r"
    and ts: "tai64n_parse (stamp (stamper i) t0) = Ok ts" "after ts (last_handshake_timestamp r)"
  shows "receive_handshake_initialization C r (init_packet C i e t0) er n =
    format_handshake_response C (r\<lparr>last_handshake_timestamp := ts, previous := state r,
      state := InitReceived (received C (peer_static_public (params i)) (dh C e (peer_static_public (params i)))
        (static_shared (params i)) (init_packet C i e t0))\<rparr>) er n"
proof -
  have pub: "static_public (params r) = peer_static_public (params i)"
    "peer_static_public (params r) = static_public (params i)" "length (static_public (params i)) = 32"
    using pair laws by (simp_all add: paired_def length_static_public)
  show ?thesis
    by (simp add: receive_handshake_initialization_def init_packet_def received_def init_transcript_def ik_defs
        Let_def paired_shared [OF laws(2) pair] pub open_seal [OF laws(1)] ts)
qed

lemma receive_response_matching:
  assumes laws: "aead_correct C" and st: "state hs = InitSent s"
    and idx: "is_local_index s = ir_peer_index q"
    and tr: "ir_hash q = is_hash s" "ir_chaining_key q = is_chaining_key s"
    and ee: "dh C er (ir_peer_ephemeral_public q) = dh C (is_ephemeral_private s) (pubkey C er)"
    and se: "dh C er (peer_static_public (params r)) = dh C (static_private (params hs)) (pubkey C er)"
    and psk: "preshared_key (params r) = preshared_key (params hs)"
  shows "\<exists>hs'. receive_handshake_response C hs (resp_packet C r er q) now =
    (hs', Ok (session_new (is_local_index s) (snd (inc_index r)) (snd (resp_keys C r er q)) (fst (resp_keys C r er q))))
    \<and> params hs' = params hs \<and> state hs' = NoHandshake \<and> previous hs' = previous hs"
  by (simp add: receive_handshake_response_def resp_packet_def resp_keys_def ik_defs Let_def st idx tr ee se psk
      open_seal [OF laws])

lemma wf_init_packet:
  "aead_correct C \<Longrightarrow> dh_correct C \<Longrightarrow> digest_lengths C \<Longrightarrow> macs_ok C macs \<Longrightarrow> wf_params C (params hs) \<Longrightarrow>
   wf_packet (HandshakeInit (init_packet C hs e t)) macs"
  by (simp add: init_packet_def macs_ok_def length_seal length_static_public ik_defs Let_def dh_correct_def)

lemma wf_resp_packet:
  "aead_correct C \<Longrightarrow> dh_correct C \<Longrightarrow> digest_lengths C \<Longrightarrow> macs_ok C macs \<Longrightarrow>
   wf_packet (HandshakeResponse (resp_packet C hs e s)) macs"
  by (simp add: resp_packet_def macs_ok_def length_seal ik_defs Let_def dh_correct_def)

text \<open>One exchange over the wire, with the messages spelled out.\<close>

lemma handshake_exchange:
  assumes laws: "aead_correct C" "dh_correct C" "digest_lengths C" and pair: "paired C i r"
    and n: "148 \<le> n1" "92 \<le> n2"
    and ts: "tai64n_parse (stamp (stamper i) t0) = Ok ts" "after ts (last_handshake_timestamp r)"
  obtains i1 p1 macs1 r1 p2 macs2 i2 si sr where
    "format_handshake_initiation C i ei t0 t1 n1 = (i1, Ok (packet_wire (HandshakeInit p1) macs1))"
    "wf_packet (HandshakeInit p1) macs1" "macs1 = message_macs C i (packet_wire (HandshakeInit p1) [])"
    "params i1 = params i"
    "receive_handshake_initialization C r p1 er n2 = (r1, Ok (packet_wire (HandshakeResponse p2) macs2, sr))"
    "wf_packet (HandshakeResponse p2) macs2" "macs2 = message_macs C r (packet_wire (HandshakeResponse p2) [])"
    "receive_handshake_response C i1 p2 t2 = (i2, Ok si)"
    "sessions_match si sr" "sending_key_counter si = 0" "sending_key_counter sr = 0"
    "receiving_key_counter si = default_validator" "receiving_key_counter sr = default_validator"
    "state i2 = NoHandshake" "state r1 = NoHandshake" "last_handshake_timestamp r1 = ts"
proof -
  define p1 where "p1 = init_packet C i ei t0"
  define q where "q = received C (peer_static_public (params i)) (dh C ei (peer_static_public (params i)))
    (static_shared (params i)) p1"
  define r0 where "r0 = r\<lparr>last_handshake_timestamp := ts, previous := state r, state := InitReceived q\<rparr>"
  have wf: "wf_params C (params i)" using pair by (simp add: paired_def)
  from format_handshake_initiation_eq [OF n(1)] obtain i1 macs1 s where
    I: "format_handshake_initiation C i ei t0 t1 n1 = (i1, Ok (packet_wire (HandshakeInit p1) macs1))"
      "macs_ok C macs1" "params i1 = params i" "state i1 = InitSent s" "is_local_index s = ir_peer_index q"
      "ir_hash q = is_hash s" "ir_chaining_key q = is_chaining_key s" "is_ephemeral_private s = ei"
      "macs1 = message_macs C i (packet_wire (HandshakeInit p1) [])"
    unfolding p1_def q_def received_def by (fastforce simp: init_packet_def case_prod_beta Let_def)
  have R: "receive_handshake_initialization C r p1 er n2 = format_handshake_response C r0 er n2"
    unfolding p1_def r0_def q_def by (rule receive_initialization_paired [OF laws(1,2) pair ts])
  obtain r1 macs2 where
    R1: "format_handshake_response C r0 er n2 = (r1, Ok (packet_wire (HandshakeResponse (resp_packet C r0 er q)) macs2,
        session_new (snd (inc_index r0)) (ir_peer_index q) (fst (resp_keys C r0 er q)) (snd (resp_keys C r0 er q))))"
      "macs_ok C macs2" "state r1 = NoHandshake" "last_handshake_timestamp r1 = ts"
      "macs2 = message_macs C r0 (packet_wire (HandshakeResponse (resp_packet C r0 er q)) [])"
    using format_handshake_response_eq [OF n(2), of r0 q C er] by (auto simp: r0_def)
  have "dh C er (ir_peer_ephemeral_public q) = dh C ei (pubkey C er)"
    using laws(2) by (simp add: q_def received_def p1_def init_packet_def case_prod_beta Let_def dh_correct_def)
  moreover have "dh C er (peer_static_public (params r0)) = dh C (static_private (params i1)) (pubkey C er)"
    using paired_shared(3) [OF laws(2) pair, of er] by (simp add: r0_def I(3))
  moreover have "preshared_key (params r0) = preshared_key (params i1)"
    using pair by (simp add: paired_def r0_def I(3))
  ultimately obtain i2 where
    I2: "receive_handshake_response C i1 (resp_packet C r0 er q) t2 = (i2, Ok (session_new (is_local_index s)
        (snd (inc_index r0)) (snd (resp_keys C r0 er q)) (fst (resp_keys C r0 er q))))" "state i2 = NoHandshake"
    using receive_response_matching [OF laws(1) I(4,5,6,7), of er r0] I(8) by blast
  have macs: "message_macs C r0 msg = message_macs C r msg" for msg
    by (rule message_macs_cong) (simp_all add: r0_def)
  have wf1: "wf_packet (HandshakeInit p1) macs1" unfolding p1_def by (rule wf_init_packet [OF laws I(2) wf])
  show thesis
    by (rule that [OF I(1) wf1 I(9,3) R [unfolded R1(1)] wf_resp_packet [OF laws R1(2)] R1(5) [unfolded macs] I2(1)])
      (use I(5) R1(3,4) I2(2) in \<open>simp_all add: sessions_match_def\<close>)
qed

text \<open>C6. Handshake agreement: if two handshakes have each other's public keys, well-formed parameters and
  the same preshared key, and the initiator's timestamp is later than the last one the responder accepted,
  then in one round trip over the wire (initiation, its parsing and processing, response, its parsing and
  processing) both sides succeed, and the two sessions have crossing keys and indices. Afterwards neither
  side has a handshake in progress and the responder remembers the timestamp.\<close>

theorem handshake_agreement:
  assumes laws: "aead_correct C" "dh_correct C" "digest_lengths C" and pair: "paired C i r"
    and dst: "HANDSHAKE_INIT_SZ \<le> n1" "HANDSHAKE_RESP_SZ \<le> n2"
    and ts: "tai64n_parse (stamp (stamper i) t0) = Ok ts" "after ts (last_handshake_timestamp r)"
  shows "\<exists>i1 m1 p1 r1 m2 sr p2 i2 si.
    format_handshake_initiation C i ei t0 t1 n1 = (i1, Ok m1)
    \<and> parse_incoming_packet m1 = Ok (HandshakeInit p1)
    \<and> receive_handshake_initialization C r p1 er n2 = (r1, Ok (m2, sr))
    \<and> parse_incoming_packet m2 = Ok (HandshakeResponse p2)
    \<and> receive_handshake_response C i1 p2 t2 = (i2, Ok si)
    \<and> sessions_match si sr \<and> sending_key_counter si = 0 \<and> sending_key_counter sr = 0
    \<and> \<not> is_in_progress i2 \<and> \<not> is_in_progress r1 \<and> last_handshake_timestamp r1 = ts"
proof -
  have n: "148 \<le> n1" "92 \<le> n2" using dst by (simp_all add: packet_sizes)
  show ?thesis
    by (rule handshake_exchange [OF laws pair n ts, of ei t1 er t2])
      (auto simp: parse_packet_wire is_in_progress_def simp del: packet_wire.simps)
qed

lemma sample_paired: "paired toy_crypto sample_initiator sample_responder"
proof -
  have "pubkey toy_crypto (replicate 32 a) = replicate 32 a" for a
    by (simp add: toy_crypto_def fit_id)
  then show ?thesis
    by (simp add: paired_def wf_params_def sample_initiator_def sample_responder_def handshake_new_def
        noise_params_new_def Let_def)
qed

lemma parse_stamp:
  "tai64n_parse (stamp st t) =
     Ok \<lparr>secs = of_nat ((t - instant_at_start st + duration_at_start st) div 1000000000) + TAI64_BASE,
         nano = of_nat ((t - instant_at_start st + duration_at_start st) mod 1000000000)\<rparr>"
  by (simp add: tai64n_parse_def stamp_def Let_def byte_images wire)

theorem handshake_agreement_witness:
  "\<exists>i1 m1 p1 r1 m2 sr p2 i2 si.
    format_handshake_initiation toy_crypto sample_initiator (replicate 32 7) 3 4 148 = (i1, Ok m1)
    \<and> parse_incoming_packet m1 = Ok (HandshakeInit p1)
    \<and> receive_handshake_initialization toy_crypto sample_responder p1 (replicate 32 8) 92 = (r1, Ok (m2, sr))
    \<and> parse_incoming_packet m2 = Ok (HandshakeResponse p2)
    \<and> receive_handshake_response toy_crypto i1 p2 5 = (i2, Ok si) \<and> sessions_match si sr"
proof -
  define ts where "ts = \<lparr>secs = 5 + TAI64_BASE, nano = 3\<rparr>"
  have "tai64n_parse (stamp (stamper sample_initiator) 3) = Ok ts"
    by (simp add: parse_stamp ts_def sample_initiator_def handshake_new_def stamper_new_def)
  moreover have "after ts (last_handshake_timestamp sample_responder)"
    by (simp add: ts_def after_def sample_responder_def handshake_new_def tai64n_zero_def TAI64_BASE_def)
  ultimately show ?thesis
    using handshake_agreement [of toy_crypto sample_initiator sample_responder 148 92 3 ts
        "replicate 32 7" 4 "replicate 32 8" 5] sample_paired
    by (auto simp: packet_sizes)
qed

section \<open>Replay of initiations\<close>

lemma after_trans: "after t u \<Longrightarrow> after u v \<Longrightarrow> after t v"
  by (auto simp: after_def)

lemma after_irrefl: "\<not> after t t"
  by (simp add: after_def)

lemma format_response_timestamp:
  "last_handshake_timestamp (fst (format_handshake_response C hs e n)) = last_handshake_timestamp hs"
  by (simp add: format_handshake_response_def Let_def case_prod_beta inc_index_def split: handshake_state.split)

lemma receive_initialization_timestamp:
  "receive_handshake_initialization C hs p e n = (hs', res) \<Longrightarrow>
     last_handshake_timestamp hs' = last_handshake_timestamp hs \<and> (\<forall>x. res \<noteq> Ok x)
   \<or> after (last_handshake_timestamp hs') (last_handshake_timestamp hs)"
  unfolding receive_handshake_initialization_def Let_def
  using format_response_timestamp [of C _ e n]
  by (auto split: rust.splits if_splits dest!: arg_cong [where f = fst] simp flip: prod.collapse)

lemma initiation_step_cases:
  "snd (initiation_step C n hs x) = None
     \<and> last_handshake_timestamp (fst (initiation_step C n hs x)) = last_handshake_timestamp hs
   \<or> after (last_handshake_timestamp (fst (initiation_step C n hs x))) (last_handshake_timestamp hs)
     \<and> (snd (initiation_step C n hs x) = None
        \<or> snd (initiation_step C n hs x) = Some (last_handshake_timestamp (fst (initiation_step C n hs x))))"
proof -
  obtain hs' res where r: "receive_handshake_initialization C hs (fst x) (snd x) n = (hs', res)" by fastforce
  show ?thesis using receive_initialization_timestamp [OF r]
    by (cases res) (auto simp: initiation_step_def r)
qed

interpretation initiation_guard: replay_guard "initiation_step C n" "\<lambda>_. True" "\<lambda>_. True"
    "\<lambda>x r. r" spent_timestamps
  for C n
proof unfold_locales
  fix hs :: handshake and x :: "handshake_init \<times> bytes" and k
  note cases = initiation_step_cases [of C n hs x]
  show "spent_timestamps hs \<subseteq> spent_timestamps (fst (initiation_step C n hs x))"
    using cases by (auto simp: spent_timestamps_def dest: after_trans)
  assume "snd (initiation_step C n hs x) = Some k"
  then show "k \<notin> spent_timestamps hs" "k \<in> spent_timestamps (fst (initiation_step C n hs x))"
    using cases by (auto simp: spent_timestamps_def after_irrefl)
qed

text \<open>C10. Replay of initiations: whatever initiations a handshake receives in whatever order, the
  timestamps of the accepted ones strictly increase, so no initiation is accepted twice.\<close>

theorem initiation_timestamps_increase:
  "sorted_wrt (\<lambda>t u. after u t) (accepted (\<lambda>x r. r) xs (snd (run (initiation_step C n) hs xs)))"
proof (induction xs arbitrary: hs)
  case Nil
  then show ?case by simp
next
  case (Cons x xs)
  have "set (accepted (\<lambda>x r. r) xs (snd (run (initiation_step C n) (fst (initiation_step C n hs x)) xs)))
      \<inter> spent_timestamps (fst (initiation_step C n hs x)) = {}"
    by (rule initiation_guard.accepted_not_dead) (simp_all add: list.pred_True)
  then show ?case
    using Cons.IH [of "fst (initiation_step C n hs x)"] initiation_step_cases [of C n hs x]
    by (auto simp: run_Cons spent_timestamps_def split: option.split)
qed

section \<open>Session indices\<close>

lemma inc_index_word:
  "snd (inc_index hs) = (next_index hs AND NOT 0xff) OR ucast (ucast (next_index hs) + 1 :: u8)"
  by (simp add: inc_index_def Let_def)

lemma inc_index_peer_bits: "drop_bit 8 (snd (inc_index hs)) = drop_bit 8 (next_index hs)"
proof (rule bit_eqI)
  fix k
  assume "possible_bit TYPE(32 word) k"
  have ff: "(0xff :: u32) = mask 8" by (simp add: mask_eq_exp_minus_1)
  have "\<not> bit (ucast (next_index hs) + 1 :: u8) (8 + k)"
    using bit_imp_le_length [of "ucast (next_index hs) + 1 :: u8" "8 + k"] by auto
  then show "bit (drop_bit 8 (snd (inc_index hs))) k = bit (drop_bit 8 (next_index hs)) k"
    unfolding inc_index_word ff
    by (auto simp: bit_drop_bit_eq bit_or_iff bit_and_iff bit_not_iff bit_mask_iff bit_ucast_iff
        dest: bit_imp_le_length bit_imp_possible_bit)
qed

lemma inc_index_session_byte: "ucast (snd (inc_index hs)) = (ucast (next_index hs) + 1 :: u8)"
proof (rule bit_eqI)
  fix k
  assume "possible_bit TYPE(8 word) k"
  then have "k < 8" by simp
  have ff: "(0xff :: u32) = mask 8" by (simp add: mask_eq_exp_minus_1)
  show "bit (ucast (snd (inc_index hs)) :: u8) k = bit (ucast (next_index hs) + 1 :: u8) k"
    unfolding inc_index_word ff using \<open>k < 8\<close>
    by (simp add: bit_or_iff bit_and_iff bit_not_iff bit_mask_iff bit_ucast_iff)
qed

text \<open>Session indices: after any number of increments the upper 24 bits (the peer's index) are
  unchanged and the low byte has advanced by that number modulo 256, so the session indices a peer uses
  never collide with another peer's and repeat only after 256 handshakes.\<close>

theorem inc_index_cycle:
  "drop_bit 8 (next_index (((\<lambda>hs. fst (inc_index hs)) ^^ k) hs)) = drop_bit 8 (next_index hs)
   \<and> (ucast (next_index (((\<lambda>hs. fst (inc_index hs)) ^^ k) hs)) :: u8) = ucast (next_index hs) + of_nat k"
  by (induction k) (simp_all add: inc_index_peer_bits inc_index_session_byte add.commute add.left_commute)

section \<open>Errors\<close>

text \<open>A response is accepted only for a pending initiation: receiving a response changes the handshake
  only if its receiver index is the one of the current or the previous initiation and its AEAD tag
  verifies; on every error the handshake is unchanged.\<close>

theorem receive_response_error_unchanged:
  assumes "receive_handshake_response C hs p now = (hs', res)"
  shows "(\<exists>s. res = Ok s \<and> receiving_index s = hr_receiver_idx p \<and> sending_index s = hr_sender_idx p
            \<and> (\<exists>st. (state hs = InitSent st \<and> state hs' = NoHandshake \<and> previous hs' = previous hs
                      \<or> previous hs = InitSent st \<and> previous hs' = NoHandshake \<and> state hs' = state hs)
                   \<and> is_local_index st = hr_receiver_idx p))
       \<or> hs' = hs \<and> (\<exists>e. res = Err e \<or> res = Panic)"
  using assms unfolding receive_handshake_response_def Let_def
  by (auto split: handshake_state.splits if_splits rust.splits option.splits)

theorem receive_response_error_unchanged_witness:
  "fst (receive_handshake_response toy_crypto sample_responder
     \<lparr>hr_sender_idx = 1, hr_receiver_idx = 2, hr_unencrypted_ephemeral = [], hr_encrypted_nothing = []\<rparr> 3)
   = sample_responder"
  using receive_response_error_unchanged [of toy_crypto sample_responder
      "\<lparr>hr_sender_idx = 1, hr_receiver_idx = 2, hr_unencrypted_ephemeral = [], hr_encrypted_nothing = []\<rparr>" 3
      sample_responder "Err UnexpectedPacket"]
  by (simp add: receive_handshake_response_def sample_responder_def handshake_new_def)

lemma open_no_panic:
  assumes "aead_correct C" and "length d = n + 16"
  shows "aead_chacha20_open C n k c d a \<noteq> Panic"
proof (cases "aead_open C k (counter_nonce c) a d")
  case (Some p)
  then have "length d = length p + 16" using assms(1) unfolding aead_correct_def by blast
  then show ?thesis using Some assms(2) by (simp add: aead_chacha20_open_def)
qed (simp add: aead_chacha20_open_def)

lemma format_response_no_panic:
  "state hs = InitReceived s \<Longrightarrow> snd (format_handshake_response C hs e n) \<noteq> Panic"
  by (simp add: format_handshake_response_def Let_def case_prod_beta)

lemma receive_initialization_no_panic:
  assumes "aead_correct C" and "parse_incoming_packet d = Ok (HandshakeInit p)"
  shows "snd (receive_handshake_initialization C hs p e n) \<noteq> Panic"
proof -
  have parse: "tai64n_parse ts \<noteq> Panic" for ts by (simp add: tai64n_parse_def)
  have len: "length (hi_encrypted_static p) = 32 + 16" "length (hi_encrypted_timestamp p) = 12 + 16"
    using parse_init_canonical [OF assms(2)] by auto
  show ?thesis
    using open_no_panic [OF assms(1) len(1)] open_no_panic [OF assms(1) len(2)] format_response_no_panic parse
    by (auto simp: receive_handshake_initialization_def Let_def rbind_not_Panic
        split: rust.split dest: rbind_not_Panic)
qed

lemma receive_response_no_panic:
  assumes "aead_correct C" and "parse_incoming_packet d = Ok (HandshakeResponse q)"
  shows "snd (receive_handshake_response C hs q now) \<noteq> Panic"
proof -
  have "length (hr_encrypted_nothing q) = 0 + 16" using parse_response_canonical [OF assms(2)] by auto
  from open_no_panic [OF assms(1) this] show ?thesis
    by (auto simp: receive_handshake_response_def Let_def split: rust.split option.split)
qed

lemma receive_cookie_no_panic: "snd (receive_cookie_reply C hs c) \<noteq> Panic"
  by (simp add: receive_cookie_reply_def Let_def split: option.split)

lemma format_initiation_no_panic: "snd (format_handshake_initiation C hs e t0 t1 n) \<noteq> Panic"
  by (simp add: format_handshake_initiation_def Let_def case_prod_beta)

text \<open>No datagram makes the handshake panic: an initiation or a response that was parsed from the
  network is answered with a message, a session or an error, whatever its contents, the state of the
  handshake and the buffer length.\<close>

theorem handshake_no_panic:
  assumes "aead_correct C"
  shows "(parse_incoming_packet d = Ok (HandshakeInit p) \<longrightarrow> snd (receive_handshake_initialization C hs p e n) \<noteq> Panic)
    \<and> (parse_incoming_packet d = Ok (HandshakeResponse q) \<longrightarrow> snd (receive_handshake_response C hs q now) \<noteq> Panic)
    \<and> snd (receive_cookie_reply C hs c) \<noteq> Panic \<and> snd (format_handshake_initiation C hs e t0 t1 n) \<noteq> Panic"
  using receive_initialization_no_panic [OF assms] receive_response_no_panic [OF assms] receive_cookie_no_panic
    format_initiation_no_panic by blast

theorem handshake_no_panic_witness:
  "parse_incoming_packet (packet_wire (HandshakeInit zero_init) (replicate 32 0)) = Ok (HandshakeInit zero_init)
   \<and> snd (receive_handshake_initialization toy_crypto sample_responder zero_init (replicate 32 7) 92) \<noteq> Panic"
proof -
  have parse: "parse_incoming_packet (packet_wire (HandshakeInit zero_init) (replicate 32 0)) = Ok (HandshakeInit zero_init)"
    by (rule parse_packet_wire) (simp add: zero_init_def)
  then show ?thesis
    using handshake_no_panic [of toy_crypto "packet_wire (HandshakeInit zero_init) (replicate 32 0)" zero_init
        sample_responder "replicate 32 7" 92]
    by simp
qed

end
