(* ===== verification/Rate_Limiter.thy ===== *)
theory Rate_Limiter
  imports Handshake
begin

text \<open>
  \<^verbatim>\<open>RateLimiter\<close> of \<^verbatim>\<open>protocol/boringtun/src/noise/rate_limiter.rs\<close>: MAC verification of handshake
  messages, the load counter and the cookie replies of the denial-of-service protection, together with
  the result type \<^verbatim>\<open>TunnResult\<close> of \<^verbatim>\<open>noise/mod.rs\<close>. Random keys and clock readings (in nanoseconds) are
  arguments. \<^verbatim>\<open>verify_slices_are_equal\<close> is equality of byte strings.
\<close>

section \<open>Definitions\<close>

datatype tunn_result =
    Done
  | TErr wireguard_error
  | WriteToNetwork bytes
  | WriteToTunnelV4 bytes ipv4
  | WriteToTunnelV6 bytes ipv6

definition COOKIE_REFRESH :: u64 where "COOKIE_REFRESH = 128"
definition RESET_PERIOD :: nat where "RESET_PERIOD = 1"

record rate_limiter =
  nonce_key :: bytes
  secret_key :: bytes
  start_time :: nat
  nonce_ctr :: u64
  mac1_key :: bytes
  cookie_key :: bytes
  rl_limit :: u64
  rl_count :: u64
  last_reset :: nat

definition rate_limiter_new ::
    "crypto \<Rightarrow> bytes \<Rightarrow> u64 \<Rightarrow> bytes \<Rightarrow> bytes \<Rightarrow> nat \<Rightarrow> nat \<Rightarrow> rate_limiter" where
  "rate_limiter_new C public_key limit random_secret random_nonce_key now now' =
     \<lparr>nonce_key = random_nonce_key, secret_key = random_secret, start_time = now, nonce_ctr = 0,
      mac1_key = b2s_hash C LABEL_MAC1 public_key, cookie_key = b2s_hash C LABEL_COOKIE public_key,
      rl_limit = limit, rl_count = 0, last_reset = now'\<rparr>"

definition reset_count :: "rate_limiter \<Rightarrow> nat \<Rightarrow> rate_limiter" where
  "reset_count rl current_time =
     (if (current_time - last_reset rl) div 1000000000 \<ge> RESET_PERIOD
      then rl\<lparr>rl_count := 0, last_reset := current_time\<rparr> else rl)"

definition current_cookie :: "crypto \<Rightarrow> rate_limiter \<Rightarrow> ip_addr \<Rightarrow> nat \<Rightarrow> bytes" where
  "current_cookie C rl addr now =
     (let addr_bytes = (case addr of
            V4 a \<Rightarrow> octets a @ replicate 12 0
          | V6 a \<Rightarrow> be_bytes 16 a);
          cur_counter = of_nat ((now - start_time rl) div 1000000000) div COOKIE_REFRESH :: u64
      in b2s_keyed_mac_16_2 C (secret_key rl) (le_bytes 8 cur_counter) addr_bytes)"

definition cookie_nonce :: "crypto \<Rightarrow> rate_limiter \<Rightarrow> rate_limiter \<times> bytes" where
  "cookie_nonce C rl =
     (let ctr = nonce_ctr rl in
      (rl\<lparr>nonce_ctr := nonce_ctr rl + 1\<rparr>, b2s_mac_24 C (nonce_key rl) (le_bytes 8 ctr)))"

definition is_under_load :: "rate_limiter \<Rightarrow> rate_limiter \<times> bool" where
  "is_under_load rl = (rl\<lparr>rl_count := rl_count rl + 1\<rparr>, rl_count rl \<ge> rl_limit rl)"

definition format_cookie_reply ::
    "crypto \<Rightarrow> rate_limiter \<Rightarrow> u32 \<Rightarrow> bytes \<Rightarrow> bytes \<Rightarrow> nat \<Rightarrow> rate_limiter \<times> (wireguard_error, bytes) rust" where
  "format_cookie_reply C rl idx cookie mac1 dst_len =
     (if dst_len < COOKIE_REPLY_SZ then (rl, Err DestinationBufferTooSmall) else
      let message_type = le_bytes 4 COOKIE_REPLY;
          receiver_index = le_bytes 4 idx;
          (rl, nonce) = cookie_nonce C rl;
          encrypted_cookie = xaead_seal C (cookie_key rl) nonce mac1 cookie
      in (rl, Ok (take COOKIE_REPLY_SZ (message_type @ receiver_index @ nonce @ encrypted_cookie))))"

text \<open>\<open>Err\<close> carries a \<^typ>\<open>tunn_result\<close>, as in the source: an error or the cookie reply to send.\<close>

definition verify_packet ::
    "crypto \<Rightarrow> rate_limiter \<Rightarrow> ip_addr option \<Rightarrow> bytes \<Rightarrow> nat \<Rightarrow> nat
     \<Rightarrow> rate_limiter \<times> (tunn_result, packet) rust" where
  "verify_packet C rl src_addr src now dst_len =
     (case rmap_err TErr (parse_incoming_packet src) of
        Err e \<Rightarrow> (rl, Err e)
      | Panic \<Rightarrow> (rl, Panic)
      | Ok packet \<Rightarrow>
        (case (case packet of
                 HandshakeInit p \<Rightarrow> Some (hi_sender_idx p)
               | HandshakeResponse p \<Rightarrow> Some (hr_sender_idx p)
               | _ \<Rightarrow> None) of
           None \<Rightarrow> (rl, Ok packet)
         | Some sender_idx \<Rightarrow>
           let (msg, macs) = (take (length src - 32) src, drop (length src - 32) src);
               (mac1, mac2) = (take 16 macs, drop 16 macs);
               computed_mac1 = b2s_keyed_mac_16 C (mac1_key rl) msg
           in if take 16 computed_mac1 \<noteq> mac1 then (rl, Err (TErr InvalidMac)) else
           let (rl, under_load) = is_under_load rl in
           if \<not> under_load then (rl, Ok packet) else
           case src_addr of
             None \<Rightarrow> (rl, Err (TErr UnderLoad))
           | Some addr \<Rightarrow>
             let cookie = current_cookie C rl addr now;
                 computed_mac2 = b2s_keyed_mac_16_2 C cookie msg mac1
             in if take 16 computed_mac2 \<noteq> mac2
                then (case format_cookie_reply C rl sender_idx cookie mac1 dst_len of
                        (rl, Ok cookie_packet) \<Rightarrow> (rl, Err (WriteToNetwork cookie_packet))
                      | (rl, Err e) \<Rightarrow> (rl, Err (TErr e))
                      | (rl, Panic) \<Rightarrow> (rl, Panic))
                else (rl, Ok packet)))"

text \<open>The operations of a limiter as the steps of a machine, and what counts against its limit: a
  handshake message let through although its second MAC does not prove the current cookie.\<close>

datatype rl_op = Verify "ip_addr option" bytes nat | ResetCount nat

fun rl_step :: "crypto \<Rightarrow> rate_limiter \<Rightarrow> rl_op \<Rightarrow> rate_limiter \<times> packet option" where
  "rl_step C rl (Verify addr src now) =
     (case verify_packet C rl addr src now COOKIE_REPLY_SZ of
        (rl, Ok p) \<Rightarrow> (rl, Some p) | (rl, _) \<Rightarrow> (rl, None))"
| "rl_step C rl (ResetCount now) = (reset_count rl now, None)"

definition proves_cookie :: "crypto \<Rightarrow> rate_limiter \<Rightarrow> ip_addr option \<Rightarrow> bytes \<Rightarrow> nat \<Rightarrow> bool" where
  "proves_cookie C rl addr src now =
     (case addr of
        None \<Rightarrow> False
      | Some a \<Rightarrow> take 16 (b2s_keyed_mac_16_2 C (current_cookie C rl a now) (take (length src - 32) src)
                   (take 16 (drop (length src - 32) src))) = drop (length src - 16) src)"

fun is_handshake :: "packet \<Rightarrow> bool" where
  "is_handshake (HandshakeInit _) = True"
| "is_handshake (HandshakeResponse _) = True"
| "is_handshake _ = False"

fun unproven :: "crypto \<Rightarrow> rate_limiter \<Rightarrow> rl_op \<Rightarrow> packet option \<Rightarrow> nat" where
  "unproven C rl (Verify addr src now) (Some p) =
     (if is_handshake p \<and> \<not> proves_cookie C rl addr src now then 1 else 0)"
| "unproven C rl _ _ = 0"

text \<open>Two limiters with the same keys and limit.\<close>

definition same_limiter :: "rate_limiter \<Rightarrow> rate_limiter \<Rightarrow> bool" where
  "same_limiter a b \<longleftrightarrow> nonce_key a = nonce_key b \<and> secret_key a = secret_key b \<and> start_time a = start_time b
     \<and> mac1_key a = mac1_key b \<and> cookie_key a = cookie_key b \<and> rl_limit a = rl_limit b"

definition is_reset :: "rl_op \<Rightarrow> bool" where
  "is_reset x \<longleftrightarrow> (case x of ResetCount _ \<Rightarrow> True | _ \<Rightarrow> False)"

text \<open>The limiter that guards a responder, seen from an initiator.\<close>

definition guards :: "crypto \<Rightarrow> rate_limiter \<Rightarrow> handshake \<Rightarrow> bool" where
  "guards C rl hs \<longleftrightarrow> mac1_key rl = b2s_hash C LABEL_MAC1 (peer_static_public (params hs))
     \<and> cookie_key rl = b2s_hash C LABEL_COOKIE (peer_static_public (params hs))"

definition sample_limiter :: rate_limiter where
  "sample_limiter = rate_limiter_new toy_crypto (replicate 32 2) 0 (replicate 16 5) (replicate 32 6) 0 0"

section \<open>What verification does\<close>

lemma same_limiter_refl [simp]: "same_limiter a a"
  by (simp add: same_limiter_def)

lemma same_limiter_trans: "same_limiter a b \<Longrightarrow> same_limiter b c \<Longrightarrow> same_limiter a c"
  by (simp add: same_limiter_def)

lemma same_limiter_cookie: "same_limiter a b \<Longrightarrow> current_cookie C a addr now = current_cookie C b addr now"
  by (simp add: same_limiter_def current_cookie_def)

lemma same_limiter_unproven: "same_limiter a b \<Longrightarrow> unproven C a x r = unproven C b x r"
  by (cases "(C, b, x, r)" rule: unproven.cases)
    (auto simp: proves_cookie_def same_limiter_cookie split: option.split)

lemma handshake_length: "parse_incoming_packet src = Ok p \<Longrightarrow> is_handshake p \<Longrightarrow> 32 \<le> length src"
  using parse_incoming_packet_canonical [of src p] by (cases p) auto

lemma cookie_reply_effect:
  assumes "format_cookie_reply C rl idx cookie mac1 n = (rl', r)"
  shows "same_limiter rl' rl \<and> rl_count rl' = rl_count rl \<and> r \<noteq> Panic"
  using assms by (auto simp: format_cookie_reply_def cookie_nonce_def same_limiter_def Let_def split: if_splits)

lemma verify_packet_effect:
  assumes "verify_packet C rl addr src now n = (rl', r)"
  shows "same_limiter rl' rl \<and> (rl_count rl' = rl_count rl \<or> rl_count rl' = rl_count rl + 1)
    \<and> r \<noteq> Panic
    \<and> (\<forall>p. r = Ok p \<longrightarrow> parse_incoming_packet src = Ok p
         \<and> (is_handshake p \<longrightarrow> rl_count rl' = rl_count rl + 1
              \<and> (rl_count rl < rl_limit rl \<or> proves_cookie C rl addr src now)))"
proof (cases "parse_incoming_packet src")
  case (Ok p)
  have load: "is_under_load rl = (rl\<lparr>rl_count := rl_count rl + 1\<rparr>, rl_limit rl \<le> rl_count rl)"
    by (simp add: is_under_load_def)
  have cookie: "current_cookie C (rl\<lparr>rl_count := c\<rparr>) a now = current_cookie C rl a now" for c a
    by (simp add: current_cookie_def)
  have mac2: "16 + (length src - 32) = length src - 16" if "is_handshake p"
    using handshake_length [OF Ok that] by simp
  show ?thesis
  proof (cases "is_handshake p")
    case False
    then show ?thesis using assms Ok by (cases p) (auto simp: verify_packet_def)
  next
    case True
    then have src: "(case p of HandshakeInit p \<Rightarrow> Some (hi_sender_idx p)
        | HandshakeResponse p \<Rightarrow> Some (hr_sender_idx p) | _ \<Rightarrow> None) \<noteq> None"
      by (cases p) auto
    show ?thesis
      using assms src True
      by (auto simp: verify_packet_def Ok load cookie mac2 [OF True] Let_def proves_cookie_def
          same_limiter_def not_le dest: cookie_reply_effect
          split: option.splits if_splits prod.splits rust.splits)
  qed
qed (use assms parse_incoming_packet_total in \<open>auto simp: verify_packet_def\<close>)

lemma verify_packet_refusal:
  assumes "verify_packet C rl addr src now COOKIE_REPLY_SZ = (rl', Err x)"
  shows "(\<exists>e. x = TErr e) \<or> (\<exists>c. x = WriteToNetwork c \<and> length c \<le> 64)"
proof -
  have cookie: "length c \<le> 64" if "snd (format_cookie_reply C rl idx cookie mac1 n) = Ok c" for rl idx cookie mac1 n c
    using that by (auto simp: format_cookie_reply_def packet_sizes Let_def case_prod_beta split: if_splits)
  show ?thesis
    using assms by (cases "parse_incoming_packet src")
      (auto simp: verify_packet_def Let_def case_prod_beta dest!: cookie
        split: option.splits if_splits prod.splits rust.splits packet.splits)
qed

lemma verify_unmetered:
  "parse_incoming_packet src = Ok p \<Longrightarrow> \<not> is_handshake p \<Longrightarrow> verify_packet C rl addr src now n = (rl, Ok p)"
  by (cases p) (simp_all add: verify_packet_def)

lemma verify_below_limit:
  assumes "parse_incoming_packet (msg @ mac1 @ mac2) = Ok p" and "is_handshake p"
    and "length mac1 = 16" and "length mac2 = 16" and "take 16 (b2s_keyed_mac_16 C (mac1_key rl) msg) = mac1"
    and "rl_count rl < rl_limit rl"
  shows "verify_packet C rl addr (msg @ mac1 @ mac2) now n = (rl\<lparr>rl_count := rl_count rl + 1\<rparr>, Ok p)"
  using assms leD [of "rl_limit rl" "rl_count rl"]
  by (cases p) (auto simp: verify_packet_def is_under_load_def Let_def)

section \<open>The rate limit\<close>

lemma rl_step_effect:
  assumes "unat (rl_count rl) + 1 < 2 ^ 64"
  shows "same_limiter (fst (rl_step C rl x)) rl"
    and "unat (rl_count (fst (rl_step C rl x))) \<le> unat (rl_count rl) + 1"
    and "unproven C rl x (snd (rl_step C rl x)) + (unat (rl_limit rl) - unat (rl_count (fst (rl_step C rl x))))
       \<le> (unat (rl_limit rl) - unat (rl_count rl)) + (if is_reset x then unat (rl_limit rl) else 0)"
proof -
  have Suc: "unat (rl_count rl + 1) = unat (rl_count rl) + 1"
    using assms by (simp add: unat_word_ariths)
  have "same_limiter (fst (rl_step C rl x)) rl \<and> unat (rl_count (fst (rl_step C rl x))) \<le> unat (rl_count rl) + 1
    \<and> unproven C rl x (snd (rl_step C rl x)) + (unat (rl_limit rl) - unat (rl_count (fst (rl_step C rl x))))
       \<le> (unat (rl_limit rl) - unat (rl_count rl)) + (if is_reset x then unat (rl_limit rl) else 0)"
  proof (cases x)
    case (Verify addr src now)
    obtain rl' r where v: "verify_packet C rl addr src now COOKIE_REPLY_SZ = (rl', r)" by fastforce
    from verify_packet_effect [OF v] Suc show ?thesis
      by (cases r) (auto simp: Verify v is_reset_def word_less_nat_alt)
  next
    case (ResetCount now)
    then show ?thesis by (auto simp: reset_count_def same_limiter_def is_reset_def)
  qed
  then show "same_limiter (fst (rl_step C rl x)) rl"
    "unat (rl_count (fst (rl_step C rl x))) \<le> unat (rl_count rl) + 1"
    "unproven C rl x (snd (rl_step C rl x)) + (unat (rl_limit rl) - unat (rl_count (fst (rl_step C rl x))))
       \<le> (unat (rl_limit rl) - unat (rl_count rl)) + (if is_reset x then unat (rl_limit rl) else 0)"
    by blast+
qed



section \<open>Initiations and cookies\<close>

lemma packet_wire_init: "packet_wire (HandshakeInit p) macs = packet_wire (HandshakeInit p) [] @ macs"
  by simp

lemma verify_handshake_init:
  assumes "parse_incoming_packet (msg @ mac1 @ mac2) = Ok (HandshakeInit p)"
    and "length mac1 = 16" and "length mac2 = 16"
  shows "verify_packet C rl src_addr (msg @ mac1 @ mac2) now n =
    (if take 16 (b2s_keyed_mac_16 C (mac1_key rl) msg) \<noteq> mac1 then (rl, Err (TErr InvalidMac)) else
     let rl' = rl\<lparr>rl_count := rl_count rl + 1\<rparr> in
     if rl_count rl < rl_limit rl then (rl', Ok (HandshakeInit p))
     else case src_addr of
       None \<Rightarrow> (rl', Err (TErr UnderLoad))
     | Some addr \<Rightarrow>
         if take 16 (b2s_keyed_mac_16_2 C (current_cookie C rl addr now) msg mac1) = mac2
         then (rl', Ok (HandshakeInit p))
         else case format_cookie_reply C rl' (hi_sender_idx p) (current_cookie C rl addr now) mac1 n of
             (rl', Ok c) \<Rightarrow> (rl', Err (WriteToNetwork c))
           | (rl', Err e) \<Rightarrow> (rl', Err (TErr e))
           | (rl', Panic) \<Rightarrow> (rl', Panic))"
proof -
  have cookie: "current_cookie C (rl\<lparr>rl_count := c\<rparr>) a now = current_cookie C rl a now" for c a
    by (simp add: current_cookie_def)
  show ?thesis
    using assms by (simp add: verify_packet_def is_under_load_def cookie Let_def not_le split: option.split)
qed

text \<open>What a limiter sees of an initiation message: its two MAC fields.\<close>

lemma initiation_fields:
  assumes laws: "aead_correct C" "dh_correct C" "digest_lengths C" and wf: "wf_params C (params hs)"
    and n: "148 \<le> n"
  obtains hs' msg mac1 mac2 where
    "format_handshake_initiation C hs e t0 t1 n = (hs', Ok (msg @ mac1 @ mac2))"
    "parse_incoming_packet (msg @ mac1 @ mac2) = Ok (HandshakeInit (init_packet C hs e t0))"
    "length mac1 = 16" "length mac2 = 16" "mac1 = mac16 C (sending_mac1_key (params hs)) msg"
    "mac2 = (case write_cookie (hs_cookies hs) of Some cookie \<Rightarrow> mac16 C cookie (msg @ mac1) | None \<Rightarrow> replicate 16 0)"
    "hs_cookies hs' = (hs_cookies hs)\<lparr>cookie_index := hi_sender_idx (init_packet C hs e t0), last_mac1 := Some mac1\<rparr>"
    "params hs' = params hs"
proof -
  define msg where "msg = packet_wire (HandshakeInit (init_packet C hs e t0)) []"
  define mac1 where "mac1 = mac16 C (sending_mac1_key (params hs)) msg"
  define mac2 where "mac2 = (case write_cookie (hs_cookies hs) of
      Some cookie \<Rightarrow> mac16 C cookie (msg @ mac1) | None \<Rightarrow> replicate 16 0)"
  have macs: "message_macs C hs msg = mac1 @ mac2"
    by (simp add: message_macs_def mac1_def mac2_def b2s_keyed_mac_16_def Let_def split: option.split)
  have idx: "hi_sender_idx (init_packet C hs e t0) = snd (inc_index hs)"
    by (simp add: init_packet_def case_prod_beta Let_def)
  obtain hs' where
    hs': "format_handshake_initiation C hs e t0 t1 n =
        (hs', Ok (packet_wire (HandshakeInit (init_packet C hs e t0)) (mac1 @ mac2)))"
      "hs_cookies hs' = (hs_cookies hs)\<lparr>cookie_index := snd (inc_index hs), last_mac1 := Some mac1\<rparr>"
      "params hs' = params hs"
    using format_handshake_initiation_eq [OF n, of C hs e t0 t1]
    unfolding msg_def [symmetric] macs b2s_keyed_mac_16_def mac1_def [symmetric] by blast
  have wire: "packet_wire (HandshakeInit (init_packet C hs e t0)) (mac1 @ mac2) = msg @ mac1 @ mac2"
    unfolding msg_def by (rule packet_wire_init)
  have "macs_ok C (mac1 @ mac2)" using message_macs_ok [of C hs msg] by (simp add: macs)
  then have "parse_incoming_packet (msg @ mac1 @ mac2) = Ok (HandshakeInit (init_packet C hs e t0))"
    unfolding wire [symmetric] by (intro parse_packet_wire wf_init_packet [OF laws _ wf])
  moreover have "length mac1 = 16" "length mac2 = 16"
    using laws(3) by (auto simp: mac1_def mac2_def digest_lengths_def split: option.split)
  ultimately show thesis using that hs' mac1_def mac2_def unfolding wire idx [symmetric] by blast
qed

lemma cookie_reply_roundtrip:
  assumes laws: "xaead_correct C" "digest_lengths C"
    and reply: "format_cookie_reply C rl idx cookie mac1 n = (rl', Ok c)" and cookie: "length cookie = 16"
  obtains p where "parse_incoming_packet c = Ok (PacketCookieReply p)" "cr_receiver_idx p = idx"
    "xaead_open C (cookie_key rl) (cr_nonce p) mac1 (cr_encrypted_cookie p) = Some cookie"
proof -
  define nonce where "nonce = mac24 C (nonce_key rl) (le_bytes 8 (nonce_ctr rl))"
  define p where "p = \<lparr>cr_receiver_idx = idx, cr_nonce = nonce,
    cr_encrypted_cookie = xaead_seal C (cookie_key rl) nonce mac1 cookie\<rparr>"
  have len: "length nonce = 24" "length (cr_encrypted_cookie p) = 32"
    using laws cookie by (simp_all add: nonce_def p_def digest_lengths_def xaead_correct_def)
  then have "c = packet_wire (PacketCookieReply p) []"
    using reply by (auto simp: format_cookie_reply_def cookie_nonce_def b2s_mac_24_def packet_sizes
        nonce_def p_def split: if_splits)
  then have "parse_incoming_packet c = Ok (PacketCookieReply p)"
    using len parse_packet_wire [of "PacketCookieReply p" "[]"] by (simp add: p_def)
  then show thesis using that laws(1) by (simp add: p_def xaead_correct_def)
qed

lemma length_current_cookie: "digest_lengths C \<Longrightarrow> length (current_cookie C rl addr now) = 16"
  by (simp add: current_cookie_def b2s_keyed_mac_16_2_def digest_lengths_def Let_def)

lemma verify_with_cookie:
  assumes laws: "aead_correct C" "dh_correct C" "digest_lengths C" and wf: "wf_params C (params hs)"
    and n: "148 \<le> n" and guards: "guards C rl hs"
    and cookie: "rl_count rl < rl_limit rl \<or> write_cookie (hs_cookies hs) = Some (current_cookie C rl addr now)"
  shows "\<exists>hs' m. format_handshake_initiation C hs e t0 t1 n = (hs', Ok m)
    \<and> snd (verify_packet C rl (Some addr) m now n') = Ok (HandshakeInit (init_packet C hs e t0))"
proof -
  obtain hs' msg mac1 mac2 where
    m: "format_handshake_initiation C hs e t0 t1 n = (hs', Ok (msg @ mac1 @ mac2))"
      "parse_incoming_packet (msg @ mac1 @ mac2) = Ok (HandshakeInit (init_packet C hs e t0))"
      "length mac1 = 16" "length mac2 = 16" "mac1 = mac16 C (sending_mac1_key (params hs)) msg"
      "mac2 = (case write_cookie (hs_cookies hs) of Some cookie \<Rightarrow> mac16 C cookie (msg @ mac1) | None \<Rightarrow> replicate 16 0)"
    by (rule initiation_fields [OF laws wf n])
  have "mac1_key rl = sending_mac1_key (params hs)" using guards wf by (simp add: guards_def wf_params_def)
  then have "take 16 (b2s_keyed_mac_16 C (mac1_key rl) msg) = mac1" using m(3,5) by (simp add: b2s_keyed_mac_16_def)
  moreover have "rl_count rl < rl_limit rl
      \<or> take 16 (b2s_keyed_mac_16_2 C (current_cookie C rl addr now) msg mac1) = mac2"
    using cookie m(4,6) by (auto simp: b2s_keyed_mac_16_2_def)
  ultimately have "snd (verify_packet C rl (Some addr) (msg @ mac1 @ mac2) now n') = Ok (HandshakeInit (init_packet C hs e t0))"
    unfolding verify_handshake_init [OF m(2,3,4)] by (auto simp: Let_def)
  then show ?thesis using m(1) by blast
qed

text \<open>C11. The cookie exchange: if an initiation from an address is answered with a cookie reply, then the
  initiator accepts that reply, and its next initiation passes the limiter from the same address whatever
  the load, as long as the cookie of that address has not changed.\<close>

theorem cookie_exchange:
  assumes laws: "aead_correct C" "xaead_correct C" "dh_correct C" "digest_lengths C"
    and wf: "wf_params C (params i)" and guards: "guards C rl i" and n: "HANDSHAKE_INIT_SZ \<le> n"
    and init: "format_handshake_initiation C i e t0 t1 n = (i1, Ok m)"
    and reply: "verify_packet C rl (Some addr) m now n' = (rl1, Err (WriteToNetwork c))"
    and later: "same_limiter rl2 rl1" "current_cookie C rl2 addr now' = current_cookie C rl addr now"
  shows "\<exists>p i2 i3 m2 q. parse_incoming_packet c = Ok (PacketCookieReply p)
    \<and> receive_cookie_reply C i1 p = (i2, Ok ())
    \<and> format_handshake_initiation C i2 e' t2 t3 n = (i3, Ok m2)
    \<and> snd (verify_packet C rl2 (Some addr) m2 now' n') = Ok (HandshakeInit q)"
proof -
  define cookie where "cookie = current_cookie C rl addr now"
  have n': "148 \<le> n" using n by (simp add: packet_sizes)
  obtain msg mac1 mac2 where
    m: "m = msg @ mac1 @ mac2" "parse_incoming_packet (msg @ mac1 @ mac2) = Ok (HandshakeInit (init_packet C i e t0))"
      "length mac1 = 16" "length mac2 = 16"
      "hs_cookies i1 = (hs_cookies i)\<lparr>cookie_index := hi_sender_idx (init_packet C i e t0), last_mac1 := Some mac1\<rparr>"
      "params i1 = params i"
    using initiation_fields [OF laws(1,3,4) wf n', of e t0 t1] init by (metis Pair_inject rust.inject(1))
  obtain rl' where "format_cookie_reply C (rl\<lparr>rl_count := rl_count rl + 1\<rparr>)
      (hi_sender_idx (init_packet C i e t0)) cookie mac1 n' = (rl', Ok c)"
    using reply unfolding m(1) verify_handshake_init [OF m(2-4)] cookie_def
    by (auto simp: Let_def split: if_splits prod.splits rust.splits)
  moreover have "length cookie = 16" unfolding cookie_def by (rule length_current_cookie [OF laws(4)])
  ultimately obtain p where
    p: "parse_incoming_packet c = Ok (PacketCookieReply p)" "cr_receiver_idx p = hi_sender_idx (init_packet C i e t0)"
      "xaead_open C (cookie_key rl) (cr_nonce p) mac1 (cr_encrypted_cookie p) = Some cookie"
    by (rule cookie_reply_roundtrip [OF laws(2,4)]) simp
  define i2 where "i2 = i1\<lparr>hs_cookies := (hs_cookies i1)\<lparr>write_cookie := Some cookie\<rparr>\<rparr>"
  have "receive_cookie_reply C i1 p = (i2, Ok ())"
    using p guards m(3) length_current_cookie [OF laws(4)]
    by (simp add: receive_cookie_reply_def m(5,6) guards_def i2_def cookie_def)
  moreover have "guards C rl2 i2"
    using guards later(1) verify_packet_effect [OF reply] by (simp add: guards_def same_limiter_def i2_def m(6))
  ultimately show ?thesis
    using verify_with_cookie [OF laws(1,3,4) _ n', of i2 rl2 addr now' e' t2 t3 n'] wf later(2) p(1)
    by (auto simp: i2_def m(6) cookie_def)
qed

text \<open>With the sample instance a first initiation is answered with a cookie.\<close>

lemma sample_cookie_reply:
  "\<exists>i1 m rl1 c. format_handshake_initiation toy_crypto sample_initiator (replicate 32 7) 3 4 148 = (i1, Ok m)
     \<and> verify_packet toy_crypto sample_limiter (Some (V4 1)) m 9 64 = (rl1, Err (WriteToNetwork c))"
proof -
  have wf: "wf_params toy_crypto (params sample_initiator)"
    using sample_paired by (simp add: paired_def)
  have none: "write_cookie (hs_cookies sample_initiator) = None"
    by (simp add: sample_initiator_def handshake_new_def)
  obtain i1 msg mac1 mac2 where
    m: "format_handshake_initiation toy_crypto sample_initiator (replicate 32 7) 3 4 148 = (i1, Ok (msg @ mac1 @ mac2))"
      "parse_incoming_packet (msg @ mac1 @ mac2) = Ok (HandshakeInit (init_packet toy_crypto sample_initiator (replicate 32 7) 3))"
      "length mac1 = 16" "length mac2 = 16"
      "mac1 = mac16 toy_crypto (sending_mac1_key (params sample_initiator)) msg"
      "mac2 = (case write_cookie (hs_cookies sample_initiator) of
         Some cookie \<Rightarrow> mac16 toy_crypto cookie (msg @ mac1) | None \<Rightarrow> replicate 16 0)"
    by (rule initiation_fields [OF toy_crypto_laws(1,3,4) wf order_refl [of 148]])
  have "mac1_key sample_limiter = sending_mac1_key (params sample_initiator)"
    by (simp add: sample_limiter_def rate_limiter_new_def sample_initiator_def handshake_new_def
        noise_params_new_def Let_def)
  then have "take 16 (b2s_keyed_mac_16 toy_crypto (mac1_key sample_limiter) msg) = mac1"
    using m(3,5) by (simp add: b2s_keyed_mac_16_def)
  moreover have "take 16 (b2s_keyed_mac_16_2 toy_crypto k msg mac1) \<noteq> mac2" for k
    by (simp add: m(6) none b2s_keyed_mac_16_2_def toy_crypto_def numeral_eq_Suc)
  moreover have "\<not> rl_count sample_limiter < rl_limit sample_limiter"
    by (simp add: sample_limiter_def rate_limiter_new_def)
  ultimately show ?thesis
    unfolding m(1) using verify_handshake_init [OF m(2,3,4), of toy_crypto sample_limiter "Some (V4 1)" 9 64]
    by (auto simp: format_cookie_reply_def cookie_nonce_def packet_sizes Let_def)
qed

theorem cookie_exchange_witness:
  "\<exists>i1 m rl1 c p i2 i3 m2 q.
     format_handshake_initiation toy_crypto sample_initiator (replicate 32 7) 3 4 148 = (i1, Ok m)
     \<and> verify_packet toy_crypto sample_limiter (Some (V4 1)) m 9 64 = (rl1, Err (WriteToNetwork c))
     \<and> parse_incoming_packet c = Ok (PacketCookieReply p)
     \<and> receive_cookie_reply toy_crypto i1 p = (i2, Ok ())
     \<and> format_handshake_initiation toy_crypto i2 (replicate 32 8) 5 6 148 = (i3, Ok m2)
     \<and> snd (verify_packet toy_crypto rl1 (Some (V4 1)) m2 9 64) = Ok (HandshakeInit q)"
proof -
  obtain i1 m rl1 c where
    m: "format_handshake_initiation toy_crypto sample_initiator (replicate 32 7) 3 4 148 = (i1, Ok m)"
      "verify_packet toy_crypto sample_limiter (Some (V4 1)) m 9 64 = (rl1, Err (WriteToNetwork c))"
    using sample_cookie_reply by blast
  have wf: "wf_params toy_crypto (params sample_initiator)"
    using sample_paired by (simp add: paired_def)
  have "guards toy_crypto sample_limiter sample_initiator"
    by (simp add: guards_def sample_limiter_def rate_limiter_new_def sample_initiator_def handshake_new_def
        noise_params_new_def Let_def)
  moreover have "current_cookie toy_crypto rl1 (V4 1) 9 = current_cookie toy_crypto sample_limiter (V4 1) 9"
    using verify_packet_effect [OF m(2)] by (simp add: same_limiter_cookie)
  ultimately show ?thesis
    using cookie_exchange [OF toy_crypto_laws wf _ _ m same_limiter_refl] m by (fastforce simp: packet_sizes)
qed

end
