(* ===== verification/Tunnel.thy ===== *)
theory Tunnel
  imports Rate_Limiter
begin

text \<open>
  \<^verbatim>\<open>Tunn\<close> of \<^verbatim>\<open>protocol/boringtun/src/noise/mod.rs\<close> and its timers in \<^verbatim>\<open>noise/timers.rs\<close>: one WireGuard
  tunnel with its handshake, its ring of eight sessions, its queue of blocked packets and its timers.

  The rate limiter is shared between tunnels (an \<^verbatim>\<open>Arc\<close>), so it is an argument and a result of the
  operations that use it and not a field. Randomness is an argument. An operation that reads the clock
  several times takes \<open>clk\<close>, where \<open>clk k\<close> is the \<open>k\<close>-th reading in nanoseconds. Durations are numbers of
  nanoseconds; subtracting a larger duration panics. A destination buffer is its length. An outcome is
  \<open>Ok\<close> of a \<^typ>\<open>tunn_result\<close>, an error that the caller turns into a \<^typ>\<open>tunn_result\<close>, or \<open>Panic\<close>; \<open>None\<close>
  stands for divergence in the replay window.
\<close>

section \<open>Definitions\<close>

definition PEER_HANDSHAKE_RATE_LIMIT :: u64 where "PEER_HANDSHAKE_RATE_LIMIT = 10"
definition MAX_QUEUE_DEPTH :: nat where "MAX_QUEUE_DEPTH = 256"
definition N_SESSIONS :: nat where "N_SESSIONS = 8"

subsection \<open>Timers\<close>

definition from_secs :: "nat \<Rightarrow> nat" where
  "from_secs s = s * 1000000000"

definition REKEY_AFTER_TIME :: nat where "REKEY_AFTER_TIME = from_secs 120"
definition REJECT_AFTER_TIME :: nat where "REJECT_AFTER_TIME = from_secs 180"
definition REKEY_ATTEMPT_TIME :: nat where "REKEY_ATTEMPT_TIME = from_secs 90"
definition REKEY_TIMEOUT :: nat where "REKEY_TIMEOUT = from_secs 5"
definition KEEPALIVE_TIMEOUT :: nat where "KEEPALIVE_TIMEOUT = from_secs 10"
definition COOKIE_EXPIRATION_TIME :: nat where "COOKIE_EXPIRATION_TIME = from_secs 120"

datatype timer_name =
    TimeCurrent | TimeSessionEstablished | TimeLastHandshakeStarted | TimeLastPacketReceived
  | TimeLastPacketSent | TimeLastDataPacketReceived | TimeLastDataPacketSent | TimeCookieReceived
  | TimePersistentKeepalive

text \<open>The array of durations indexed by timer name is a function.\<close>

record timers =
  tm_is_initiator :: bool
  time_started :: nat
  tm :: "timer_name \<Rightarrow> nat"
  session_timers :: "nat list"
  want_keepalive :: bool
  want_handshake :: bool
  tm_persistent_keepalive :: nat
  should_reset_rr :: bool

definition timers_new :: "u16 option \<Rightarrow> bool \<Rightarrow> nat \<Rightarrow> timers" where
  "timers_new keepalive reset_rr now =
     \<lparr>tm_is_initiator = False, time_started = now, tm = (\<lambda>_. 0), session_timers = replicate 8 0,
      want_keepalive = False, want_handshake = False,
      tm_persistent_keepalive = unat (case keepalive of Some k \<Rightarrow> k | None \<Rightarrow> 0),
      should_reset_rr = reset_rr\<rparr>"

definition timers_clear :: "timers \<Rightarrow> nat \<Rightarrow> timers" where
  "timers_clear T reading =
     (let now = reading - time_started T in
      T\<lparr>tm := (\<lambda>_. now), want_handshake := False, want_keepalive := False\<rparr>)"

subsection \<open>State\<close>

record tunn =
  tn_handshake :: handshake
  sessions :: "session option list"
  current :: nat
  packet_queue :: "bytes list"
  tn_timers :: timers
  tx_bytes :: u64
  rx_bytes :: u64

definition tunn_new ::
    "crypto \<Rightarrow> bytes \<Rightarrow> bytes \<Rightarrow> bytes option \<Rightarrow> u16 option \<Rightarrow> u32 \<Rightarrow> rate_limiter option
     \<Rightarrow> bytes \<Rightarrow> bytes \<Rightarrow> nat \<Rightarrow> (nat \<Rightarrow> nat) \<Rightarrow> tunn \<times> rate_limiter" where
  "tunn_new C own_private peer_public psk keepalive idx rl_opt random_secret random_nonce_key system_time clk =
     (let own_public = pubkey C own_private in
      (\<lparr>tn_handshake = handshake_new C own_private own_public peer_public (push_bit 8 idx) psk system_time (clk 0),
        sessions = replicate N_SESSIONS None, current = 0, packet_queue = [],
        tn_timers = timers_new keepalive (rl_opt = None) (clk 1), tx_bytes = 0, rx_bytes = 0\<rparr>,
       case rl_opt of
         Some rl \<Rightarrow> rl
       | None \<Rightarrow> rate_limiter_new C own_public PEER_HANDSHAKE_RATE_LIMIT random_secret random_nonce_key
                   (clk 2) (clk 3)))"

definition tunn_is_expired :: "tunn \<Rightarrow> bool" where
  "tunn_is_expired t = handshake_is_expired (tn_handshake t)"

definition tunn_set_static_private ::
    "crypto \<Rightarrow> tunn \<Rightarrow> bytes \<Rightarrow> bytes \<Rightarrow> rate_limiter option \<Rightarrow> bytes \<Rightarrow> bytes \<Rightarrow> (nat \<Rightarrow> nat)
     \<Rightarrow> (wireguard_error, tunn \<times> rate_limiter) rust" where
  "tunn_set_static_private C t new_private new_public rl_opt random_secret random_nonce_key clk =
     (let t = t\<lparr>tn_timers := (tn_timers t)\<lparr>should_reset_rr := (rl_opt = None)\<rparr>\<rparr>;
          rl = (case rl_opt of
             Some rl \<Rightarrow> rl
           | None \<Rightarrow> rate_limiter_new C new_public PEER_HANDSHAKE_RATE_LIMIT random_secret random_nonce_key
                       (clk 0) (clk 1))
      in rbind (handshake_set_static_private C (tn_handshake t) new_private new_public) (\<lambda>hs.
         Ok (t\<lparr>tn_handshake := hs, sessions := map (\<lambda>_. None) (sessions t)\<rparr>, rl)))"

subsection \<open>Timer ticks\<close>

definition timer_tick :: "tunn \<Rightarrow> timer_name \<Rightarrow> tunn" where
  "timer_tick t timer_name =
     (let T = tn_timers t;
          T = (case timer_name of
             TimeLastPacketReceived \<Rightarrow> T\<lparr>want_keepalive := True, want_handshake := False\<rparr>
           | TimeLastPacketSent \<Rightarrow> T\<lparr>want_handshake := True, want_keepalive := False\<rparr>
           | _ \<Rightarrow> T);
          time = tm T TimeCurrent
      in t\<lparr>tn_timers := T\<lparr>tm := (tm T)(timer_name := time)\<rparr>\<rparr>)"

definition timer_tick_session_established :: "tunn \<Rightarrow> bool \<Rightarrow> nat \<Rightarrow> tunn" where
  "timer_tick_session_established t is_initiator session_idx =
     (let t = timer_tick t TimeSessionEstablished;
          T = tn_timers t
      in t\<lparr>tn_timers := T\<lparr>session_timers := (session_timers T)[session_idx mod N_SESSIONS := tm T TimeCurrent],
                          tm_is_initiator := is_initiator\<rparr>\<rparr>)"

definition clear_all :: "tunn \<Rightarrow> nat \<Rightarrow> tunn" where
  "clear_all t reading =
     t\<lparr>sessions := map (\<lambda>_. None) (sessions t), packet_queue := [],
       tn_timers := timers_clear (tn_timers t) reading\<rparr>"

subsection \<open>The queue\<close>

definition queue_packet :: "tunn \<Rightarrow> bytes \<Rightarrow> tunn" where
  "queue_packet t p =
     (if length (packet_queue t) < MAX_QUEUE_DEPTH then t\<lparr>packet_queue := packet_queue t @ [p]\<rparr> else t)"

definition requeue_packet :: "tunn \<Rightarrow> bytes \<Rightarrow> tunn" where
  "requeue_packet t p =
     (if length (packet_queue t) < MAX_QUEUE_DEPTH then t\<lparr>packet_queue := p # packet_queue t\<rparr> else t)"

definition dequeue_packet :: "tunn \<Rightarrow> tunn \<times> bytes option" where
  "dequeue_packet t =
     (case packet_queue t of [] \<Rightarrow> (t, None) | p # q \<Rightarrow> (t\<lparr>packet_queue := q\<rparr>, Some p))"

subsection \<open>Sending\<close>

definition tunn_format_handshake_initiation ::
    "crypto \<Rightarrow> tunn \<Rightarrow> nat \<Rightarrow> bool \<Rightarrow> bytes \<Rightarrow> (nat \<Rightarrow> nat) \<Rightarrow> tunn \<times> (wireguard_error, tunn_result) rust" where
  "tunn_format_handshake_initiation C t dst_len force_resend ephemeral_private clk =
     (if is_in_progress (tn_handshake t) \<and> \<not> force_resend then (t, Ok Done) else
      let t = (if handshake_is_expired (tn_handshake t)
               then t\<lparr>tn_timers := timers_clear (tn_timers t) (clk 0)\<rparr> else t);
          starting_new_handshake = (\<not> is_in_progress (tn_handshake t));
          (hs, r) = format_handshake_initiation C (tn_handshake t) ephemeral_private (clk 1) (clk 2) dst_len;
          t = t\<lparr>tn_handshake := hs\<rparr>
      in case r of
           Ok packet \<Rightarrow>
             let t = (if starting_new_handshake then timer_tick t TimeLastHandshakeStarted else t);
                 t = timer_tick t TimeLastPacketSent
             in (t, Ok (WriteToNetwork packet))
         | Err e \<Rightarrow> (t, Ok (TErr e))
         | Panic \<Rightarrow> (t, Panic))"

definition encapsulate ::
    "crypto \<Rightarrow> tunn \<Rightarrow> bytes \<Rightarrow> nat \<Rightarrow> bytes \<Rightarrow> (nat \<Rightarrow> nat) \<Rightarrow> tunn \<times> (wireguard_error, tunn_result) rust" where
  "encapsulate C t src dst_len ephemeral_private clk =
     (let i = current t mod N_SESSIONS in
      case sessions t ! i of
        Some s \<Rightarrow>
          (case format_packet_data C s src dst_len of
             (s, r) \<Rightarrow>
               let t = t\<lparr>sessions := (sessions t)[i := Some s]\<rparr> in
               (case r of
                  Ok packet \<Rightarrow>
                    let t = timer_tick t TimeLastPacketSent;
                        t = (if src \<noteq> [] then timer_tick t TimeLastDataPacketSent else t);
                        t = t\<lparr>tx_bytes := tx_bytes t + of_nat (length src)\<rparr>
                    in (t, Ok (WriteToNetwork packet))
                | Err e \<Rightarrow> (t, Err e)
                | Panic \<Rightarrow> (t, Panic)))
      | None \<Rightarrow>
          let t = queue_packet t src
          in tunn_format_handshake_initiation C t dst_len False ephemeral_private clk)"

definition send_queued_packet ::
    "crypto \<Rightarrow> tunn \<Rightarrow> nat \<Rightarrow> bytes \<Rightarrow> (nat \<Rightarrow> nat) \<Rightarrow> tunn \<times> (wireguard_error, tunn_result) rust" where
  "send_queued_packet C t dst_len ephemeral_private clk =
     (case dequeue_packet t of
        (t, Some p) \<Rightarrow>
          (case encapsulate C t p dst_len ephemeral_private clk of
             (t, Ok (TErr _)) \<Rightarrow> (requeue_packet t p, Ok Done)
           | (t, r) \<Rightarrow> (t, r))
      | (t, None) \<Rightarrow> (t, Ok Done))"

subsection \<open>Receiving\<close>

definition set_current_session :: "tunn \<Rightarrow> nat \<Rightarrow> tunn" where
  "set_current_session t new_idx =
     (let cur_idx = current t in
      if cur_idx = new_idx then t
      else if sessions t ! (cur_idx mod N_SESSIONS) = None
           \<or> session_timers (tn_timers t) ! (new_idx mod N_SESSIONS)
             \<ge> session_timers (tn_timers t) ! (cur_idx mod N_SESSIONS)
           then t\<lparr>current := new_idx\<rparr> else t)"

definition handle_handshake_init ::
    "crypto \<Rightarrow> tunn \<Rightarrow> handshake_init \<Rightarrow> nat \<Rightarrow> bytes \<Rightarrow> tunn \<times> (wireguard_error, tunn_result) rust" where
  "handle_handshake_init C t p dst_len ephemeral_private =
     (case receive_handshake_initialization C (tn_handshake t) p ephemeral_private dst_len of
        (hs, r) \<Rightarrow>
          let t = t\<lparr>tn_handshake := hs\<rparr> in
          (case r of
             Ok (packet, s) \<Rightarrow>
               let idx = local_index s;
                   t = t\<lparr>sessions := (sessions t)[idx mod N_SESSIONS := Some s]\<rparr>;
                   t = timer_tick t TimeLastPacketReceived;
                   t = timer_tick t TimeLastPacketSent;
                   t = timer_tick_session_established t False idx
               in (t, Ok (WriteToNetwork packet))
           | Err e \<Rightarrow> (t, Err e)
           | Panic \<Rightarrow> (t, Panic)))"

definition handle_handshake_response ::
    "crypto \<Rightarrow> tunn \<Rightarrow> handshake_response \<Rightarrow> nat \<Rightarrow> nat \<Rightarrow> tunn \<times> (wireguard_error, tunn_result) rust" where
  "handle_handshake_response C t p dst_len now =
     (case receive_handshake_response C (tn_handshake t) p now of
        (hs, r) \<Rightarrow>
          let t = t\<lparr>tn_handshake := hs\<rparr> in
          (case r of
             Ok s \<Rightarrow>
               (case format_packet_data C s [] dst_len of
                  (s, Ok keepalive_packet) \<Rightarrow>
                    let l_idx = local_index s;
                        i = l_idx mod N_SESSIONS;
                        t = t\<lparr>sessions := (sessions t)[i := Some s]\<rparr>;
                        t = timer_tick t TimeLastPacketReceived;
                        t = timer_tick_session_established t True i;
                        t = set_current_session t l_idx
                    in (t, Ok (WriteToNetwork keepalive_packet))
                | (s, Err e) \<Rightarrow> (t, Err e)
                | (s, Panic) \<Rightarrow> (t, Panic))
           | Err e \<Rightarrow> (t, Err e)
           | Panic \<Rightarrow> (t, Panic)))"

definition handle_cookie_reply ::
    "crypto \<Rightarrow> tunn \<Rightarrow> packet_cookie_reply \<Rightarrow> tunn \<times> (wireguard_error, tunn_result) rust" where
  "handle_cookie_reply C t p =
     (case receive_cookie_reply C (tn_handshake t) p of
        (hs, r) \<Rightarrow>
          let t = t\<lparr>tn_handshake := hs\<rparr> in
          (case r of
             Ok _ \<Rightarrow>
               let t = timer_tick t TimeLastPacketReceived;
                   t = timer_tick t TimeCookieReceived
               in (t, Ok Done)
           | Err e \<Rightarrow> (t, Err e)
           | Panic \<Rightarrow> (t, Panic)))"

definition validate_decapsulated_packet :: "tunn \<Rightarrow> bytes \<Rightarrow> tunn \<times> (wireguard_error, tunn_result) rust" where
  "validate_decapsulated_packet t packet =
     (let header =
        (if packet = [] then Err Done else
         rbind (index packet 0) (\<lambda>b0.
         if drop_bit 4 b0 = 4 \<and> length packet \<ge> IPV4_MIN_HEADER_SIZE then
           rbind (range IPV4_LEN_OFF (IPV4_LEN_OFF + IP_LEN_SZ) packet) (\<lambda>len_bytes.
           rbind (range IPV4_SRC_IP_OFF (IPV4_SRC_IP_OFF + IPV4_IP_SZ) packet) (\<lambda>addr_bytes.
           Ok (unat (from_be len_bytes :: u16), V4 (from_be addr_bytes))))
         else if drop_bit 4 b0 = 6 \<and> length packet \<ge> IPV6_MIN_HEADER_SIZE then
           rbind (range IPV6_LEN_OFF (IPV6_LEN_OFF + IP_LEN_SZ) packet) (\<lambda>len_bytes.
           rbind (range IPV6_SRC_IP_OFF (IPV6_SRC_IP_OFF + IPV6_IP_SZ) packet) (\<lambda>addr_bytes.
           Ok (unat (from_be len_bytes :: u16) + IPV6_MIN_HEADER_SIZE, V6 (from_be addr_bytes))))
         else Err (TErr InvalidPacket)))
      in case header of
           Err r \<Rightarrow> (t, Ok r)
         | Panic \<Rightarrow> (t, Panic)
         | Ok (computed_len, src_ip_address) \<Rightarrow>
             if computed_len > length packet then (t, Ok (TErr InvalidPacket)) else
             let t = timer_tick t TimeLastDataPacketReceived;
                 t = t\<lparr>rx_bytes := rx_bytes t + of_nat computed_len\<rparr>
             in (case (range 0 computed_len packet :: (wireguard_error, bytes) rust) of
                   Ok truncated \<Rightarrow>
                     (case src_ip_address of
                        V4 addr \<Rightarrow> (t, Ok (WriteToTunnelV4 truncated addr))
                      | V6 addr \<Rightarrow> (t, Ok (WriteToTunnelV6 truncated addr)))
                 | _ \<Rightarrow> (t, Panic)))"

definition handle_data ::
    "crypto \<Rightarrow> tunn \<Rightarrow> packet_data \<Rightarrow> nat \<Rightarrow> (tunn \<times> (wireguard_error, tunn_result) rust) option" where
  "handle_data C t packet dst_len =
     (let r_idx = unat (pd_receiver_idx packet);
          idx = r_idx mod N_SESSIONS
      in case sessions t ! idx of
           None \<Rightarrow> Some (t, Err NoCurrentSession)
         | Some s \<Rightarrow>
             (case receive_packet_data C s packet dst_len of
                None \<Rightarrow> None
              | Some (s, r) \<Rightarrow>
                  let t = t\<lparr>sessions := (sessions t)[idx := Some s]\<rparr> in
                  (case r of
                     Err e \<Rightarrow> Some (t, Err e)
                   | Panic \<Rightarrow> Some (t, Panic)
                   | Ok decapsulated_packet \<Rightarrow>
                       let t = set_current_session t r_idx;
                           t = timer_tick t TimeLastPacketReceived
                       in Some (validate_decapsulated_packet t decapsulated_packet))))"

text \<open>\<^verbatim>\<open>unwrap_or_else(TunnResult::from)\<close>\<close>

fun or_error :: "(wireguard_error, tunn_result) rust \<Rightarrow> (wireguard_error, tunn_result) rust" where
  "or_error (Err e) = Ok (TErr e)"
| "or_error r = r"

definition handle_verified_packet ::
    "crypto \<Rightarrow> tunn \<Rightarrow> packet \<Rightarrow> nat \<Rightarrow> bytes \<Rightarrow> nat \<Rightarrow> (tunn \<times> (wireguard_error, tunn_result) rust) option" where
  "handle_verified_packet C t packet dst_len ephemeral_private now =
     map_option (map_prod id or_error)
       (case packet of
          HandshakeInit p \<Rightarrow> Some (handle_handshake_init C t p dst_len ephemeral_private)
        | HandshakeResponse p \<Rightarrow> Some (handle_handshake_response C t p dst_len now)
        | PacketCookieReply p \<Rightarrow> Some (handle_cookie_reply C t p)
        | PacketData p \<Rightarrow> handle_data C t p dst_len)"

definition decapsulate ::
    "crypto \<Rightarrow> rate_limiter \<Rightarrow> tunn \<Rightarrow> ip_addr option \<Rightarrow> bytes \<Rightarrow> nat \<Rightarrow> bytes \<Rightarrow> (nat \<Rightarrow> nat)
     \<Rightarrow> (rate_limiter \<times> tunn \<times> (wireguard_error, tunn_result) rust) option" where
  "decapsulate C rl t src_addr datagram dst_len ephemeral_private clk =
     (if datagram = [] then Some (rl, send_queued_packet C t dst_len ephemeral_private clk) else
      case verify_packet C rl src_addr datagram (clk 0) COOKIE_REPLY_SZ of
        (rl, Ok packet) \<Rightarrow>
          map_option (Pair rl) (handle_verified_packet C t packet dst_len ephemeral_private (clk 1))
      | (rl, Err (WriteToNetwork cookie)) \<Rightarrow>
          Some (rl, t, if dst_len < length cookie then Panic else Ok (WriteToNetwork cookie))
      | (rl, Err (TErr e)) \<Rightarrow> Some (rl, t, Ok (TErr e))
      | (rl, _) \<Rightarrow> Some (rl, t, Panic))"

subsection \<open>Periodic work\<close>

text \<open>One round of \<^verbatim>\<open>update_session_timers\<close> over the paired arrays. Subtracting a larger duration panics.\<close>

fun expire_sessions ::
    "nat \<Rightarrow> nat list \<Rightarrow> session option list \<Rightarrow> (tunn, nat list \<times> session option list) rust" where
  "expire_sessions time_now [] ss = Ok ([], ss)"
| "expire_sessions time_now (x # xs) [] = Panic"
| "expire_sessions time_now (x # xs) (s # ss) =
     (if time_now < x then Panic else
      rbind (expire_sessions time_now xs ss) (\<lambda>(xs, ss).
      if time_now - x > REJECT_AFTER_TIME then Ok (time_now # xs, None # ss) else Ok (x # xs, s # ss)))"

definition update_session_timers :: "tunn \<Rightarrow> nat \<Rightarrow> (tunn, tunn) rust" where
  "update_session_timers t time_now =
     rbind (expire_sessions time_now (session_timers (tn_timers t)) (sessions t)) (\<lambda>(xs, ss).
     Ok (t\<lparr>tn_timers := (tn_timers t)\<lparr>session_timers := xs\<rparr>, sessions := ss\<rparr>))"

text \<open>\<^verbatim>\<open>now - t >= d\<close> on durations.\<close>

definition elapsed_ge :: "nat \<Rightarrow> nat \<Rightarrow> nat \<Rightarrow> (tunn, bool) rust" where
  "elapsed_ge now x d = (if now < x then Panic else Ok (now - x \<ge> d))"

definition give_up :: "tunn \<Rightarrow> nat \<Rightarrow> tunn" where
  "give_up t reading = clear_all (t\<lparr>tn_handshake := set_expired (tn_handshake t)\<rparr>) reading"

text \<open>The branch of \<^verbatim>\<open>update_timers\<close> without an initiation under way: the state and whether an initiation or a
  keepalive is required.\<close>

definition decide_idle :: "tunn \<Rightarrow> nat \<Rightarrow> (tunn, tunn \<times> bool \<times> bool) rust" where
  "decide_idle t now =
     (let session_established = tm (tn_timers t) TimeSessionEstablished;
          aut_packet_received = tm (tn_timers t) TimeLastPacketReceived;
          aut_packet_sent = tm (tn_timers t) TimeLastPacketSent;
          data_packet_received = tm (tn_timers t) TimeLastDataPacketReceived;
          data_packet_sent = tm (tn_timers t) TimeLastDataPacketSent;
          keepalive = tm_persistent_keepalive (tn_timers t)
      in rbind (if tm_is_initiator (tn_timers t) \<and> session_established < data_packet_sent
                then elapsed_ge now session_established REKEY_AFTER_TIME else Ok False) (\<lambda>on_send.
         rbind (if tm_is_initiator (tn_timers t) \<and> session_established < data_packet_received
                then elapsed_ge now session_established (REJECT_AFTER_TIME - KEEPALIVE_TIMEOUT - REKEY_TIMEOUT)
                else Ok False) (\<lambda>on_receive.
         rbind (if data_packet_sent > aut_packet_received
                then elapsed_ge now aut_packet_received (KEEPALIVE_TIMEOUT + REKEY_TIMEOUT) else Ok False) (\<lambda>unheard.
         let no_reply = (unheard \<and> want_handshake (tn_timers t));
             t = (if unheard then t\<lparr>tn_timers := (tn_timers t)\<lparr>want_handshake := False\<rparr>\<rparr> else t);
             initiation = (on_send \<or> on_receive \<or> no_reply)
         in if initiation then Ok (t, True, False) else
         rbind (if data_packet_received > aut_packet_sent
                then elapsed_ge now aut_packet_sent KEEPALIVE_TIMEOUT else Ok False) (\<lambda>unsent.
         let passive = (unsent \<and> want_keepalive (tn_timers t));
             t = (if unsent then t\<lparr>tn_timers := (tn_timers t)\<lparr>want_keepalive := False\<rparr>\<rparr> else t)
         in rbind (if keepalive > 0
                   then elapsed_ge now (tm (tn_timers t) TimePersistentKeepalive) (from_secs keepalive)
                   else Ok False) (\<lambda>persistent.
            Ok (if persistent then timer_tick t TimePersistentKeepalive else t, False, passive \<or> persistent)))))))"

text \<open>The part of \<^verbatim>\<open>update_timers\<close> that decides: \<open>Err t\<close> is the early return of \<open>ConnectionExpired\<close> in state
  \<open>t\<close>.\<close>

definition timers_decide :: "tunn \<Rightarrow> nat \<Rightarrow> (nat \<Rightarrow> nat) \<Rightarrow> (tunn, tunn \<times> bool \<times> bool) rust" where
  "timers_decide t now clk =
     rbind (update_session_timers t now) (\<lambda>t.
     if handshake_is_expired (tn_handshake t) then Err t else
     rbind (if has_cookie (tn_handshake t)
            then elapsed_ge now (tm (tn_timers t) TimeCookieReceived) COOKIE_EXPIRATION_TIME else Ok False) (\<lambda>stale.
     let t = (if stale then t\<lparr>tn_handshake := clear_cookie (tn_handshake t)\<rparr> else t) in
     rbind (elapsed_ge now (tm (tn_timers t) TimeSessionEstablished) (REJECT_AFTER_TIME * 3)) (\<lambda>dead.
     if dead then Err (give_up t (clk 2)) else
     case timer (tn_handshake t) of
       Some time_init_sent \<Rightarrow>
         rbind (elapsed_ge now (tm (tn_timers t) TimeLastHandshakeStarted) REKEY_ATTEMPT_TIME) (\<lambda>dead.
         if dead then Err (give_up t (clk 2)) else
         Ok (t, clk 3 - time_init_sent \<ge> REKEY_TIMEOUT, False))
     | None \<Rightarrow> decide_idle t now)))"

definition update_timers ::
    "crypto \<Rightarrow> rate_limiter \<Rightarrow> tunn \<Rightarrow> nat \<Rightarrow> bytes \<Rightarrow> (nat \<Rightarrow> nat)
     \<Rightarrow> rate_limiter \<times> tunn \<times> (wireguard_error, tunn_result) rust" where
  "update_timers C rl t dst_len ephemeral_private clk =
     (let rl = (if should_reset_rr (tn_timers t) then reset_count rl (clk 1) else rl);
          now = clk 0 - time_started (tn_timers t);
          t = t\<lparr>tn_timers := (tn_timers t)\<lparr>tm := (tm (tn_timers t))(TimeCurrent := now)\<rparr>\<rparr>
      in (rl, case timers_decide t now clk of
           Panic \<Rightarrow> (t, Panic)
         | Err t \<Rightarrow> (t, Ok (TErr ConnectionExpired))
         | Ok (t, handshake_initiation_required, keepalive_required) \<Rightarrow>
             if handshake_initiation_required
             then tunn_format_handshake_initiation C t dst_len True ephemeral_private (\<lambda>k. clk (4 + k))
             else if keepalive_required
             then encapsulate C t [] dst_len ephemeral_private (\<lambda>k. clk (4 + k))
             else (t, Ok Done)))"

definition time_since_last_handshake :: "tunn \<Rightarrow> nat \<Rightarrow> (wireguard_error, nat option) rust" where
  "time_since_last_handshake t reading =
     (case sessions t ! (current t mod N_SESSIONS) of
        Some _ \<Rightarrow>
          let since_start = reading - time_started (tn_timers t);
              established = tm (tn_timers t) TimeSessionEstablished
          in if since_start < established then Panic else Ok (Some (since_start - established))
      | None \<Rightarrow> Ok None)"

definition persistent_keepalive :: "tunn \<Rightarrow> u16 option" where
  "persistent_keepalive t =
     (let keepalive = tm_persistent_keepalive (tn_timers t) in
      if keepalive > 0 then Some (of_nat keepalive) else None)"

subsection \<open>Well-formed tunnels\<close>

text \<open>Every timer stands at or before \<open>TimeCurrent\<close>, which stands at or before the last clock reading
  \<open>now\<close>; a session stands in the slot of its local index; the queue is bounded, and its packets have
  length at most \<open>m\<close>.\<close>

definition timers_ok :: "nat \<Rightarrow> timers \<Rightarrow> bool" where
  "timers_ok now T \<longleftrightarrow> length (session_timers T) = 8 \<and> (\<forall>n. tm T n \<le> tm T TimeCurrent)
     \<and> (\<forall>x \<in> set (session_timers T). x \<le> tm T TimeCurrent) \<and> tm T TimeCurrent \<le> now - time_started T"

definition session_ok :: "nat \<Rightarrow> session option \<Rightarrow> bool" where
  "session_ok i so \<longleftrightarrow> (case so of None \<Rightarrow> True
     | Some s \<Rightarrow> local_index s mod N_SESSIONS = i \<and> window_inv (receiving_key_counter s))"

definition sessions_ok :: "session option list \<Rightarrow> bool" where
  "sessions_ok ss \<longleftrightarrow> length ss = N_SESSIONS \<and> (\<forall>i < N_SESSIONS. session_ok i (ss ! i))"

definition tunn_ok :: "nat \<Rightarrow> nat \<Rightarrow> tunn \<Rightarrow> bool" where
  "tunn_ok m now t \<longleftrightarrow> sessions_ok (sessions t) \<and> timers_ok now (tn_timers t)
     \<and> length (packet_queue t) \<le> MAX_QUEUE_DEPTH \<and> (\<forall>p \<in> set (packet_queue t). length p \<le> m)"

subsection \<open>A tunnel as a machine\<close>

text \<open>The calls a tunnel serves. Each carries the length of its destination buffer, the ephemeral secret it
  may draw and the offsets of its clock readings from the last reading of the previous call (at most
  eight readings are made).\<close>

datatype tunn_op =
    Encapsulate bytes nat bytes "nat \<Rightarrow> nat"
  | Decapsulate "ip_addr option" bytes nat bytes "nat \<Rightarrow> nat"
  | UpdateTimers nat bytes "nat \<Rightarrow> nat"

type_synonym tunn_state = "nat \<times> rate_limiter \<times> tunn"

fun tunn_step :: "crypto \<Rightarrow> tunn_state \<Rightarrow> tunn_op \<Rightarrow> tunn_state \<times> (wireguard_error, tunn_result) rust option" where
  "tunn_step C (now, rl, t) (Encapsulate src n e dt) =
     (case encapsulate C t src n e (\<lambda>k. now + dt k) of (t, r) \<Rightarrow> ((now + dt 7, rl, t), Some r))"
| "tunn_step C (now, rl, t) (Decapsulate addr datagram n e dt) =
     (case decapsulate C rl t addr datagram n e (\<lambda>k. now + dt k) of
        None \<Rightarrow> ((now + dt 7, rl, t), None)
      | Some (rl, t, r) \<Rightarrow> ((now + dt 7, rl, t), Some r))"
| "tunn_step C (now, rl, t) (UpdateTimers n e dt) =
     (case update_timers C rl t n e (\<lambda>k. now + dt k) of (rl, t, r) \<Rightarrow> ((now + dt 7, rl, t), Some r))"

text \<open>The buffers are as large as the documentation of the calls asks for, for packets of at most \<open>m\<close> bytes;
  clocks do not run backwards; and no data packet has one of the last 1024 counters.\<close>

fun tunn_adm :: "nat \<Rightarrow> tunn_op \<Rightarrow> bool" where
  "tunn_adm m (Encapsulate src n e dt) \<longleftrightarrow> length src \<le> m \<and> m + 148 \<le> n \<and> mono dt"
| "tunn_adm m (Decapsulate addr datagram n e dt) \<longleftrightarrow> length datagram \<le> n \<and> m + 148 \<le> n \<and> mono dt
     \<and> (case parse_incoming_packet datagram of Ok (PacketData p) \<Rightarrow> regular_counter (pd_counter p) | _ \<Rightarrow> True)"
| "tunn_adm m (UpdateTimers n e dt) \<longleftrightarrow> m + 148 \<le> n \<and> mono dt"

text \<open>The call returned, and it did not panic.\<close>

definition returned :: "(wireguard_error, tunn_result) rust option \<Rightarrow> bool" where
  "returned r \<longleftrightarrow> (\<exists>x. r = Some (Ok x))"

section \<open>Well-formedness is kept\<close>

lemmas tunnel_consts = N_SESSIONS_def MAX_QUEUE_DEPTH_def from_secs_def REKEY_AFTER_TIME_def
  REJECT_AFTER_TIME_def REKEY_ATTEMPT_TIME_def REKEY_TIMEOUT_def KEEPALIVE_TIMEOUT_def
  COOKIE_EXPIRATION_TIME_def

lemma timer_tick_sel [simp]:
  "tn_handshake (timer_tick t n) = tn_handshake t" "sessions (timer_tick t n) = sessions t"
  "current (timer_tick t n) = current t" "packet_queue (timer_tick t n) = packet_queue t"
  "session_timers (tn_timers (timer_tick t n)) = session_timers (tn_timers t)"
  "time_started (tn_timers (timer_tick t n)) = time_started (tn_timers t)"
  "tm (tn_timers (timer_tick t n)) k = (if k = n then tm (tn_timers t) TimeCurrent else tm (tn_timers t) k)"
  by (auto simp: timer_tick_def Let_def split: timer_name.split)

lemma timers_ok_tick [simp]: "timers_ok now (tn_timers t) \<Longrightarrow> timers_ok now (tn_timers (timer_tick t n))"
  by (auto simp: timers_ok_def)

lemma tunn_ok_tick [simp]: "tunn_ok m now t \<Longrightarrow> tunn_ok m now (timer_tick t n)"
  by (simp add: tunn_ok_def)

lemma tunn_ok_handshake [simp]: "tunn_ok m now (t\<lparr>tn_handshake := hs\<rparr>) = tunn_ok m now t"
  "tunn_ok m now (t\<lparr>tx_bytes := b\<rparr>) = tunn_ok m now t" "tunn_ok m now (t\<lparr>rx_bytes := b\<rparr>) = tunn_ok m now t"
  "tunn_ok m now (t\<lparr>current := c\<rparr>) = tunn_ok m now t"
  "tunn_ok m now (t\<lparr>tn_handshake := hs, sessions := ss\<rparr>) = tunn_ok m now (t\<lparr>sessions := ss\<rparr>)"
  by (simp_all add: tunn_ok_def)

lemma tunn_ok_later: "tunn_ok m now t \<Longrightarrow> now \<le> now' \<Longrightarrow> tunn_ok m now' t"
  by (force simp: tunn_ok_def timers_ok_def)

lemma tunn_ok_established [simp]: "tunn_ok m now t \<Longrightarrow> tunn_ok m now (timer_tick_session_established t b i)"
  by (auto simp: timer_tick_session_established_def tunn_ok_def timers_ok_def Let_def
      dest!: set_update_subset_insert [THEN subsetD])

lemma tunn_ok_set_current [simp]: "tunn_ok m now t \<Longrightarrow> tunn_ok m now (set_current_session t i)"
  by (simp add: set_current_session_def Let_def)

lemma sessions_ok_update:
  "sessions_ok ss \<Longrightarrow> session_ok i (Some s) \<Longrightarrow> sessions_ok (ss[i := Some s])"
  by (simp add: sessions_ok_def) (metis nth_list_update_eq nth_list_update_neq)

lemma tunn_ok_nth:
  "tunn_ok m now t \<Longrightarrow> sessions t ! (i mod N_SESSIONS) = Some s \<Longrightarrow> session_ok (i mod N_SESSIONS) (Some s)"
  unfolding tunn_ok_def sessions_ok_def using mod_less_divisor [of N_SESSIONS i]
  by (metis N_SESSIONS_def zero_less_numeral)

lemma tunn_ok_store [simp]:
  "tunn_ok m now t \<Longrightarrow> session_ok i (Some s) \<Longrightarrow> tunn_ok m now (t\<lparr>sessions := (sessions t)[i := Some s]\<rparr>)"
  by (simp add: tunn_ok_def sessions_ok_update)

lemma tunn_ok_clear:
  assumes "tunn_ok m now t" and "now \<le> now'"
  shows "tunn_ok m now' (t\<lparr>tn_timers := timers_clear (tn_timers t) now'\<rparr>)"
  using assms by (fastforce simp: tunn_ok_def timers_ok_def timers_clear_def Let_def)

lemma tunn_ok_give_up:
  assumes "tunn_ok m now t" and "now \<le> now'"
  shows "tunn_ok m now' (give_up t now')"
  using assms
  by (fastforce simp: tunn_ok_def give_up_def clear_all_def timers_ok_def timers_clear_def sessions_ok_def
      session_ok_def Let_def)

lemma tunn_ok_queue: "tunn_ok m now t \<Longrightarrow> length p \<le> m \<Longrightarrow> tunn_ok m now (queue_packet t p)"
  "tunn_ok m now t \<Longrightarrow> length p \<le> m \<Longrightarrow> tunn_ok m now (requeue_packet t p)"
  by (auto simp: tunn_ok_def queue_packet_def requeue_packet_def)

section \<open>No call panics\<close>

text \<open>The shape of the step lemmas: the call left a well-formed tunnel and did not panic, or moreover it
  returned a result.\<close>

definition fine :: "nat \<Rightarrow> nat \<Rightarrow> tunn \<times> (wireguard_error, tunn_result) rust \<Rightarrow> bool" where
  "fine m now x \<longleftrightarrow> tunn_ok m now (fst x) \<and> snd x \<noteq> Panic"

definition settled :: "nat \<Rightarrow> nat \<Rightarrow> tunn \<times> (wireguard_error, tunn_result) rust \<Rightarrow> bool" where
  "settled m now x \<longleftrightarrow> tunn_ok m now (fst x) \<and> (\<exists>r. snd x = Ok r)"

lemma fine_or_error: "fine m now x \<Longrightarrow> settled m now (map_prod id or_error x)"
  by (cases "snd x") (auto simp: fine_def settled_def)

lemma fine_later: "fine m now x \<Longrightarrow> now \<le> now' \<Longrightarrow> fine m now' x"
  "settled m now x \<Longrightarrow> now \<le> now' \<Longrightarrow> settled m now' x"
  by (auto simp: fine_def settled_def intro: tunn_ok_later)

lemma format_initiation_settled:
  assumes "tunn_ok m now t" and "now \<le> clk 0" and "clk 0 \<le> now'"
  shows "settled m now' (tunn_format_handshake_initiation C t n force e clk)"
proof -
  note later = tunn_ok_later [OF assms(1)] tunn_ok_clear [OF assms(1,2), THEN tunn_ok_later, OF assms(3)]
  show ?thesis
    using assms later format_initiation_no_panic [of C "tn_handshake t" e "clk 1" "clk 2" n]
    by (auto simp: tunn_format_handshake_initiation_def settled_def Let_def case_prod_beta split: rust.split)
qed

lemma session_ok_sending [simp]:
  "session_ok i (Some (s\<lparr>sending_key_counter := c\<rparr>)) = session_ok i (Some s)"
  by (simp add: session_ok_def local_index_def)

lemma format_packet_data_Ok:
  "length src + 32 \<le> n \<Longrightarrow> \<exists>d. format_packet_data C s src n = (s\<lparr>sending_key_counter := sending_key_counter s + 1\<rparr>, Ok d)"
  by (simp add: format_packet_data_def packet_sizes Let_def)

lemma encapsulate_fits:
  assumes ok: "tunn_ok m now t" and src: "length src \<le> m" "length src + 32 \<le> n" and clk: "now \<le> clk 0" "clk 0 \<le> now'"
  shows "settled m now' (encapsulate C t src n e clk)"
proof (cases "sessions t ! (current t mod N_SESSIONS)")
  case None
  then show ?thesis
    using format_initiation_settled [where clk = clk, OF tunn_ok_queue(1) [OF ok src(1)] clk] by (simp add: encapsulate_def)
next
  case (Some s)
  note s = tunn_ok_nth [OF ok Some]
  obtain d where "format_packet_data C s src n = (s\<lparr>sending_key_counter := sending_key_counter s + 1\<rparr>, Ok d)"
    using format_packet_data_Ok [of src n C s] src by auto
  moreover have "tunn_ok m now' (t\<lparr>sessions := (sessions t)[current t mod N_SESSIONS :=
      Some (s\<lparr>sending_key_counter := sending_key_counter s + 1\<rparr>)]\<rparr>)"
    using tunn_ok_later [OF ok] s clk by simp
  ultimately show ?thesis using Some by (simp add: encapsulate_def settled_def Let_def)
qed

lemma encapsulate_settled:
  "tunn_ok m now t \<Longrightarrow> length src \<le> m \<Longrightarrow> m + 148 \<le> n \<Longrightarrow> now \<le> clk 0 \<Longrightarrow> clk 0 \<le> now'
   \<Longrightarrow> settled m now' (encapsulate C t src n e clk)"
  by (rule encapsulate_fits) simp_all

lemma send_queued_settled:
  assumes ok: "tunn_ok m now t" and n: "m + 148 \<le> n" and clk: "now \<le> clk 0" "clk 0 \<le> now'"
  shows "settled m now' (send_queued_packet C t n e clk)"
proof (cases "packet_queue t")
  case Nil
  then show ?thesis
    using tunn_ok_later [OF ok] clk by (simp add: send_queued_packet_def dequeue_packet_def settled_def)
next
  case (Cons p q)
  have "tunn_ok m now (t\<lparr>packet_queue := q\<rparr>)" and p: "length p \<le> m" using ok Cons by (simp_all add: tunn_ok_def)
  from encapsulate_settled [where clk = clk, OF this n clk, of C e] show ?thesis
    by (auto simp: send_queued_packet_def dequeue_packet_def Cons settled_def tunn_ok_queue(2) [OF _ p]
        split: prod.split rust.split tunn_result.split)
qed

lemma format_response_window:
  assumes "format_handshake_response C hs e n = (hs', Ok (d, s))"
  shows "receiving_key_counter s = default_validator"
  using assms
  by (auto simp: format_handshake_response_def Let_def case_prod_beta split: if_splits handshake_state.splits)

lemma receive_initialization_window:
  assumes "receive_handshake_initialization C hs p e n = (hs', Ok (d, s))"
  shows "receiving_key_counter s = default_validator"
  using assms
  by (auto simp: receive_handshake_initialization_def Let_def dest: format_response_window
      split: if_splits rust.splits)

lemma receive_response_window:
  assumes "receive_handshake_response C hs p now = (hs', Ok s)"
  shows "receiving_key_counter s = default_validator"
  using assms by (auto simp: receive_handshake_response_def Let_def split: if_splits rust.splits option.splits)

lemma session_ok_new:
  "receiving_key_counter s = default_validator \<Longrightarrow> session_ok (local_index s mod N_SESSIONS) (Some s)"
  by (simp add: session_ok_def)

lemma handle_init_fine:
  assumes "aead_correct C" and "tunn_ok m now t" and "parse_incoming_packet d = Ok (HandshakeInit p)"
  shows "fine m now (handle_handshake_init C t p n e)"
  using assms(2) receive_initialization_no_panic [OF assms(1,3), of "tn_handshake t" e n]
  by (auto simp: handle_handshake_init_def fine_def Let_def session_ok_new [OF receive_initialization_window]
      split: rust.split prod.split)

lemma handle_response_fine:
  assumes "aead_correct C" and "tunn_ok m now t" and "parse_incoming_packet d = Ok (HandshakeResponse p)" and "148 \<le> n"
  shows "fine m now (handle_handshake_response C t p n reading)"
proof (cases "receive_handshake_response C (tn_handshake t) p reading")
  case (Pair hs r)
  then have r: "r \<noteq> Panic" using receive_response_no_panic [OF assms(1,3), of "tn_handshake t" reading] by simp
  show ?thesis
  proof (cases r)
    case (Ok s)
    let ?s = "s\<lparr>sending_key_counter := sending_key_counter s + 1\<rparr>"
    obtain k where k: "format_packet_data C s [] n = (?s, Ok k)"
      using format_packet_data_Ok [of "[]" n C s] assms(4) by auto
    have "session_ok (local_index s mod N_SESSIONS) (Some ?s)" "local_index ?s = local_index s"
      using session_ok_new [OF receive_response_window] Pair Ok by (simp_all add: local_index_def)
    then show ?thesis
      using assms(2) by (simp add: handle_handshake_response_def fine_def Let_def Pair Ok k)
  qed (use assms(2) r in \<open>simp_all add: handle_handshake_response_def fine_def Let_def Pair\<close>)
qed

lemma handle_cookie_fine:
  assumes "tunn_ok m now t"
  shows "fine m now (handle_cookie_reply C t p)"
  using assms receive_cookie_no_panic [of C "tn_handshake t" p]
  by (auto simp: handle_cookie_reply_def fine_def Let_def split: rust.split prod.split)

lemma validate_fine:
  assumes "tunn_ok m now t"
  shows "fine m now (validate_decapsulated_packet t packet)"
  using assms
  by (cases "packet = []")
    (auto simp: validate_decapsulated_packet_def fine_def Let_def ip_offsets wire split: ip_addr.split)

lemma receiving_counter_mark_no_panic: "receiving_counter_mark v c = Some (v', r) \<Longrightarrow> r \<noteq> Panic"
  by (auto simp: receiving_counter_mark_def mark_did_receive_def Let_def split: option.splits if_splits prod.splits)

lemma receive_packet_data_fine:
  assumes s: "session_ok i (Some s)" and c: "regular_counter (pd_counter p)"
    and n: "length (pd_encrypted_encapsulated_packet p) \<le> n"
  obtains s' r where "receive_packet_data C s p n = Some (s', r)" "session_ok i (Some s')" "r \<noteq> Panic"
proof -
  have inv: "window_inv (receiving_key_counter s)" using s by (simp add: session_ok_def)
  obtain v r where mark: "receiving_counter_mark (receiving_key_counter s) (pd_counter p) = Some (v, r)" "r \<noteq> Panic"
      "window_inv v"
    using receiving_counter_mark_refines [OF window_rel_of [OF inv] c]
    by (blast dest: window_rel_inv receiving_counter_mark_no_panic)
  have "will_accept (receiving_key_counter s) (pd_counter p) \<noteq> Panic"
    by (simp add: will_accept_def)
  then have "\<exists>s' r. receive_packet_data C s p n = Some (s', r) \<and> session_ok i (Some s') \<and> r \<noteq> Panic"
    using s n mark
    by (auto simp: receive_packet_data_def session_ok_def local_index_def Let_def rbind_not_Panic
        split: rust.split option.split)
  then show thesis using that by blast
qed

lemma handle_data_fine:
  assumes ok: "tunn_ok m now t" and c: "regular_counter (pd_counter p)"
    and n: "length (pd_encrypted_encapsulated_packet p) \<le> n"
  shows "\<exists>x. handle_data C t p n = Some x \<and> fine m now x"
proof (cases "sessions t ! (unat (pd_receiver_idx p) mod N_SESSIONS)")
  case (Some s)
  from receive_packet_data_fine [OF tunn_ok_nth [OF ok Some] c n, of C] obtain s' r where
    R: "receive_packet_data C s p n = Some (s', r)" "session_ok (unat (pd_receiver_idx p) mod N_SESSIONS) (Some s')"
      "r \<noteq> Panic" by blast
  then show ?thesis
    using ok validate_fine [OF tunn_ok_tick [OF tunn_ok_set_current [OF tunn_ok_store [OF ok R(2)]]]]
    by (cases r) (simp_all add: handle_data_def Some Let_def fine_def)
qed (use ok in \<open>simp add: handle_data_def fine_def\<close>)

lemma verified_fine:
  assumes C: "aead_correct C" and ok: "tunn_ok m now t" and parse: "parse_incoming_packet d = Ok p"
    and n: "length d \<le> n" "148 \<le> n" and c: "\<And>q. p = PacketData q \<Longrightarrow> regular_counter (pd_counter q)"
  shows "\<exists>x. handle_verified_packet C t p n e reading = Some x \<and> settled m now x"
proof (cases p)
  case (PacketData q)
  have "length (pd_encrypted_encapsulated_packet q) \<le> length d"
    using parse_data_canonical [of d q] parse PacketData by auto
  then have "length (pd_encrypted_encapsulated_packet q) \<le> n" using n(1) by simp
  from handle_data_fine [OF ok c [OF PacketData] this, of C] obtain x where
    "handle_data C t q n = Some x" "fine m now x" by blast
  then show ?thesis by (simp add: handle_verified_packet_def PacketData fine_or_error)
qed (use handle_init_fine [OF C ok, of d] handle_response_fine [OF C ok, of d, OF _ n(2)] handle_cookie_fine [OF ok]
    parse in \<open>simp_all add: handle_verified_packet_def fine_or_error\<close>)

lemma decapsulate_settled:
  assumes C: "aead_correct C" and ok: "tunn_ok m now t" and n: "length d \<le> n" "m + 148 \<le> n"
    and clk: "now \<le> clk 0" "clk 0 \<le> now'"
    and c: "\<And>q. parse_incoming_packet d = Ok (PacketData q) \<Longrightarrow> regular_counter (pd_counter q)"
  shows "\<exists>rl' x. decapsulate C rl t addr d n e clk = Some (rl', x) \<and> settled m now' x"
proof (cases "d = []")
  case True
  then show ?thesis
    using send_queued_settled [where clk = clk, OF ok n(2) clk, of C e] by (simp add: decapsulate_def)
next
  case False
  obtain rl' r where v: "verify_packet C rl addr d (clk 0) COOKIE_REPLY_SZ = (rl', r)" by fastforce
  have later: "tunn_ok m now' t" using tunn_ok_later [OF ok] clk by simp
  show ?thesis
  proof (cases r)
    case (Ok p)
    have parse: "parse_incoming_packet d = Ok p" using verify_packet_effect [OF v] Ok by simp
    have "148 \<le> n" using n(2) by simp
    from verified_fine [OF C later parse n(1) this, of e "clk 1"] c parse show ?thesis
      using False v Ok by (auto simp: decapsulate_def)
  next
    case (Err x)
    then show ?thesis
      using verify_packet_refusal [of C rl addr d "clk 0" rl' x] v False later n(2)
      by (auto simp: decapsulate_def settled_def)
  next
    case Panic
    then show ?thesis using verify_packet_effect [OF v] by simp
  qed
qed

section \<open>Timers\<close>

lemma expire_sessions_spec:
  assumes "length xs = length ss" and "\<forall>x \<in> set xs. x \<le> now"
  obtains xs' ss' where "expire_sessions now xs ss = Ok (xs', ss')" "length xs' = length xs" "length ss' = length ss"
    "\<forall>x \<in> set xs'. x \<le> now"
    "\<And>i. i < length xs \<Longrightarrow> xs' ! i = (if now - xs ! i > REJECT_AFTER_TIME then now else xs ! i)"
    "\<And>i. i < length xs \<Longrightarrow> ss' ! i = (if now - xs ! i > REJECT_AFTER_TIME then None else ss ! i)"
proof -
  have "\<exists>xs' ss'. expire_sessions now xs ss = Ok (xs', ss') \<and> length xs' = length xs \<and> length ss' = length ss
    \<and> (\<forall>x \<in> set xs'. x \<le> now)
    \<and> (\<forall>i < length xs. xs' ! i = (if now - xs ! i > REJECT_AFTER_TIME then now else xs ! i)
         \<and> ss' ! i = (if now - xs ! i > REJECT_AFTER_TIME then None else ss ! i))"
    using assms
  proof (induction xs ss rule: list_induct2)
    case (Cons x xs s ss)
    then obtain xs' ss' where "expire_sessions now xs ss = Ok (xs', ss')" "length xs' = length xs" "length ss' = length ss"
      "\<forall>x \<in> set xs'. x \<le> now"
      "\<forall>i < length xs. xs' ! i = (if now - xs ! i > REJECT_AFTER_TIME then now else xs ! i)
         \<and> ss' ! i = (if now - xs ! i > REJECT_AFTER_TIME then None else ss ! i)" by auto
    with Cons.prems show ?case by (auto simp: nth_Cons split: nat.split)
  qed simp
  then show thesis using that by blast
qed

lemma update_session_timers_spec:
  assumes ok: "sessions_ok (sessions t)" "timers_ok reading (tn_timers t)" and now: "now = tm (tn_timers t) TimeCurrent"
  obtains t' where "update_session_timers t now = Ok t'" "sessions_ok (sessions t')" "timers_ok reading (tn_timers t')"
    "tn_timers t' = (tn_timers t)\<lparr>session_timers := session_timers (tn_timers t')\<rparr>"
    "t' = t\<lparr>tn_timers := tn_timers t', sessions := sessions t'\<rparr>"
    "\<And>i. i < 8 \<Longrightarrow> session_timers (tn_timers t') ! i =
       (if now - session_timers (tn_timers t) ! i > REJECT_AFTER_TIME then now else session_timers (tn_timers t) ! i)"
    "\<And>i. i < 8 \<Longrightarrow> sessions t' ! i =
       (if now - session_timers (tn_timers t) ! i > REJECT_AFTER_TIME then None else sessions t ! i)"
proof -
  have len: "length (session_timers (tn_timers t)) = length (sessions t)"
    "\<forall>x \<in> set (session_timers (tn_timers t)). x \<le> now" "length (sessions t) = 8"
    using ok now by (simp_all add: sessions_ok_def timers_ok_def N_SESSIONS_def)
  obtain xs ss where E: "expire_sessions now (session_timers (tn_timers t)) (sessions t) = Ok (xs, ss)"
    "length xs = 8" "length ss = 8" "\<forall>x \<in> set xs. x \<le> now"
    "\<And>i. i < 8 \<Longrightarrow> xs ! i = (if now - session_timers (tn_timers t) ! i > REJECT_AFTER_TIME then now
        else session_timers (tn_timers t) ! i)"
    "\<And>i. i < 8 \<Longrightarrow> ss ! i = (if now - session_timers (tn_timers t) ! i > REJECT_AFTER_TIME then None else sessions t ! i)"
    by (rule expire_sessions_spec [OF len(1,2)]) (simp add: len)
  show thesis
    by (rule that [of "t\<lparr>tn_timers := (tn_timers t)\<lparr>session_timers := xs\<rparr>, sessions := ss\<rparr>"])
      (use ok E now in \<open>auto simp: update_session_timers_def sessions_ok_def timers_ok_def N_SESSIONS_def session_ok_def\<close>)
qed

lemma elapsed_ge_Ok: "x \<le> now \<Longrightarrow> elapsed_ge now x d = Ok (d \<le> now - x)"
  by (simp add: elapsed_ge_def)

lemma tunn_ok_wants [simp]:
  "tunn_ok m now (t\<lparr>tn_timers := (tn_timers t)\<lparr>want_handshake := b\<rparr>\<rparr>) = tunn_ok m now t"
  "tunn_ok m now (t\<lparr>tn_timers := (tn_timers t)\<lparr>want_keepalive := b\<rparr>\<rparr>) = tunn_ok m now t"
  "tunn_ok m now (t\<lparr>tn_timers := (tn_timers t)\<lparr>want_handshake := b, want_keepalive := b'\<rparr>\<rparr>) = tunn_ok m now t"
  by (simp_all add: tunn_ok_def timers_ok_def)

lemma timers_bounded: "tunn_ok m reading t \<Longrightarrow> tm (tn_timers t) n \<le> tm (tn_timers t) TimeCurrent"
  by (simp add: tunn_ok_def timers_ok_def)

lemma decide_idle_fine:
  assumes ok: "tunn_ok m reading t" and now: "now = tm (tn_timers t) TimeCurrent"
  obtains t' i k where "decide_idle t now = Ok (t', i, k)" "tunn_ok m reading t'" "sessions t' = sessions t"
    "session_timers (tn_timers t') = session_timers (tn_timers t)" "tn_handshake t' = tn_handshake t"
proof -
  define good where "good t' \<longleftrightarrow> tunn_ok m reading t' \<and> sessions t' = sessions t
    \<and> session_timers (tn_timers t') = session_timers (tn_timers t) \<and> tn_handshake t' = tn_handshake t" for t'
  have el: "elapsed_ge now (tm (tn_timers t) n) d = Ok (d \<le> now - tm (tn_timers t) n)" for n d
    using timers_bounded [OF ok] now by (simp add: elapsed_ge_Ok)
  have if_Ok: "(if b then Ok x else Ok y) = Ok (if b then x else y)" for b and x y :: bool by simp
  have if_tm: "tm (tn_timers (if b then t\<lparr>tn_timers := (tn_timers t)\<lparr>want_keepalive := False\<rparr>\<rparr> else t)) n
      = tm (tn_timers t) n" for b t n by simp
  have if_tm': "tm (tn_timers (if b then t\<lparr>tn_timers := (tn_timers t)\<lparr>want_handshake := False\<rparr>\<rparr> else t)) n
      = tm (tn_timers t) n" for b t n by simp
  have good: "good (if b then t\<lparr>tn_timers := (tn_timers t)\<lparr>want_keepalive := False\<rparr>\<rparr> else t)"
    "good (if b then t\<lparr>tn_timers := (tn_timers t)\<lparr>want_handshake := False\<rparr>\<rparr> else t)"
    "good (if b then timer_tick t n else t)" if "good t" for b t n
    using that by (simp_all add: good_def)
  have if_Ex: "\<exists>x. (if b then Ok p else Ok q) = (Ok x :: (tunn, tunn \<times> bool \<times> bool) rust) \<and> good (fst x)"
    if "good (fst p)" "good (fst q)" for b p q
    using that by (intro exI [of _ "if b then p else q"]) simp
  have "good t" using ok by (simp add: good_def)
  then have "\<exists>x. decide_idle t now = Ok x \<and> good (fst x)"
    unfolding decide_idle_def Let_def el if_Ok rbind.simps if_tm if_tm'
    by (intro if_Ex) (simp_all only: fst_conv good)
  then show thesis using that unfolding good_def by (metis surjective_pairing)
qed

lemma timers_decide_fine:
  assumes ok: "tunn_ok m reading t" and now: "now = tm (tn_timers t) TimeCurrent" and clk: "reading \<le> clk 2"
  shows "case timers_decide t now clk of Panic \<Rightarrow> False | Err t' \<Rightarrow> tunn_ok m (clk 2) t' | Ok (t', _) \<Rightarrow> tunn_ok m reading t'"
proof -
  obtain u where u: "update_session_timers t now = Ok u" "sessions_ok (sessions u)" "timers_ok reading (tn_timers u)"
    "tn_timers u = (tn_timers t)\<lparr>session_timers := session_timers (tn_timers u)\<rparr>"
    "u = t\<lparr>tn_timers := tn_timers u, sessions := sessions u\<rparr>"
    by (rule update_session_timers_spec [of t reading now]) (use ok now in \<open>auto simp: tunn_ok_def\<close>)
  have "packet_queue u = packet_queue t" by (subst u(5)) simp
  then have okm: "tunn_ok m reading u" using ok u(2,3) by (simp add: tunn_ok_def)
  have now': "now = tm (tn_timers u) TimeCurrent" unfolding now by (subst u(4)) simp
  have el: "elapsed_ge now (tm (tn_timers u) n) d = Ok (d \<le> now - tm (tn_timers u) n)" for n d
    using timers_bounded [OF okm] now' by (simp add: elapsed_ge_Ok)
  define v where "v stale = (if stale then u\<lparr>tn_handshake := clear_cookie (tn_handshake u)\<rparr> else u)" for stale
  have v: "tunn_ok m reading (v b)" "tn_timers (v b) = tn_timers u" for b using okm by (simp_all add: v_def)
  have "case decide_idle (v b) now of Panic \<Rightarrow> False | Err t' \<Rightarrow> tunn_ok m (clk 2) t' | Ok (t', _) \<Rightarrow> tunn_ok m reading t'" for b
    by (rule decide_idle_fine [OF v(1) [of b]]) (use v(2) now' in auto)
  then show ?thesis
    using okm tunn_ok_give_up [OF v(1) clk] tunn_ok_later [OF okm clk] v(1)
    by (auto simp: timers_decide_def u(1) el v_def [symmetric] v(2) Let_def split: option.split)
qed

lemma tunn_ok_current:
  assumes "tunn_ok m now t" and "now \<le> reading"
  shows "tunn_ok m reading
    (t\<lparr>tn_timers := (tn_timers t)\<lparr>tm := (tm (tn_timers t))(TimeCurrent := reading - time_started (tn_timers t))\<rparr>\<rparr>)"
proof -
  let ?now = "reading - time_started (tn_timers t)"
  have "tm (tn_timers t) k \<le> ?now" "\<forall>x \<in> set (session_timers (tn_timers t)). x \<le> ?now" for k
    using assms unfolding tunn_ok_def timers_ok_def by (meson diff_le_mono order_trans)+
  then show ?thesis using assms(1) by (simp add: tunn_ok_def timers_ok_def)
qed

lemma update_timers_settled:
  assumes ok: "tunn_ok m now t" and n: "m + 148 \<le> n" and clk: "now \<le> clk 0" "mono clk"
  shows "settled m (clk 7) (snd (update_timers C rl t n e clk))"
proof -
  let ?now = "clk 0 - time_started (tn_timers t)"
  let ?t = "t\<lparr>tn_timers := (tn_timers t)\<lparr>tm := (tm (tn_timers t))(TimeCurrent := ?now)\<rparr>\<rparr>"
  have le: "clk 0 \<le> clk 2" "clk 2 \<le> clk 7" "clk 0 \<le> clk 4" "clk 4 \<le> clk 7"
    using clk(2) by (simp_all add: monoD)
  have okt: "tunn_ok m (clk 0) ?t" by (rule tunn_ok_current [OF ok clk(1)])
  have decide: "case timers_decide ?t ?now clk of Panic \<Rightarrow> False | Err t' \<Rightarrow> tunn_ok m (clk 2) t'
      | Ok (t', _) \<Rightarrow> tunn_ok m (clk 0) t'"
    by (rule timers_decide_fine [where clk = clk, OF okt _ le(1)]) simp
  show ?thesis
  proof (cases "timers_decide ?t ?now clk")
    case (Ok x)
    obtain t' i k where x: "x = (t', i, k)" by (cases x)
    have t': "tunn_ok m (clk 0) t'" using decide Ok x by simp
    show ?thesis
      using format_initiation_settled [where clk = "\<lambda>k. clk (4 + k)", OF t', of "clk 7" C n True e]
        encapsulate_settled [where clk = "\<lambda>k. clk (4 + k)", OF t' _ n, of "[]" "clk 7" C e] le Ok x
        tunn_ok_later [OF t', of "clk 7"]
      by (simp add: update_timers_def Let_def settled_def)
  next
    case (Err t')
    then show ?thesis using decide tunn_ok_later [of m "clk 2" t' "clk 7"] le
      by (simp add: update_timers_def Let_def settled_def)
  next
    case Panic
    then show ?thesis using decide by simp
  qed
qed

section \<open>A tunnel never panics\<close>

fun state_ok :: "nat \<Rightarrow> tunn_state \<Rightarrow> bool" where
  "state_ok m (now, rl, t) \<longleftrightarrow> tunn_ok m now t"

lemma tunn_step_settled:
  assumes C: "aead_correct C" and ok: "state_ok m s" and x: "tunn_adm m x"
  shows "state_ok m (fst (tunn_step C s x)) \<and> returned (snd (tunn_step C s x))"
proof -
  obtain now rl t where s: "s = (now, rl, t)" by (cases s)
  have t: "tunn_ok m now t" using ok s by simp
  have clk: "now \<le> now + dt 0" "now + dt 0 \<le> now + dt 7" "mono (\<lambda>k. now + dt k)" if "mono dt" for dt :: "nat \<Rightarrow> nat"
    using that by (auto simp: mono_def)
  show ?thesis
  proof (cases x)
    case (Encapsulate src n e dt)
    then have a: "length src \<le> m" "m + 148 \<le> n" "mono dt" using x by auto
    from encapsulate_settled [where clk = "\<lambda>k. now + dt k", OF t a(1,2) clk(1,2) [OF a(3)], of C e] show ?thesis
      by (auto simp: Encapsulate s settled_def returned_def split: prod.split)
  next
    case (Decapsulate addr d n e dt)
    then have a: "length d \<le> n" "m + 148 \<le> n" "mono dt"
      "\<And>q. parse_incoming_packet d = Ok (PacketData q) \<Longrightarrow> regular_counter (pd_counter q)"
      using x by auto
    from decapsulate_settled [where clk = "\<lambda>k. now + dt k", OF C t a(1,2) clk(1,2) [OF a(3)] a(4), of rl addr e]
    show ?thesis by (auto simp: Decapsulate s settled_def returned_def)
  next
    case (UpdateTimers n e dt)
    then have a: "m + 148 \<le> n" "mono dt" using x by auto
    from update_timers_settled [where clk = "\<lambda>k. now + dt k", OF t a(1) clk(1,3) [OF a(2)], of C rl e] show ?thesis
      by (auto simp: UpdateTimers s settled_def returned_def split: prod.split)
  qed
qed

interpretation tunnel_machine: safe_machine "tunn_step C" "tunn_adm m"
    "\<lambda>s. aead_correct C \<and> state_ok m s" returned
  for C m
  using tunn_step_settled by unfold_locales blast+

lemma tunn_ok_new: "tunn_ok m now (fst (tunn_new C sk pk psk ka idx rlo rs rk st clk))"
  by (simp add: tunn_new_def tunn_ok_def timers_ok_def timers_new_def sessions_ok_def session_ok_def N_SESSIONS_def Let_def)

lemma tunn_ok_run:
  assumes "aead_correct C" and "tunn_new C sk pk psk ka idx rlo rs rk st clk = (t, rl)" and "list_all (tunn_adm m) ops"
    and "fst (run (tunn_step C) (now, rl, t) ops) = (now', rl', t')"
  shows "tunn_ok m now' t'"
proof -
  have "tunn_ok m now t" using tunn_ok_new [of m now C sk pk psk ka idx rlo rs rk st clk] assms(2) by simp
  then show ?thesis
    using tunnel_machine.inv_run [of C m "(now, rl, t)" ops] assms(1,3,4) by simp
qed



text \<open>C25. Types of a running tunnel: after any admissible sequence of calls the ring has eight slots, the
  session in slot \<open>i\<close> has a local index congruent to \<open>i\<close> modulo 8 and a replay window of 16 words, the queue
  holds at most 256 packets, and no timer is ahead of the clock.\<close>

theorem tunnel_well_formed:
  assumes "aead_correct C" and "tunn_new C sk pk psk ka idx rlo rs rk st clk = (t, rl)" and "list_all (tunn_adm m) ops"
    and "fst (run (tunn_step C) (now, rl, t) ops) = (now', rl', t')"
  shows "length (sessions t') = 8 \<and> length (packet_queue t') \<le> 256
    \<and> (\<forall>i s. i < 8 \<longrightarrow> sessions t' ! i = Some s \<longrightarrow>
         local_index s mod 8 = i \<and> length (bitmap (receiving_key_counter s)) = 16)
    \<and> (\<forall>n. tm (tn_timers t') n \<le> now' - time_started (tn_timers t'))"
proof -
  have ok: "tunn_ok m now' t'" by (rule tunn_ok_run [OF assms])
  have s: "local_index s mod 8 = i \<and> length (bitmap (receiving_key_counter s)) = 16"
    if "i < 8" "sessions t' ! i = Some s" for i s
    using tunn_ok_nth [OF ok, of i s] that by (simp add: session_ok_def window_inv_def N_SESSIONS_def)
  have "tm (tn_timers t') n \<le> now' - time_started (tn_timers t')" for n
    using ok unfolding tunn_ok_def timers_ok_def by (meson order_trans)
  then show ?thesis using ok s by (simp add: tunn_ok_def sessions_ok_def tunnel_consts)
qed

theorem tunnel_well_formed_witness:
  "\<exists>now' rl' t'. fst (run (tunn_step toy_crypto)
     (0, prod.swap (tunn_new toy_crypto (replicate 32 1) (replicate 32 2) None None 1 None [] [] 0 (\<lambda>_. 0)))
     [Encapsulate [1, 2, 3] 1000 (replicate 32 7) (\<lambda>k. k), UpdateTimers 1000 [] (\<lambda>k. 5)]) = (now', rl', t')
   \<and> length (sessions t') = 8 \<and> length (packet_queue t') \<le> 256"
  using tunnel_well_formed [of toy_crypto "replicate 32 1" "replicate 32 2" None None 1 None "[]" "[]" 0 "\<lambda>_. 0"
      "fst (tunn_new toy_crypto (replicate 32 1) (replicate 32 2) None None 1 None [] [] 0 (\<lambda>_. 0))"
      "snd (tunn_new toy_crypto (replicate 32 1) (replicate 32 2) None None 1 None [] [] 0 (\<lambda>_. 0))" 100
      "[Encapsulate [1, 2, 3] 1000 (replicate 32 7) (\<lambda>k. k), UpdateTimers 1000 [] (\<lambda>k. 5)]" 0]
  by (cases "fst (run (tunn_step toy_crypto)
     (0, prod.swap (tunn_new toy_crypto (replicate 32 1) (replicate 32 2) None None 1 None [] [] 0 (\<lambda>_. 0)))
     [Encapsulate [1, 2, 3] 1000 (replicate 32 7) (\<lambda>k. k), UpdateTimers 1000 [] (\<lambda>k. 5)])")
    (simp add: mono_def prod.swap_def)

end
