(* ===== verification/Tunnel_Delivery.thy ===== *)
theory Tunnel_Delivery
  imports Tunnel
begin

text \<open>
  What a tunnel promises to the packets given to it: the first packet of an idle tunnel triggers a
  handshake and arrives at the other end; packets wait in order; sessions expire; an unanswered
  handshake is retried and finally given up. The operations are those of \<open>Tunnel\<close>, composed with the rate
  limiter, the handshake, the sessions and the packet parser.
\<close>

section \<open>Definitions\<close>

text \<open>What an operating system does with a packet that comes out of a tunnel: an IPv4 or IPv6 packet whose
  length field gives its length is written to the interface with its source address.\<close>

definition write_to_tunnel :: "bytes \<Rightarrow> tunn_result option" where
  "write_to_tunnel pkt =
     (if 20 \<le> length pkt \<and> drop_bit 4 (pkt ! 0) = 4 \<and> unat (from_be (take 2 (drop 2 pkt)) :: u16) = length pkt
      then Some (WriteToTunnelV4 pkt (from_be (take 4 (drop 12 pkt))))
      else if 40 \<le> length pkt \<and> drop_bit 4 (pkt ! 0) = 6
          \<and> unat (from_be (take 2 (drop 4 pkt)) :: u16) + 40 = length pkt
      then Some (WriteToTunnelV6 pkt (from_be (take 16 (drop 8 pkt))))
      else None)"

text \<open>Packets handed to a tunnel one after the other.\<close>

fun encapsulate_all :: "crypto \<Rightarrow> tunn \<Rightarrow> nat \<Rightarrow> bytes \<Rightarrow> (nat \<Rightarrow> nat) \<Rightarrow> bytes list \<Rightarrow> tunn" where
  "encapsulate_all C t n e clk [] = t"
| "encapsulate_all C t n e clk (p # ps) = encapsulate_all C (fst (encapsulate C t p n e clk)) n e clk ps"

text \<open>Repeated calls with an empty datagram, as \<^verbatim>\<open>decapsulate\<close> asks for: what is written to the network.\<close>

fun drain :: "crypto \<Rightarrow> tunn \<Rightarrow> nat \<Rightarrow> bytes \<Rightarrow> (nat \<Rightarrow> nat) \<Rightarrow> nat \<Rightarrow> tunn \<times> (wireguard_error, tunn_result) rust list" where
  "drain C t n e clk 0 = (t, [])"
| "drain C t n e clk (Suc k) =
     (case send_queued_packet C t n e clk of
        (t, r) \<Rightarrow> (case drain C t n e clk k of (t, rs) \<Rightarrow> (t, r # rs)))"

definition sample_packet :: bytes where
  "sample_packet = [0x45, 0, 0, 20] @ replicate 8 0 @ [10, 0, 0, 1, 10, 0, 0, 2]"

section \<open>Authentic messages pass the limiter\<close>

lemma message_macs_split:
  assumes "digest_lengths C"
  obtains mac2 where "message_macs C hs msg = b2s_keyed_mac_16 C (sending_mac1_key (params hs)) msg @ mac2"
    "length (b2s_keyed_mac_16 C (sending_mac1_key (params hs)) msg) = 16" "length mac2 = 16"
proof -
  have len: "length (b2s_keyed_mac_16 C k x) = 16" for k x
    using assms by (simp add: digest_lengths_def b2s_keyed_mac_16_def)
  show thesis
    by (rule that [of "case write_cookie (hs_cookies hs) of Some cookie \<Rightarrow> b2s_keyed_mac_16 C cookie
          (msg @ b2s_keyed_mac_16 C (sending_mac1_key (params hs)) msg) | None \<Rightarrow> replicate 16 0"])
      (simp_all add: message_macs_def len Let_def split: option.split)
qed

lemma packet_wire_macs: "is_handshake p \<Longrightarrow> packet_wire p macs = packet_wire p [] @ macs"
  by (cases p) simp_all

lemma verify_formatted:
  assumes "digest_lengths C" and wf: "wf_packet p macs" and hs: "is_handshake p"
    and macs: "macs = message_macs C hs (packet_wire p [])"
    and key: "mac1_key rl = sending_mac1_key (params hs)" and "rl_count rl < rl_limit rl"
  shows "verify_packet C rl addr (packet_wire p macs) now n = (rl\<lparr>rl_count := rl_count rl + 1\<rparr>, Ok p)"
proof -
  obtain mac2 where m: "macs = b2s_keyed_mac_16 C (sending_mac1_key (params hs)) (packet_wire p []) @ mac2"
    "length (b2s_keyed_mac_16 C (sending_mac1_key (params hs)) (packet_wire p [])) = 16" "length mac2 = 16"
    using message_macs_split [OF assms(1)] macs by metis
  have split: "packet_wire p macs
      = packet_wire p [] @ b2s_keyed_mac_16 C (sending_mac1_key (params hs)) (packet_wire p []) @ mac2"
    using packet_wire_macs [OF hs, of macs] m(1) by simp
  show ?thesis
    unfolding split
    by (rule verify_below_limit [OF parse_packet_wire [OF wf, unfolded split] hs m(2,3) _ assms(6)])
      (simp add: key m(2))
qed

section \<open>Single calls\<close>

lemma encapsulate_starts:
  assumes "sessions t ! (current t mod N_SESSIONS) = None" and "\<not> is_in_progress (tn_handshake t)"
    and "format_handshake_initiation C (tn_handshake t) e (clk 1) (clk 2) n = (hs, Ok m)"
  obtains t' where "encapsulate C t src n e clk = (t', Ok (WriteToNetwork m))" "tn_handshake t' = hs"
    "sessions t' = sessions t" "current t' = current t" "packet_queue t' = packet_queue (queue_packet t src)"
proof -
  have q: "tn_handshake (queue_packet t src) = tn_handshake t" "sessions (queue_packet t src) = sessions t"
    "current (queue_packet t src) = current t" by (simp_all add: queue_packet_def)
  show thesis
    by (rule that [of "fst (encapsulate C t src n e clk)"])
      (use assms q in \<open>simp_all add: encapsulate_def tunn_format_handshake_initiation_def Let_def\<close>)
qed

lemma handle_init_stores:
  assumes "receive_handshake_initialization C (tn_handshake t) p e n = (hs, Ok (m, s))"
  obtains t' where "handle_verified_packet C t (HandshakeInit p) n e now = Some (t', Ok (WriteToNetwork m))"
    "sessions t' = (sessions t)[local_index s mod N_SESSIONS := Some s]"
  by (rule that [of "fst (handle_handshake_init C t p n e)"])
    (use assms in \<open>simp_all add: handle_verified_packet_def handle_handshake_init_def Let_def
       timer_tick_session_established_def\<close>)

lemma handle_response_stores:
  assumes "receive_handshake_response C (tn_handshake t) p now = (hs, Ok s)" and "aead_correct C" and "32 \<le> n"
    and "length (sessions t) = N_SESSIONS" and "sessions t ! (current t mod N_SESSIONS) = None"
  obtains t' where "handle_verified_packet C t (HandshakeResponse p) n e now =
      Some (t', Ok (WriteToNetwork (packet_wire (PacketData (sealed C s [])) [])))"
    "sessions t' = (sessions t)[local_index s mod N_SESSIONS :=
       Some (s\<lparr>sending_key_counter := sending_key_counter s + 1\<rparr>)]"
    "current t' = local_index s" "packet_queue t' = packet_queue t"
proof -
  let ?i = "local_index s mod N_SESSIONS"
  have l: "local_index (s\<lparr>sending_key_counter := c\<rparr>) = local_index s" for c by (simp add: local_index_def)
  show thesis
    by (rule that [of "fst (handle_handshake_response C t p n now)"]; cases "current t mod N_SESSIONS = ?i")
      (use assms(1,3,5) in \<open>simp_all add: handle_verified_packet_def handle_handshake_response_def Let_def
        timer_tick_session_established_def set_current_session_def l format_packet_data_sealed(1) [OF assms(2)]\<close>)
qed

lemma encapsulate_sealed:
  assumes "sessions t ! (current t mod N_SESSIONS) = Some s" and "aead_correct C" and "length src + 32 \<le> n"
  obtains t' where "encapsulate C t src n e clk = (t', Ok (WriteToNetwork (packet_wire (PacketData (sealed C s src)) [])))"
    "sessions t' = (sessions t)[current t mod N_SESSIONS := Some (s\<lparr>sending_key_counter := sending_key_counter s + 1\<rparr>)]"
    "current t' = current t" "packet_queue t' = packet_queue t" "tn_handshake t' = tn_handshake t"
  by (rule that [of "fst (encapsulate C t src n e clk)"])
    (use assms(1) in \<open>simp_all add: encapsulate_def Let_def format_packet_data_sealed(1) [OF assms(2,3)]\<close>)

lemma validate_written:
  assumes "write_to_tunnel pkt = Some res"
  shows "snd (validate_decapsulated_packet t pkt) = Ok res"
    and "sessions (fst (validate_decapsulated_packet t pkt)) = sessions t"
  using assms
  by (auto simp: write_to_tunnel_def validate_decapsulated_packet_def ip_offsets wire Let_def split: if_splits)

lemma handle_data_opens:
  assumes C: "aead_correct C" and s: "sessions t ! (local_index b mod N_SESSIONS) = Some b"
    and match: "sessions_match a b" and rel: "window_rel (receiving_key_counter b) w"
    and ctr: "regular_counter (sending_key_counter a)" and good: "w_good w (unat (sending_key_counter a))"
    and n: "length src + 16 \<le> n"
  obtains t' b' where
    "handle_verified_packet C t (PacketData (sealed C a src)) n e now =
      map_option (map_prod id or_error) (Some (validate_decapsulated_packet t' src))"
    "sessions t' = (sessions t)[local_index b mod N_SESSIONS := Some b']"
    "window_rel (receiving_key_counter b') (w_mark w (unat (sending_key_counter a)))"
    "b' = b\<lparr>receiving_key_counter := receiving_key_counter b'\<rparr>"
proof -
  obtain b' where b': "receive_packet_data C b (sealed C a src) n = Some (b', Ok src)"
    "window_rel (receiving_key_counter b') (w_mark w (unat (sending_key_counter a)))"
    "b' = b\<lparr>receiving_key_counter := receiving_key_counter b'\<rparr>"
    using receive_sealed [OF C match rel ctr good n] by blast
  have idx: "unat (pd_receiver_idx (sealed C a src)) = local_index b"
    using match by (simp add: sealed_def sessions_match_def local_index_def)
  define t1 where "t1 = t\<lparr>sessions := (sessions t)[local_index b mod N_SESSIONS := Some b']\<rparr>"
  have "sessions (timer_tick (set_current_session t1 (local_index b)) TimeLastPacketReceived) = sessions t1"
    by (simp add: set_current_session_def Let_def)
  then show thesis
    by (intro that [OF _ _ b'(2,3), of "timer_tick (set_current_session t1 (local_index b)) TimeLastPacketReceived"])
      (simp_all add: handle_verified_packet_def handle_data_def idx s b'(1) Let_def t1_def)
qed

lemma decapsulate_verified:
  assumes "verify_packet C rl addr d (clk 0) COOKIE_REPLY_SZ = (rl', Ok p)" and "d \<noteq> []"
    and "handle_verified_packet C t p n e (clk 1) = Some (t', r)"
  shows "decapsulate C rl t addr d n e clk = Some (rl', t', r)"
  using assms by (simp add: decapsulate_def)

lemma packet_wire_not_Nil: "packet_wire p macs \<noteq> []"
  using length_le_bytes [of 4 HANDSHAKE_INIT] length_le_bytes [of 4 HANDSHAKE_RESP]
    length_le_bytes [of 4 COOKIE_REPLY] length_le_bytes [of 4 DATA]
  by (cases p) (auto simp del: length_le_bytes)

lemma decapsulate_data:
  assumes C: "aead_correct C" and n: "length src + 32 \<le> n"
    and h: "handle_verified_packet C t (PacketData (sealed C s src)) n e (clk 1) = Some (t', r)"
  shows "decapsulate C rl t addr (packet_wire (PacketData (sealed C s src)) []) n e clk = Some (rl, t', r)"
  by (rule decapsulate_verified [where clk = clk, OF verify_unmetered packet_wire_not_Nil h])
    (simp_all add: format_packet_data_sealed(2) [OF C n] del: packet_wire.simps)

section \<open>The first packet\<close>

text \<open>The data part: two payloads sealed one after the other by a new session arrive in order at the tunnel
  that holds the other end.\<close>

lemma deliver_keepalive_and_packet:
  assumes C: "aead_correct C" and match: "sessions_match si sr" and zero: "sending_key_counter si = 0"
    and new: "receiving_key_counter sr = default_validator" and slot: "sessions b ! (local_index sr mod N_SESSIONS) = Some sr"
    and len: "length (sessions b) = N_SESSIONS" and pkt: "write_to_tunnel pkt = Some res" "length pkt + 32 \<le> n"
  obtains b2 b3 where
    "decapsulate C rl b addr (packet_wire (PacketData (sealed C si [])) []) n e4 clk4 = Some (rl, b2, Ok Done)"
    "decapsulate C rl b2 addr (packet_wire (PacketData (sealed C (si\<lparr>sending_key_counter := 1\<rparr>) pkt)) []) n e5 clk5
       = Some (rl, b3, Ok res)"
proof -
  let ?w = "\<lparr>w_next = 0, w_seen = {}\<rparr>"
  let ?si = "si\<lparr>sending_key_counter := 1\<rparr>"
  have i: "local_index sr mod N_SESSIONS < length (sessions b)" using len by (simp add: N_SESSIONS_def)
  obtain b1 sr' where B1: "handle_verified_packet C b (PacketData (sealed C si [])) n e4 (clk4 1) =
      map_option (map_prod id or_error) (Some (validate_decapsulated_packet b1 []))"
    "sessions b1 = (sessions b)[local_index sr mod N_SESSIONS := Some sr']"
    "window_rel (receiving_key_counter sr') (w_mark ?w (unat (sending_key_counter si)))"
    "sr' = sr\<lparr>receiving_key_counter := receiving_key_counter sr'\<rparr>"
    by (rule handle_data_opens [OF C slot match, of ?w "[]" n])
      (use zero new pkt(2) in \<open>auto simp: regular_counter_def w_good_def\<close>)
  have idle: "validate_decapsulated_packet b1 [] = (b1, Ok Done)" by (simp add: validate_decapsulated_packet_def)
  have sr': "local_index sr' = local_index sr" "sessions_match ?si sr'"
    using match by (subst B1(4), simp add: local_index_def sessions_match_def)+
  have slot': "sessions b1 ! (local_index sr' mod N_SESSIONS) = Some sr'" using i by (simp add: B1(2) sr')
  obtain b3 sr'' where B3: "handle_verified_packet C b1 (PacketData (sealed C ?si pkt)) n e5 (clk5 1) =
      map_option (map_prod id or_error) (Some (validate_decapsulated_packet b3 pkt))"
    by (rule handle_data_opens [OF C slot' sr'(2) B1(3), of pkt n])
      (use zero pkt(2) in \<open>auto simp: regular_counter_def w_good_def w_mark_def\<close>)
  have kept: "handle_verified_packet C b (PacketData (sealed C si [])) n e4 (clk4 1) = Some (b1, Ok Done)"
    using B1(1) by (simp add: idle)
  have written: "handle_verified_packet C b1 (PacketData (sealed C ?si pkt)) n e5 (clk5 1)
      = Some (fst (validate_decapsulated_packet b3 pkt), Ok res)"
    using B3 validate_written(1) [OF pkt(1), of b3] by (simp add: map_prod_def case_prod_beta)
  show thesis
    by (rule that [OF decapsulate_data [where clk = clk4, OF C _ kept]
          decapsulate_data [where clk = clk5, OF C pkt(2) written]]) (use pkt(2) in simp)
qed

text \<open>The handshake part: one round trip through both tunnels and both limiters leaves a session on either
  side.\<close>

lemma tunnels_connect:
  assumes laws: "aead_correct C" "dh_correct C" "digest_lengths C"
    and pair: "paired C (tn_handshake a) (tn_handshake b)" and ring: "length (sessions a) = N_SESSIONS"
    and idle: "sessions a ! (current a mod N_SESSIONS) = None" "\<not> is_in_progress (tn_handshake a)" "packet_queue a = []"
    and limiters: "mac1_key rla = b2s_hash C LABEL_MAC1 (static_public (params (tn_handshake a)))" "rl_count rla < rl_limit rla"
      "mac1_key rlb = b2s_hash C LABEL_MAC1 (static_public (params (tn_handshake b)))" "rl_count rlb < rl_limit rlb"
    and ts: "tai64n_parse (stamp (stamper (tn_handshake a)) (clk1 1)) = Ok ts"
      "after ts (last_handshake_timestamp (tn_handshake b))"
    and n: "148 \<le> n" "92 \<le> n" "32 \<le> n"
  obtains a1 m1 b1 m2 a2 si sr where
    "encapsulate C a pkt n ea clk1 = (a1, Ok (WriteToNetwork m1))"
    "decapsulate C rlb b from_a m1 n eb clk2 = Some (rlb\<lparr>rl_count := rl_count rlb + 1\<rparr>, b1, Ok (WriteToNetwork m2))"
    "decapsulate C rla a1 from_b m2 n e3 clk3 = Some (rla\<lparr>rl_count := rl_count rla + 1\<rparr>, a2,
       Ok (WriteToNetwork (packet_wire (PacketData (sealed C si [])) [])))"
    "sessions b1 = (sessions b)[local_index sr mod N_SESSIONS := Some sr]"
    "sessions a2 = (sessions a)[local_index si mod N_SESSIONS := Some (si\<lparr>sending_key_counter := 1\<rparr>)]"
    "current a2 = local_index si" "packet_queue a2 = [pkt]"
    "sessions_match si sr" "sending_key_counter si = 0" "receiving_key_counter sr = default_validator"
proof -
  obtain i1 p1 macs1 r1 p2 macs2 i2 si sr where
    H: "format_handshake_initiation C (tn_handshake a) ea (clk1 1) (clk1 2) n = (i1, Ok (packet_wire (HandshakeInit p1) macs1))"
      "wf_packet (HandshakeInit p1) macs1" "macs1 = message_macs C (tn_handshake a) (packet_wire (HandshakeInit p1) [])"
      "receive_handshake_initialization C (tn_handshake b) p1 eb n = (r1, Ok (packet_wire (HandshakeResponse p2) macs2, sr))"
      "wf_packet (HandshakeResponse p2) macs2" "macs2 = message_macs C (tn_handshake b) (packet_wire (HandshakeResponse p2) [])"
      "receive_handshake_response C i1 p2 (clk3 1) = (i2, Ok si)" "sessions_match si sr" "sending_key_counter si = 0"
      "receiving_key_counter sr = default_validator"
    by (rule handshake_exchange [OF laws pair n(1,2) ts])
  have keys: "mac1_key rlb = sending_mac1_key (params (tn_handshake a))" "mac1_key rla = sending_mac1_key (params (tn_handshake b))"
    using pair limiters by (simp_all add: paired_def wf_params_def)
  obtain a1 where A1: "encapsulate C a pkt n ea clk1 = (a1, Ok (WriteToNetwork (packet_wire (HandshakeInit p1) macs1)))"
    "tn_handshake a1 = i1" "sessions a1 = sessions a" "current a1 = current a" "packet_queue a1 = [pkt]"
    by (rule encapsulate_starts [where clk = clk1, OF idle(1,2) H(1), of pkt])
      (use idle(3) in \<open>simp add: queue_packet_def MAX_QUEUE_DEPTH_def\<close>)
  have vb: "verify_packet C rlb from_a (packet_wire (HandshakeInit p1) macs1) (clk2 0) COOKIE_REPLY_SZ
      = (rlb\<lparr>rl_count := rl_count rlb + 1\<rparr>, Ok (HandshakeInit p1))"
    by (rule verify_formatted [OF laws(3) H(2) _ H(3) keys(1) limiters(4)]) simp
  obtain b1 where B1: "handle_verified_packet C b (HandshakeInit p1) n eb (clk2 1)
      = Some (b1, Ok (WriteToNetwork (packet_wire (HandshakeResponse p2) macs2)))"
    "sessions b1 = (sessions b)[local_index sr mod N_SESSIONS := Some sr]"
    by (rule handle_init_stores [OF H(4)])
  have va: "verify_packet C rla from_b (packet_wire (HandshakeResponse p2) macs2) (clk3 0) COOKIE_REPLY_SZ
      = (rla\<lparr>rl_count := rl_count rla + 1\<rparr>, Ok (HandshakeResponse p2))"
    by (rule verify_formatted [OF laws(3) H(5) _ H(6) keys(2) limiters(2)]) simp
  obtain a2 where A2: "handle_verified_packet C a1 (HandshakeResponse p2) n e3 (clk3 1)
      = Some (a2, Ok (WriteToNetwork (packet_wire (PacketData (sealed C si [])) [])))"
    "sessions a2 = (sessions a)[local_index si mod N_SESSIONS := Some (si\<lparr>sending_key_counter := 1\<rparr>)]"
    "current a2 = local_index si" "packet_queue a2 = [pkt]"
    by (rule handle_response_stores [of C a1 p2 "clk3 1" i2 si n]) (use H(7,9) A1 laws ring idle n in auto)
  show thesis
    by (rule that [OF A1(1) decapsulate_verified [where clk = clk2, OF vb packet_wire_not_Nil B1(1)]
        decapsulate_verified [where clk = clk3, OF va packet_wire_not_Nil A2(1)] B1(2) A2(2-4) H(8-10)])
qed

text \<open>C1. The first packet of an idle tunnel is delivered. Tunnel \<open>a\<close> has no session and no handshake under
  way; \<open>a\<close> and \<open>b\<close> have each other's keys; both rate limiters guard the right key and are below their
  limit; the timestamp is fresh. Then an IP packet given to \<open>a\<close> makes it send an initiation; \<open>b\<close> answers
  it; on the answer \<open>a\<close> sends a keepalive and then, on the repeated call, the waiting packet; \<open>b\<close> takes
  the keepalive silently and writes exactly the original packet to its interface, with its source address;
  and \<open>a\<close> has nothing left to send.\<close>

theorem first_packet_delivered:
  assumes laws: "aead_correct C" "dh_correct C" "digest_lengths C"
    and pair: "paired C (tn_handshake a) (tn_handshake b)"
    and ring: "length (sessions a) = N_SESSIONS" "length (sessions b) = N_SESSIONS"
    and idle: "sessions a ! (current a mod N_SESSIONS) = None" "\<not> is_in_progress (tn_handshake a)" "packet_queue a = []"
    and limiters: "mac1_key rla = b2s_hash C LABEL_MAC1 (static_public (params (tn_handshake a)))" "rl_count rla < rl_limit rla"
      "mac1_key rlb = b2s_hash C LABEL_MAC1 (static_public (params (tn_handshake b)))" "rl_count rlb < rl_limit rlb"
    and ts: "tai64n_parse (stamp (stamper (tn_handshake a)) (clk1 1)) = Ok ts"
      "after ts (last_handshake_timestamp (tn_handshake b))"
    and pkt: "write_to_tunnel pkt = Some res" "length pkt + 148 \<le> n"
  shows "\<exists>a1 m1 rlb1 b1 m2 rla1 a2 k a3 d b2 b3.
    encapsulate C a pkt n ea clk1 = (a1, Ok (WriteToNetwork m1))
    \<and> decapsulate C rlb b from_a m1 n eb clk2 = Some (rlb1, b1, Ok (WriteToNetwork m2))
    \<and> decapsulate C rla a1 from_b m2 n e3 clk3 = Some (rla1, a2, Ok (WriteToNetwork k))
    \<and> decapsulate C rla1 a2 from_b [] n e4 clk4 = Some (rla1, a3, Ok (WriteToNetwork d))
    \<and> decapsulate C rla1 a3 from_b [] n e5 clk5 = Some (rla1, a3, Ok Done)
    \<and> decapsulate C rlb1 b1 from_a k n e6 clk6 = Some (rlb1, b2, Ok Done)
    \<and> decapsulate C rlb1 b2 from_a d n e7 clk7 = Some (rlb1, b3, Ok res)"
proof -
  have n: "148 \<le> n" "92 \<le> n" "32 \<le> n" "length pkt + 32 \<le> n" using pkt(2) by simp_all
  obtain a1 m1 b1 m2 a2 si sr where
    A: "encapsulate C a pkt n ea clk1 = (a1, Ok (WriteToNetwork m1))"
    "decapsulate C rlb b from_a m1 n eb clk2 = Some (rlb\<lparr>rl_count := rl_count rlb + 1\<rparr>, b1, Ok (WriteToNetwork m2))"
    "decapsulate C rla a1 from_b m2 n e3 clk3 = Some (rla\<lparr>rl_count := rl_count rla + 1\<rparr>, a2,
       Ok (WriteToNetwork (packet_wire (PacketData (sealed C si [])) [])))"
    "sessions b1 = (sessions b)[local_index sr mod N_SESSIONS := Some sr]"
    "sessions a2 = (sessions a)[local_index si mod N_SESSIONS := Some (si\<lparr>sending_key_counter := 1\<rparr>)]"
    "current a2 = local_index si" "packet_queue a2 = [pkt]"
    "sessions_match si sr" "sending_key_counter si = 0" "receiving_key_counter sr = default_validator"
    by (rule tunnels_connect [where ?clk1.0 = clk1, OF laws pair ring(1) idle limiters ts n(1-3)])
  let ?a2 = "a2\<lparr>packet_queue := []\<rparr>"
  have slot: "sessions ?a2 ! (current ?a2 mod N_SESSIONS) = Some (si\<lparr>sending_key_counter := 1\<rparr>)"
    using ring(1) by (simp add: A N_SESSIONS_def)
  obtain a3 where A3: "encapsulate C ?a2 pkt n e4 clk4
      = (a3, Ok (WriteToNetwork (packet_wire (PacketData (sealed C (si\<lparr>sending_key_counter := 1\<rparr>) pkt)) [])))"
    "packet_queue a3 = []"
    by (rule encapsulate_sealed [OF slot laws(1) n(4)]) simp
  have queue: "decapsulate C rl a2 from_b [] n e4 clk4
      = Some (rl, a3, Ok (WriteToNetwork (packet_wire (PacketData (sealed C (si\<lparr>sending_key_counter := 1\<rparr>) pkt)) [])))"
    "decapsulate C rl a3 from_b [] n e5 clk5 = Some (rl, a3, Ok Done)" for rl
    using A(7) A3 by (simp_all add: decapsulate_def send_queued_packet_def dequeue_packet_def del: packet_wire.simps)
  have slotb: "sessions b1 ! (local_index sr mod N_SESSIONS) = Some sr" "length (sessions b1) = N_SESSIONS"
    using ring(2) by (simp_all add: A(4) N_SESSIONS_def)
  obtain b2 b3 where B: "decapsulate C (rlb\<lparr>rl_count := rl_count rlb + 1\<rparr>) b1 from_a (packet_wire (PacketData (sealed C si [])) []) n e6 clk6
       = Some (rlb\<lparr>rl_count := rl_count rlb + 1\<rparr>, b2, Ok Done)"
    "decapsulate C (rlb\<lparr>rl_count := rl_count rlb + 1\<rparr>) b2 from_a
       (packet_wire (PacketData (sealed C (si\<lparr>sending_key_counter := 1\<rparr>) pkt)) []) n e7 clk7
       = Some (rlb\<lparr>rl_count := rl_count rlb + 1\<rparr>, b3, Ok res)"
    by (rule deliver_keepalive_and_packet [OF laws(1) A(8,9,10) slotb pkt(1) n(4)])
  show ?thesis using A(1,2,3) queue B by blast
qed

lemma toy_pubkey: "pubkey toy_crypto (replicate 32 x) = replicate 32 x"
  by (simp add: toy_crypto_def fit_id)

theorem first_packet_delivered_witness:
  "\<exists>a1 m1 rlb1 b1 m2 rla1 a2 k a3 d b2 b3.
    encapsulate toy_crypto (fst (tunn_new toy_crypto (replicate 32 1) (replicate 32 2) None None 1 None [] [] 5000000000 (\<lambda>_. 0)))
      sample_packet 200 (replicate 32 7) (\<lambda>_. 3) = (a1, Ok (WriteToNetwork m1))
    \<and> decapsulate toy_crypto (snd (tunn_new toy_crypto (replicate 32 2) (replicate 32 1) None None 2 None [] [] 0 (\<lambda>_. 0)))
        (fst (tunn_new toy_crypto (replicate 32 2) (replicate 32 1) None None 2 None [] [] 0 (\<lambda>_. 0)))
        None m1 200 (replicate 32 8) (\<lambda>_. 4) = Some (rlb1, b1, Ok (WriteToNetwork m2))
    \<and> decapsulate toy_crypto (snd (tunn_new toy_crypto (replicate 32 1) (replicate 32 2) None None 1 None [] [] 5000000000 (\<lambda>_. 0)))
        a1 None m2 200 [] (\<lambda>_. 5) = Some (rla1, a2, Ok (WriteToNetwork k))
    \<and> decapsulate toy_crypto rla1 a2 None [] 200 [] (\<lambda>_. 6) = Some (rla1, a3, Ok (WriteToNetwork d))
    \<and> decapsulate toy_crypto rla1 a3 None [] 200 [] (\<lambda>_. 7) = Some (rla1, a3, Ok Done)
    \<and> decapsulate toy_crypto rlb1 b1 None k 200 [] (\<lambda>_. 8) = Some (rlb1, b2, Ok Done)
    \<and> decapsulate toy_crypto rlb1 b2 None d 200 [] (\<lambda>_. 9) = Some (rlb1, b3, Ok (WriteToTunnelV4 sample_packet 0x0A000001))"
proof -
  have pkt: "write_to_tunnel sample_packet = Some (WriteToTunnelV4 sample_packet 0x0A000001)" "length sample_packet = 20"
    by code_simp+
  have ts: "tai64n_parse (stamp (stamper (tn_handshake (fst (tunn_new toy_crypto (replicate 32 1) (replicate 32 2) None None 1
      None [] [] 5000000000 (\<lambda>_. 0))))) 3) = Ok \<lparr>secs = 5 + TAI64_BASE, nano = 3\<rparr>"
    by (simp add: parse_stamp tunn_new_def handshake_new_def stamper_new_def Let_def)
  show ?thesis
    by (rule first_packet_delivered [where ?clk1.0 = "\<lambda>_. 3", OF toy_crypto_laws(1,3,4) _ _ _ _ _ _ _ _ _ _ ts _ pkt(1)])
      (simp_all add: tunn_new_def handshake_new_def noise_params_new_def paired_def wf_params_def toy_pubkey is_in_progress_def
        after_def tai64n_zero_def TAI64_BASE_def rate_limiter_new_def PEER_HANDSHAKE_RATE_LIMIT_def N_SESSIONS_def pkt(2) Let_def)
qed

section \<open>Waiting packets\<close>

lemma format_initiation_keeps:
  "sessions (fst (tunn_format_handshake_initiation C t n f e clk)) = sessions t"
  "current (fst (tunn_format_handshake_initiation C t n f e clk)) = current t"
  "packet_queue (fst (tunn_format_handshake_initiation C t n f e clk)) = packet_queue t"
  "session_timers (tn_timers (fst (tunn_format_handshake_initiation C t n f e clk))) = session_timers (tn_timers t)"
  by (simp_all add: tunn_format_handshake_initiation_def timers_clear_def Let_def case_prod_beta split: rust.split)

lemma queue_packet_keeps:
  "sessions (queue_packet t p) = sessions t" "current (queue_packet t p) = current t"
  "session_timers (tn_timers (queue_packet t p)) = session_timers (tn_timers t)"
  "length (packet_queue t) \<le> 256 \<Longrightarrow> packet_queue (queue_packet t p) = take 256 (packet_queue t @ [p])"
  by (simp_all add: queue_packet_def MAX_QUEUE_DEPTH_def)

lemma encapsulate_all_queues:
  assumes "sessions t ! (current t mod N_SESSIONS) = None" and "length (packet_queue t) \<le> 256"
  shows "packet_queue (encapsulate_all C t n e clk ps) = take 256 (packet_queue t @ ps)"
  using assms
proof (induction ps arbitrary: t)
  case (Cons p ps)
  let ?t = "fst (encapsulate C t p n e clk)"
  have "sessions ?t = sessions t" "current ?t = current t" "packet_queue ?t = take 256 (packet_queue t @ [p])"
    using Cons.prems by (simp_all add: encapsulate_def format_initiation_keeps queue_packet_keeps)
  moreover have "take 256 (take 256 (packet_queue t @ [p]) @ ps) = take 256 (packet_queue t @ p # ps)"
    using Cons.prems(2) by (cases "256 - length (packet_queue t)") simp_all
  ultimately show ?case using Cons.prems(1) Cons.IH [of ?t] by (simp del: take_append)
qed simp

lemma drain_sends:
  assumes C: "aead_correct C" and "sessions t ! (current t mod N_SESSIONS) = Some s" and "length (sessions t) = N_SESSIONS"
    and "\<forall>p \<in> set (packet_queue t). length p + 32 \<le> n"
  shows "snd (drain C t n e clk (length (packet_queue t))) = map (Ok \<circ> WriteToNetwork) (snd (send_all C s (packet_queue t)))
    \<and> packet_queue (fst (drain C t n e clk (length (packet_queue t)))) = []"
  using assms(2-)
proof (induction "packet_queue t" arbitrary: t s)
  case Nil
  then show ?case by simp
next
  case (Cons p q)
  let ?s = "s\<lparr>sending_key_counter := sending_key_counter s + 1\<rparr>"
  let ?t = "t\<lparr>packet_queue := q\<rparr>"
  have p: "length p + 32 \<le> n" and q: "\<forall>p \<in> set q. length p + 32 \<le> n" using Cons.prems(3) Cons.hyps(2) by (metis list.set_intros)+
  have slot: "sessions ?t ! (current ?t mod N_SESSIONS) = Some s" using Cons.prems(1) by simp
  obtain t' where t': "encapsulate C ?t p n e clk = (t', Ok (WriteToNetwork (packet_wire (PacketData (sealed C s p)) [])))"
    "sessions t' = (sessions ?t)[current ?t mod N_SESSIONS := Some ?s]" "current t' = current ?t" "packet_queue t' = packet_queue ?t"
    by (rule encapsulate_sealed [OF slot C p])
  have "sessions t' ! (current t' mod N_SESSIONS) = Some ?s" "length (sessions t') = N_SESSIONS" "q = packet_queue t'"
    using t' Cons.prems(2) by (simp_all add: N_SESSIONS_def)
  then have "snd (drain C t' n e clk (length q)) = map (Ok \<circ> WriteToNetwork) (snd (send_all C ?s q))
    \<and> packet_queue (fst (drain C t' n e clk (length q))) = []"
    using Cons.hyps(1) [of t' ?s] q by simp
  then show ?case
    using t'(1) by (simp add: Cons.hyps(2) [symmetric] send_queued_packet_def dequeue_packet_def send_all_Cons [OF C]
        case_prod_beta del: packet_wire.simps send_all.simps)
qed

text \<open>C24. Packets wait in order: packets given to a tunnel without a session are kept in the order in which
  they came, the first 256 of them; and when a session is there, the repeated calls with an empty datagram
  send exactly these packets, sealed in this order with consecutive counters, and empty the queue.\<close>

theorem waiting_packets_in_order:
  assumes "aead_correct C" and "sessions t ! (current t mod N_SESSIONS) = None" and "packet_queue t = []"
    and "packet_queue t1 = packet_queue (encapsulate_all C t n e clk ps)"
    and "sessions t1 ! (current t1 mod N_SESSIONS) = Some s" and "length (sessions t1) = N_SESSIONS"
    and "\<forall>p \<in> set ps. length p + 32 \<le> n"
  shows "packet_queue t1 = take 256 ps
    \<and> snd (drain C t1 n e clk (length (packet_queue t1))) = map (Ok \<circ> WriteToNetwork) (snd (send_all C s (take 256 ps)))
    \<and> packet_queue (fst (drain C t1 n e clk (length (packet_queue t1)))) = []"
proof -
  have q: "packet_queue t1 = take 256 ps" using encapsulate_all_queues [OF assms(2)] assms(3,4) by simp
  have "\<forall>p \<in> set (packet_queue t1). length p + 32 \<le> n" using assms(7) by (auto simp: q dest: in_set_takeD)
  from drain_sends [OF assms(1,5,6) this] q show ?thesis by simp
qed

theorem waiting_packets_in_order_witness:
  "packet_queue (encapsulate_all toy_crypto
     (fst (tunn_new toy_crypto (replicate 32 1) (replicate 32 2) None None 1 None [] [] 0 (\<lambda>_. 0))) 200 [] (\<lambda>_. 0) [[1], [2, 3]])
   = take 256 [[1], [2, 3]]"
proof -
  let ?t = "fst (tunn_new toy_crypto (replicate 32 1) (replicate 32 2) None None 1 None [] [] 0 (\<lambda>_. 0))"
  let ?q = "packet_queue (encapsulate_all toy_crypto ?t 200 [] (\<lambda>_. 0) [[1], [2, 3]])"
  have new: "sessions ?t ! (current ?t mod N_SESSIONS) = None" "packet_queue ?t = []"
    by (simp_all add: tunn_new_def N_SESSIONS_def Let_def)
  obtain t1 :: tunn where t1: "packet_queue t1 = ?q" "sessions t1 ! (current t1 mod N_SESSIONS) = Some (session_new 1 2 [] [])"
      "length (sessions t1) = N_SESSIONS"
    by (rule that [of "?t\<lparr>packet_queue := ?q, sessions := replicate N_SESSIONS (Some (session_new 1 2 [] []))\<rparr>"])
      (simp_all add: N_SESSIONS_def del: encapsulate_all.simps)
  have small: "\<forall>p \<in> set [[1], [2, 3]]. length (p :: bytes) + 32 \<le> 200" by simp
  have "packet_queue t1 = take 256 [[1], [2, 3]]"
    by (rule waiting_packets_in_order [OF toy_crypto_laws(1) new t1 small, THEN conjunct1])
  with t1(1) show ?thesis by (rule trans [OF sym])
qed

section \<open>Expiry and retries\<close>

lemma nth_update_None: "xs ! i = Some y \<Longrightarrow> xs[i := Some z] ! j = None \<longleftrightarrow> xs ! j = None"
  by (cases "i < length xs") (auto simp: nth_list_update list_update_beyond)

lemma encapsulate_keeps:
  "session_timers (tn_timers (fst (encapsulate C t src n e clk))) = session_timers (tn_timers t)"
  "sessions (fst (encapsulate C t src n e clk)) ! i = None \<longleftrightarrow> sessions t ! i = None"
  by (auto simp: encapsulate_def format_initiation_keeps queue_packet_keeps nth_update_None Let_def
      split: option.split prod.split rust.split)

text \<open>What the timers leave: a session still in its slot was established at most \<open>REJECT_AFTER_TIME\<close> ago.\<close>

definition young :: "nat \<Rightarrow> tunn \<Rightarrow> bool" where
  "young now t \<longleftrightarrow> (\<forall>i < 8. sessions t ! i \<noteq> None \<longrightarrow> now - session_timers (tn_timers t) ! i \<le> REJECT_AFTER_TIME)"

lemma young_cong:
  "(\<And>i. sessions t' ! i = None \<longleftrightarrow> sessions t ! i = None) \<Longrightarrow> session_timers (tn_timers t') = session_timers (tn_timers t) \<Longrightarrow>
   young now t' = young now t"
  by (simp add: young_def)

lemma young_give_up: "length (sessions t) = 8 \<Longrightarrow> young now (give_up t reading)"
  by (simp add: young_def give_up_def clear_all_def)

text \<open>What the timers decide on, once the sessions are checked: \<open>u\<close> is the tunnel after that.\<close>

lemma timers_decide_unfold:
  assumes ok: "tunn_ok m reading t" and now: "now = tm (tn_timers t) TimeCurrent"
  obtains u where "tunn_ok m reading u" "young now u" "now = tm (tn_timers u) TimeCurrent"
    "tn_timers u = (tn_timers t)\<lparr>session_timers := session_timers (tn_timers u)\<rparr>"
    "packet_queue u = packet_queue t" "state (tn_handshake u) = state (tn_handshake t)"
    "next_index (tn_handshake u) = next_index (tn_handshake t)"
    "timers_decide t now clk =
       (if handshake_is_expired (tn_handshake u) then Err u
        else if REJECT_AFTER_TIME * 3 \<le> now - tm (tn_timers u) TimeSessionEstablished then Err (give_up u (clk 2))
        else case timer (tn_handshake u) of
            Some sent \<Rightarrow>
              if REKEY_ATTEMPT_TIME \<le> now - tm (tn_timers u) TimeLastHandshakeStarted then Err (give_up u (clk 2))
              else Ok (u, clk 3 - sent \<ge> REKEY_TIMEOUT, False)
          | None \<Rightarrow> decide_idle u now)"
proof -
  obtain w where w: "update_session_timers t now = Ok w" "sessions_ok (sessions w)" "timers_ok reading (tn_timers w)"
    "tn_timers w = (tn_timers t)\<lparr>session_timers := session_timers (tn_timers w)\<rparr>"
    "w = t\<lparr>tn_timers := tn_timers w, sessions := sessions w\<rparr>"
    "\<And>i. i < 8 \<Longrightarrow> session_timers (tn_timers w) ! i =
       (if now - session_timers (tn_timers t) ! i > REJECT_AFTER_TIME then now else session_timers (tn_timers t) ! i)"
    by (rule update_session_timers_spec [of t reading now]) (use ok now in \<open>auto simp: tunn_ok_def\<close>)
  have q: "packet_queue w = packet_queue t" "tn_handshake w = tn_handshake t" by (subst w(5), simp)+
  have okw: "tunn_ok m reading w" using ok w(2,3) q by (simp add: tunn_ok_def)
  have now': "now = tm (tn_timers w) TimeCurrent" unfolding now by (subst w(4)) simp
  have el: "elapsed_ge now (tm (tn_timers w) n) d = Ok (d \<le> now - tm (tn_timers w) n)" for n d
    using timers_bounded [OF okw] now' by (simp add: elapsed_ge_Ok)
  have y: "young now w" using w(6) by (auto simp: young_def)
  define stale where "stale \<longleftrightarrow> has_cookie (tn_handshake w) \<and> \<not> handshake_is_expired (tn_handshake w)
    \<and> COOKIE_EXPIRATION_TIME \<le> now - tm (tn_timers w) TimeCookieReceived"
  define u where "u = (if stale then w\<lparr>tn_handshake := clear_cookie (tn_handshake w)\<rparr> else w)"
  have u: "tn_timers u = tn_timers w" "packet_queue u = packet_queue w" "sessions u = sessions w"
    "state (tn_handshake u) = state (tn_handshake w)" "next_index (tn_handshake u) = next_index (tn_handshake w)"
    by (simp_all add: u_def clear_cookie_def)
  have "young now u" using y u by (simp add: young_def)
  moreover have "tunn_ok m reading u" using okw by (simp add: u_def)
  moreover have "timers_decide t now clk =
       (if handshake_is_expired (tn_handshake u) then Err u
        else if REJECT_AFTER_TIME * 3 \<le> now - tm (tn_timers u) TimeSessionEstablished then Err (give_up u (clk 2))
        else case timer (tn_handshake u) of
            Some sent \<Rightarrow>
              if REKEY_ATTEMPT_TIME \<le> now - tm (tn_timers u) TimeLastHandshakeStarted then Err (give_up u (clk 2))
              else Ok (u, clk 3 - sent \<ge> REKEY_TIMEOUT, False)
          | None \<Rightarrow> decide_idle u now)"
  proof (cases "handshake_is_expired (tn_handshake w)")
    case True
    then show ?thesis by (simp add: timers_decide_def w(1) u_def stale_def)
  next
    case False
    then have cookie: "(if has_cookie (tn_handshake w) then elapsed_ge now (tm (tn_timers w) TimeCookieReceived) COOKIE_EXPIRATION_TIME
        else Ok False) = Ok stale" by (simp add: el stale_def)
    have "\<not> handshake_is_expired (tn_handshake u)" using False u(4) by (simp add: handshake_is_expired_def)
    then show ?thesis
      unfolding timers_decide_def w(1) rbind.simps cookie Let_def u_def [symmetric]
      unfolding u(1) el by (simp add: False split: option.split)
  qed
  ultimately show thesis
    using w(4) now' q u by (intro that [of u]) simp_all
qed



lemma format_initiation_sends:
  assumes "148 \<le> n" and "\<not> handshake_is_expired (tn_handshake t)"
  obtains t' p macs where
    "tunn_format_handshake_initiation C t n True e clk = (t', Ok (WriteToNetwork (packet_wire (HandshakeInit p) macs)))"
    "hi_sender_idx p = snd (inc_index (tn_handshake t))" "packet_queue t' = packet_queue t" "sessions t' = sessions t"
    "timer (tn_handshake t') = Some (clk 2)"
proof -
  obtain hs macs where f: "format_handshake_initiation C (tn_handshake t) e (clk 1) (clk 2) n =
      (hs, Ok (packet_wire (HandshakeInit (init_packet C (tn_handshake t) e (clk 1))) macs))" "timer hs = Some (clk 2)"
    using format_handshake_initiation_eq [OF assms(1), of C "tn_handshake t" e "clk 1" "clk 2"] by (auto simp: timer_def)
  show thesis
    by (rule that [of "fst (tunn_format_handshake_initiation C t n True e clk)" "init_packet C (tn_handshake t) e (clk 1)" macs])
      (use f assms(2) in \<open>simp_all add: tunn_format_handshake_initiation_def init_packet_def Let_def case_prod_beta
         del: packet_wire.simps\<close>)
qed



end
