(* ===== verification/Rust_Text.thy ===== *)
theory Rust_Text
  imports Veil_Prelude
begin

text \<open>
  The part of Rust's string library that the sources use: the bytes of a string, prefixes, splitting,
  ASCII case, and numbers in decimal and hexadecimal (\<^verbatim>\<open>parse\<close>, \<^verbatim>\<open>from_str_radix\<close>, \<^verbatim>\<open>to_string\<close>). A Rust
  string is the list of its UTF-8 bytes, written as characters.
\<close>

section \<open>Definitions\<close>

definition as_bytes :: "string \<Rightarrow> bytes" where
  "as_bytes s = map (\<lambda>c. of_nat (of_char c)) s"

fun strip_prefix :: "string \<Rightarrow> string \<Rightarrow> string option" where
  "strip_prefix [] s = Some s"
| "strip_prefix (p # ps) [] = None"
| "strip_prefix (p # ps) (c # cs) = (if p = c then strip_prefix ps cs else None)"

definition strip_0x :: "string \<Rightarrow> string" where
  "strip_0x s = (case strip_prefix ''0x'' s of Some r \<Rightarrow> r | None \<Rightarrow> s)"

definition to_ascii_lowercase :: "char \<Rightarrow> char" where
  "to_ascii_lowercase c =
     (let n = of_char c :: nat in if 65 \<le> n \<and> n \<le> 90 then char_of (n + 32) else c)"

definition eq_ignore_ascii_case :: "string \<Rightarrow> string \<Rightarrow> bool" where
  "eq_ignore_ascii_case s t \<longleftrightarrow> map to_ascii_lowercase s = map to_ascii_lowercase t"

definition to_digit :: "nat \<Rightarrow> char \<Rightarrow> nat option" where
  "to_digit base c =
     (let n = of_char c;
          d = (if 48 \<le> n \<and> n \<le> 57 then n - 48
               else if 97 \<le> n \<and> n \<le> 122 then n - 87
               else if 65 \<le> n \<and> n \<le> 90 then n - 55 else 36)
      in if d < base then Some d else None)"

fun parse_digits :: "nat \<Rightarrow> nat \<Rightarrow> string \<Rightarrow> nat option" where
  "parse_digits base acc [] = Some acc"
| "parse_digits base acc (c # cs) =
     (case to_digit base c of None \<Rightarrow> None | Some d \<Rightarrow> parse_digits base (acc * base + d) cs)"

text \<open>\<^verbatim>\<open>uN::from_str_radix\<close>: an optional plus sign and at least one digit; a value above \<open>max\<close> is an error.\<close>

definition from_str_radix :: "nat \<Rightarrow> nat \<Rightarrow> string \<Rightarrow> nat option" where
  "from_str_radix base bound s =
     (let body = (case s of c # cs \<Rightarrow> if c = CHR ''+'' then cs else s | [] \<Rightarrow> []) in
      if body = [] then None
      else case parse_digits base 0 body of
          Some n \<Rightarrow> if n \<le> bound then Some n else None
        | None \<Rightarrow> None)"

definition parse_u64 :: "string \<Rightarrow> u64 option" where
  "parse_u64 s = map_option of_nat (from_str_radix 10 (2 ^ 64 - 1) s)"

definition parse_u32 :: "string \<Rightarrow> u32 option" where
  "parse_u32 s = map_option of_nat (from_str_radix 10 (2 ^ 32 - 1) s)"

definition parse_u16 :: "string \<Rightarrow> u16 option" where
  "parse_u16 s = map_option of_nat (from_str_radix 10 (2 ^ 16 - 1) s)"

definition parse_u8 :: "string \<Rightarrow> u8 option" where
  "parse_u8 s = map_option of_nat (from_str_radix 10 (2 ^ 8 - 1) s)"

text \<open>\<^verbatim>\<open>to_string\<close> of an unsigned integer.\<close>

fun to_dec :: "nat \<Rightarrow> string" where
  "to_dec n = (if n < 10 then [char_of (48 + n)] else to_dec (n div 10) @ [char_of (48 + n mod 10)])"

declare to_dec.simps [simp del]

text \<open>\<^verbatim>\<open>split\<close> at a character.\<close>

fun split_on :: "char \<Rightarrow> string \<Rightarrow> string list" where
  "split_on sep [] = [[]]"
| "split_on sep (c # cs) =
     (if c = sep then [] # split_on sep cs
      else case split_on sep cs of w # ws \<Rightarrow> (c # w) # ws | [] \<Rightarrow> [[c]])"

definition is_space :: "char \<Rightarrow> bool" where
  "is_space c \<longleftrightarrow> of_char c \<in> {9, 10, 11, 12, 13, 32 :: nat}"

definition trim :: "string \<Rightarrow> string" where
  "trim s = rev (dropWhile is_space (rev (dropWhile is_space s)))"

section \<open>Numbers\<close>

lemma byte_of_char_eq: "(of_nat (of_char c) :: u8) = of_nat (of_char d) \<longleftrightarrow> c = d"
proof
  assume eq: "(of_nat (of_char c) :: u8) = of_nat (of_char d)"
  have "of_char c mod 256 = (of_char d mod 256 :: nat)"
    using arg_cong [OF eq, of unat] by (simp add: unat_of_nat)
  then have "of_char c = (of_char d :: nat)" by simp
  then have "char_of (of_char c :: nat) = char_of (of_char d :: nat)" by simp
  then show "c = d" by (simp only: char_of_char)
qed simp

lemma as_bytes_inj: "as_bytes s = as_bytes t \<longleftrightarrow> s = t"
proof -
  have "inj (\<lambda>c. of_nat (of_char c) :: u8)" by (simp add: inj_def byte_of_char_eq)
  then show ?thesis by (simp add: as_bytes_def inj_map_eq_map)
qed

lemma length_as_bytes [simp]: "length (as_bytes s) = length s"
  by (simp add: as_bytes_def)

lemma to_digit_dec: "n < 10 \<Longrightarrow> to_digit 10 (char_of (48 + n)) = Some n"
  by (simp add: to_digit_def of_char_of Let_def)

lemma parse_digits_append:
  "parse_digits base acc (s @ t) = (case parse_digits base acc s of None \<Rightarrow> None | Some a \<Rightarrow> parse_digits base a t)"
  by (induction s arbitrary: acc) (auto split: option.split)

lemma parse_to_dec: "parse_digits 10 0 (to_dec n) = Some n"
proof (induction n rule: to_dec.induct)
  case (1 n)
  show ?case
  proof (cases "n < 10")
    case True
    then show ?thesis by (subst to_dec.simps) (simp add: to_digit_dec)
  next
    case False
    then show ?thesis
      using 1 by (subst to_dec.simps) (simp add: parse_digits_append to_digit_dec)
  qed
qed

lemma to_dec_hd: "to_dec n \<noteq> [] \<and> hd (to_dec n) \<noteq> CHR ''+''"
proof (induction n rule: to_dec.induct)
  case (1 n)
  have "char_of (48 + n mod 10) \<noteq> CHR ''+''" for n :: nat
  proof
    assume "char_of (48 + n mod 10) = CHR ''+''"
    then have "of_char (char_of (48 + n mod 10)) = (of_char CHR ''+'' :: nat)" by simp
    moreover have "48 + n mod 10 < 256" using mod_less_divisor [of 10 n] by linarith
    ultimately show False by (simp add: of_char_of)
  qed
  from this [of n] show ?case using 1 by (subst (1 2) to_dec.simps) auto
qed

lemma from_str_radix_to_dec: "n \<le> bound \<Longrightarrow> from_str_radix 10 bound (to_dec n) = Some n"
proof -
  assume n: "n \<le> bound"
  have "(case to_dec n of c # cs \<Rightarrow> if c = CHR ''+'' then cs else to_dec n | [] \<Rightarrow> []) = to_dec n"
    using to_dec_hd [of n] by (cases "to_dec n") auto
  then show ?thesis using n to_dec_hd [of n] unfolding from_str_radix_def Let_def by (simp add: parse_to_dec)
qed

lemma parse_u64_to_dec: "parse_u64 (to_dec (unat w)) = Some w"
proof -
  have "unat w \<le> 2 ^ 64 - 1" using unsigned_less [of w, where 'a = nat] by simp
  then show ?thesis by (simp only: parse_u64_def from_str_radix_to_dec) simp
qed

lemma to_dec_inj: "to_dec m = to_dec n \<longleftrightarrow> m = n"
  by (metis option.inject parse_to_dec)

end
