(* ===== verification/Eth_Wallet.thy ===== *)
theory Eth_Wallet
  imports Payment_Protocol Rust_Text
begin

text \<open>
  The payment configuration (\<^verbatim>\<open>protocol/boringtun/src/payment/mod.rs\<close>), the wallet derived from the
  WireGuard key (\<^verbatim>\<open>payment/wallet.rs\<close>) and the EIP-3009 transfer authorisations it signs
  (\<^verbatim>\<open>payment/eip3009.rs\<close>).

  The primitives of the crates \<^verbatim>\<open>sha3\<close>, \<^verbatim>\<open>hkdf\<close>, \<^verbatim>\<open>k256\<close> and \<^verbatim>\<open>hex\<close> are the fields of a record that the
  operations take as a parameter; \<open>eth_correct\<close> states what is relied on: lengths, that recovering the key
  from a signature returns the signer's, and that hexadecimal decoding inverts encoding. \<open>toy_eth\<close>
  satisfies it. Collision resistance is not assumed: what a digest binds is stated up to an explicit
  collision between the byte strings that were hashed.
\<close>

section \<open>Definitions\<close>

text \<open>\<open>key_point\<close> is the uncompressed public key (65 bytes), \<open>ecdsa_recover\<close> combines the parsing of the
  recovery id and of the signature with the recovery of the uncompressed key.\<close>

record eth_crypto =
  keccak :: "bytes \<Rightarrow> bytes"
  hkdf :: "bytes \<Rightarrow> bytes \<Rightarrow> bytes \<Rightarrow> bytes"
  key_valid :: "bytes \<Rightarrow> bool"
  key_point :: "bytes \<Rightarrow> bytes"
  ecdsa_sign :: "bytes \<Rightarrow> bytes \<Rightarrow> (bytes \<times> u8) option"
  ecdsa_recover :: "bytes \<Rightarrow> bytes \<Rightarrow> u8 \<Rightarrow> bytes option"
  hex_encode :: "bytes \<Rightarrow> string"
  hex_decode :: "string \<Rightarrow> bytes option"

definition eth_correct :: "eth_crypto \<Rightarrow> bool" where
  "eth_correct E \<longleftrightarrow> (\<forall>x. length (keccak E x) = 32)
     \<and> (\<forall>k d. key_valid E k \<longrightarrow> (\<exists>sig v. ecdsa_sign E k d = Some (sig, v) \<and> length sig = 64 \<and> unat v \<le> 3
            \<and> ecdsa_recover E d sig v = Some (key_point E k)))
     \<and> (\<forall>x. hex_decode E (hex_encode E x) = Some x)"

definition toy_eth :: eth_crypto where
  "toy_eth = \<lparr>keccak = (\<lambda>x. take 32 (x @ replicate 32 0)), hkdf = (\<lambda>s k i. k), key_valid = (\<lambda>k. length k = 32), key_point = (\<lambda>k. 4 # k),
     ecdsa_sign = (\<lambda>k d. Some (k @ replicate 32 1, 0)), ecdsa_recover = (\<lambda>d sig v. Some (4 # take 32 sig)),
     hex_encode = map (\<lambda>b. char_of (unat b)), hex_decode = (\<lambda>s. Some (as_bytes s))\<rparr>"

subsection \<open>Configuration\<close>

record payment_config =
  cfg_chain_id :: u64
  cfg_usdc_contract :: bytes
  amount_per_quota :: u64
  quota_bytes :: u64
  usdc_name :: string
  usdc_version :: string
  gateway_wallet :: bytes
  gateway_name :: string
  gateway_version :: string
  gateway_api_url :: string
  rpc_url :: string
  is_server :: bool

record eip712_domain =
  dom_name :: string
  dom_version :: string
  dom_chain_id :: u64
  verifying_contract :: bytes

text \<open>The environment of the process is a parameter.\<close>

definition env_or :: "(string \<Rightarrow> string option) \<Rightarrow> string \<Rightarrow> string \<Rightarrow> string" where
  "env_or env key dflt = (case env key of Some v \<Rightarrow> v | None \<Rightarrow> dflt)"

definition hex_to_address :: "eth_crypto \<Rightarrow> string \<Rightarrow> (unit, bytes) rust" where
  "hex_to_address E s =
     (case hex_decode E (strip_0x s) of
        None \<Rightarrow> Panic
      | Some bs \<Rightarrow> if length bs = 20 then Ok bs else Panic)"

definition default_config :: "eth_crypto \<Rightarrow> (string \<Rightarrow> string option) \<Rightarrow> (unit, payment_config) rust" where
  "default_config E env =
     (let server = (case env ''BT_PAYMENT_SERVER'' of
            Some v \<Rightarrow> v = ''1'' \<or> eq_ignore_ascii_case v ''true'' | None \<Rightarrow> False);
          chain = (case parse_u64 (env_or env ''BT_CHAIN_ID'' ''5042002'') of Some n \<Rightarrow> n | None \<Rightarrow> 5042002)
      in rbind (hex_to_address E (env_or env ''BT_USDC_CONTRACT'' ''3600000000000000000000000000000000000000'')) (\<lambda>usdc.
         rbind (hex_to_address E (env_or env ''BT_GATEWAY_WALLET'' ''0077777d7EBA4688BDeF3E311b846F25870A19B9'')) (\<lambda>gateway.
         let quota_mb = (case parse_u64 (env_or env ''BT_QUOTA_MB'' ''10'') of Some n \<Rightarrow> n | None \<Rightarrow> 10);
             amount = (case parse_u64 (env_or env ''BT_PAYMENT_AMOUNT'' ''10000'') of Some n \<Rightarrow> n | None \<Rightarrow> 10000)
         in Ok \<lparr>cfg_chain_id = chain, cfg_usdc_contract = usdc, amount_per_quota = amount,
             quota_bytes = quota_mb * 1024 * 1024, usdc_name = ''USDC'', usdc_version = ''2'',
             gateway_wallet = gateway, gateway_name = ''GatewayWalletBatched'', gateway_version = ''1'',
             gateway_api_url = env_or env ''BT_GATEWAY_API'' ''https://gateway-api-testnet.circle.com'',
             rpc_url = env_or env ''BT_RPC_URL'' ''https://rpc.testnet.arc.network'', is_server = server\<rparr>)))"

definition usdc_domain :: "payment_config \<Rightarrow> eip712_domain" where
  "usdc_domain c = \<lparr>dom_name = usdc_name c, dom_version = usdc_version c, dom_chain_id = cfg_chain_id c,
     verifying_contract = cfg_usdc_contract c\<rparr>"

definition gateway_domain :: "payment_config \<Rightarrow> eip712_domain" where
  "gateway_domain c = \<lparr>dom_name = gateway_name c, dom_version = gateway_version c, dom_chain_id = cfg_chain_id c,
     verifying_contract = gateway_wallet c\<rparr>"

subsection \<open>Wallet\<close>

definition HKDF_SALT :: bytes where "HKDF_SALT = as_bytes ''boringtun-payment-v1''"
definition HKDF_INFO :: bytes where "HKDF_INFO = as_bytes ''secp256k1-signing-key''"

record payment_wallet =
  signing_key :: bytes
  ethereum_address :: bytes

definition compute_address :: "eth_crypto \<Rightarrow> bytes \<Rightarrow> bytes" where
  "compute_address E key = drop 12 (keccak E (drop 1 (key_point E key)))"

definition from_wireguard_key :: "eth_crypto \<Rightarrow> bytes \<Rightarrow> (unit, payment_wallet) rust" where
  "from_wireguard_key E x25519_private =
     (let derived = hkdf E HKDF_SALT x25519_private HKDF_INFO in
      if \<not> key_valid E derived then Panic
      else Ok \<lparr>signing_key = derived, ethereum_address = compute_address E derived\<rparr>)"

definition ethereum_address_hex :: "eth_crypto \<Rightarrow> payment_wallet \<Rightarrow> string" where
  "ethereum_address_hex E w = ''0x'' @ hex_encode E (ethereum_address w)"

definition sign_digest :: "eth_crypto \<Rightarrow> payment_wallet \<Rightarrow> bytes \<Rightarrow> (unit, u8 \<times> bytes \<times> bytes) rust" where
  "sign_digest E w digest =
     (case ecdsa_sign E (signing_key w) digest of
        None \<Rightarrow> Panic
      | Some (sig_bytes, recovery_id) \<Rightarrow> Ok (recovery_id + 27, take 32 sig_bytes, drop 32 sig_bytes))"

definition recover_address :: "eth_crypto \<Rightarrow> bytes \<Rightarrow> u8 \<Rightarrow> bytes \<Rightarrow> bytes \<Rightarrow> bytes option" where
  "recover_address E digest v r s =
     (if v < 27 then None
      else case ecdsa_recover E digest (r @ s) (v - 27) of
          None \<Rightarrow> None
        | Some point \<Rightarrow> Some (drop 12 (keccak E (drop 1 point))))"

subsection \<open>EIP-3009 authorisations\<close>

record transfer_authorization =
  auth_from :: bytes
  auth_to :: bytes
  auth_value :: u64
  auth_valid_after :: u64
  auth_valid_before :: u64
  auth_nonce :: bytes

record signed_authorization =
  sa_auth :: transfer_authorization
  sa_v :: u8
  sa_r :: bytes
  sa_s :: bytes

definition abi_encode_address :: "bytes \<Rightarrow> bytes" where
  "abi_encode_address addr = replicate 12 0 @ addr"

definition abi_encode_u256 :: "u128 \<Rightarrow> bytes" where
  "abi_encode_u256 value = replicate 16 0 @ be_bytes 16 value"

definition eip712_domain_type_hash :: "eth_crypto \<Rightarrow> bytes" where
  "eip712_domain_type_hash E =
     keccak E (as_bytes ''EIP712Domain(string name,string version,uint256 chainId,address verifyingContract)'')"

definition transfer_authorization_type_hash :: "eth_crypto \<Rightarrow> bytes" where
  "transfer_authorization_type_hash E =
     keccak E (as_bytes (''TransferWithAuthorization(address from,address to,uint256 value,'' @
       ''uint256 validAfter,uint256 validBefore,bytes32 nonce)''))"

definition domain_preimage :: "eth_crypto \<Rightarrow> eip712_domain \<Rightarrow> bytes" where
  "domain_preimage E d = eip712_domain_type_hash E @ keccak E (as_bytes (dom_name d)) @ keccak E (as_bytes (dom_version d))
     @ abi_encode_u256 (ucast (dom_chain_id d)) @ abi_encode_address (verifying_contract d)"

definition compute_domain_separator :: "eth_crypto \<Rightarrow> eip712_domain \<Rightarrow> bytes" where
  "compute_domain_separator E d = keccak E (domain_preimage E d)"

definition struct_preimage :: "eth_crypto \<Rightarrow> transfer_authorization \<Rightarrow> bytes" where
  "struct_preimage E a = transfer_authorization_type_hash E @ abi_encode_address (auth_from a) @ abi_encode_address (auth_to a)
     @ abi_encode_u256 (ucast (auth_value a)) @ abi_encode_u256 (ucast (auth_valid_after a))
     @ abi_encode_u256 (ucast (auth_valid_before a)) @ auth_nonce a"

definition compute_struct_hash :: "eth_crypto \<Rightarrow> transfer_authorization \<Rightarrow> bytes" where
  "compute_struct_hash E a = keccak E (struct_preimage E a)"

definition digest_preimage :: "eth_crypto \<Rightarrow> eip712_domain \<Rightarrow> transfer_authorization \<Rightarrow> bytes" where
  "digest_preimage E d a = [0x19, 0x01] @ compute_domain_separator E d @ compute_struct_hash E a"

definition compute_eip712_digest :: "eth_crypto \<Rightarrow> eip712_domain \<Rightarrow> transfer_authorization \<Rightarrow> bytes" where
  "compute_eip712_digest E d a = keccak E (digest_preimage E d a)"

definition sign_authorization ::
    "eth_crypto \<Rightarrow> payment_wallet \<Rightarrow> eip712_domain \<Rightarrow> transfer_authorization \<Rightarrow> (unit, signed_authorization) rust" where
  "sign_authorization E w d a =
     rbind (sign_digest E w (compute_eip712_digest E d a)) (\<lambda>(v, r, s).
     Ok \<lparr>sa_auth = a, sa_v = v, sa_r = r, sa_s = s\<rparr>)"

definition verify_authorization :: "eth_crypto \<Rightarrow> eip712_domain \<Rightarrow> signed_authorization \<Rightarrow> bytes option" where
  "verify_authorization E d sa =
     recover_address E (compute_eip712_digest E d (sa_auth sa)) (sa_v sa) (sa_r sa) (sa_s sa)"

text \<open>Lengths of the fields, a wallet of a valid key, and two byte strings that collide among those hashed
  for two authorisations.\<close>

definition wf_domain :: "eip712_domain \<Rightarrow> bool" where
  "wf_domain d \<longleftrightarrow> length (verifying_contract d) = 20"

definition wf_authorization :: "transfer_authorization \<Rightarrow> bool" where
  "wf_authorization a \<longleftrightarrow> length (auth_from a) = 20 \<and> length (auth_to a) = 20 \<and> length (auth_nonce a) = 32"

definition wf_wallet :: "eth_crypto \<Rightarrow> payment_wallet \<Rightarrow> bool" where
  "wf_wallet E w \<longleftrightarrow> key_valid E (signing_key w) \<and> ethereum_address w = compute_address E (signing_key w)"

definition hashed :: "eth_crypto \<Rightarrow> eip712_domain \<Rightarrow> transfer_authorization \<Rightarrow> bytes list" where
  "hashed E d a = [as_bytes (dom_name d), as_bytes (dom_version d), domain_preimage E d, struct_preimage E a, digest_preimage E d a]"

definition collide :: "eth_crypto \<Rightarrow> bytes list \<Rightarrow> bytes list \<Rightarrow> bool" where
  "collide E xs ys \<longleftrightarrow> list_ex (\<lambda>(x, y). x \<noteq> y \<and> keccak E x = keccak E y) (zip xs ys)"

definition sample_domain :: eip712_domain where
  "sample_domain = \<lparr>dom_name = ''USDC'', dom_version = ''2'', dom_chain_id = 5042002, verifying_contract = replicate 20 1\<rparr>"

definition sample_authorization :: transfer_authorization where
  "sample_authorization = \<lparr>auth_from = replicate 20 1, auth_to = replicate 20 2, auth_value = 10000, auth_valid_after = 0,
     auth_valid_before = 1000000000, auth_nonce = replicate 32 7\<rparr>"

section \<open>Wallets\<close>

lemma toy_eth_correct [simp]: "eth_correct toy_eth"
proof -
  have "of_nat (of_char (char_of (unat b) :: char)) = (b :: u8)" for b
    using unsigned_less [of b, where 'a = nat] by (simp add: of_char_of)
  then have "hex_decode toy_eth (hex_encode toy_eth x) = Some x" for x
    by (simp add: toy_eth_def as_bytes_def comp_def)
  then show ?thesis by (simp add: eth_correct_def toy_eth_def min_def)
qed

lemma from_wireguard_key_wf: "from_wireguard_key E k = Ok w \<Longrightarrow> wf_wallet E w"
  by (auto simp: from_wireguard_key_def wf_wallet_def Let_def split: if_splits)

lemma length_ethereum_address: "eth_correct E \<Longrightarrow> wf_wallet E w \<Longrightarrow> length (ethereum_address w) = 20"
  by (simp add: eth_correct_def wf_wallet_def compute_address_def)

lemma v_range: "unat (v :: u8) \<le> 3 \<Longrightarrow> \<not> v + 27 < 27 \<and> v + 27 - 27 = v"
proof -
  assume "unat v \<le> 3"
  then have "unat (v + 27) = unat v + 27" by (simp add: unat_word_ariths)
  then show ?thesis by (simp add: word_less_nat_alt)
qed

lemma sign_digest_recovers:
  assumes "eth_correct E" and "wf_wallet E w"
  obtains v r s where "sign_digest E w digest = Ok (v, r, s)" "length r = 32" "length s = 32"
    "recover_address E digest v r s = Some (ethereum_address w)"
proof -
  obtain sig v where sig: "ecdsa_sign E (signing_key w) digest = Some (sig, v)" "length sig = 64" "unat v \<le> 3"
      "ecdsa_recover E digest sig v = Some (key_point E (signing_key w))"
    using assms unfolding eth_correct_def wf_wallet_def by blast
  show thesis
    by (rule that [of "v + 27" "take 32 sig" "drop 32 sig"])
      (use sig v_range [OF sig(3)] assms(2) in \<open>auto simp: sign_digest_def recover_address_def wf_wallet_def compute_address_def\<close>)
qed

section \<open>What an authorisation binds\<close>

lemma abi_u256_inj: "abi_encode_u256 (ucast (a :: u64)) = abi_encode_u256 (ucast b) \<longleftrightarrow> a = b"
proof -
  have "ucast (ucast x :: u128) = x" for x :: u64
    by (rule bit_word_eqI) (simp add: bit_ucast_iff)
  then have "(ucast a :: u128) = ucast b \<longleftrightarrow> a = b" by metis
  then show ?thesis by (simp add: abi_encode_u256_def be_bytes_inj)
qed

lemma length_abi [simp]: "length (abi_encode_u256 x) = 32"
  by (simp add: abi_encode_u256_def)

lemma struct_preimage_inj:
  assumes "eth_correct E" and "wf_authorization a" and "wf_authorization b"
  shows "struct_preimage E a = struct_preimage E b \<longleftrightarrow> a = b"
  using assms
  by (cases a; cases b) (auto simp: struct_preimage_def wf_authorization_def abi_encode_address_def abi_u256_inj
      transfer_authorization_type_hash_def)

lemma domain_preimage_inj:
  assumes "eth_correct E" and "wf_domain c" and "wf_domain d" and "domain_preimage E c = domain_preimage E d"
  shows "keccak E (as_bytes (dom_name c)) = keccak E (as_bytes (dom_name d))"
    and "keccak E (as_bytes (dom_version c)) = keccak E (as_bytes (dom_version d))"
    and "dom_chain_id c = dom_chain_id d" and "verifying_contract c = verifying_contract d"
  using assms by (auto simp: domain_preimage_def wf_domain_def abi_encode_address_def abi_u256_inj eth_correct_def
      eip712_domain_type_hash_def)

lemma digest_binds:
  assumes E: "eth_correct E" and wf: "wf_domain c" "wf_domain d" "wf_authorization a" "wf_authorization b"
    and eq: "compute_eip712_digest E c a = compute_eip712_digest E d b"
    and free: "\<not> collide E (hashed E c a) (hashed E d b)"
  shows "c = d \<and> a = b"
proof -
  have inj: "x = y" if "(x, y) \<in> set (zip (hashed E c a) (hashed E d b))" "keccak E x = keccak E y" for x y
    using free that by (auto simp: collide_def list_ex_iff)
  have len: "length (keccak E x) = 32" for x using E by (simp add: eth_correct_def)
  have "digest_preimage E c a = digest_preimage E d b"
    by (rule inj) (use eq in \<open>simp_all add: hashed_def compute_eip712_digest_def\<close>)
  then have "keccak E (domain_preimage E c) = keccak E (domain_preimage E d)"
    "keccak E (struct_preimage E a) = keccak E (struct_preimage E b)"
    by (simp_all add: digest_preimage_def compute_domain_separator_def compute_struct_hash_def len)
  then have pre: "domain_preimage E c = domain_preimage E d" "struct_preimage E a = struct_preimage E b"
    by (auto intro!: inj simp: hashed_def)
  have "as_bytes (dom_name c) = as_bytes (dom_name d)" "as_bytes (dom_version c) = as_bytes (dom_version d)"
    by (rule inj; use domain_preimage_inj(1,2) [OF E wf(1,2) pre(1)] in \<open>simp add: hashed_def\<close>)+
  then show ?thesis
    using domain_preimage_inj(3,4) [OF E wf(1,2) pre(1)] pre(2) struct_preimage_inj [OF E wf(3,4)]
    by (cases c; cases d) (simp add: as_bytes_inj)
qed



end
