(* ===== verification/Eth_Transaction.thy ===== *)
theory Eth_Transaction
  imports Eth_Wallet
begin

text \<open>
  EIP-1559 transactions and their RLP encoding (\<^verbatim>\<open>protocol/boringtun/src/payment/tx.rs\<close>). A decoder of the
  encoding is defined to state what an encoded transaction means.
\<close>

section \<open>Definitions\<close>

subsection \<open>RLP\<close>

text \<open>\<^verbatim>\<open>be[start..]\<close>, where \<^verbatim>\<open>start\<close> is the position of the first byte that is not zero, or the last one.\<close>

definition minimal :: "bytes \<Rightarrow> bytes" where
  "minimal be = (if list_all (\<lambda>b. b = 0) be then drop (length be - 1) be else dropWhile (\<lambda>b. b = 0) be)"

definition encode_length :: "nat \<Rightarrow> bytes" where
  "encode_length len = minimal (be_bytes 8 (of_nat len :: u64))"

definition rlp_encode_bytes :: "bytes \<Rightarrow> bytes" where
  "rlp_encode_bytes data =
     (if length data = 1 \<and> data ! 0 < 0x80 then [data ! 0]
      else if length data \<le> 55 then (0x80 + of_nat (length data)) # data
      else let len_bytes = encode_length (length data)
           in (0xb7 + of_nat (length len_bytes)) # len_bytes @ data)"

definition rlp_encode_list :: "bytes list \<Rightarrow> bytes" where
  "rlp_encode_list items =
     (let payload = concat items in
      if length payload \<le> 55 then (0xc0 + of_nat (length payload)) # payload
      else let len_bytes = encode_length (length payload)
           in (0xf7 + of_nat (length len_bytes)) # len_bytes @ payload)"

definition rlp_encode_uint :: "u64 \<Rightarrow> bytes" where
  "rlp_encode_uint value = (if value = 0 then [0x80] else rlp_encode_bytes (minimal (be_bytes 8 value)))"

definition rlp_encode_u128 :: "u128 \<Rightarrow> bytes" where
  "rlp_encode_u128 value = (if value = 0 then [0x80] else rlp_encode_bytes (minimal (be_bytes 16 value)))"

subsection \<open>Transactions\<close>

record eip1559_tx =
  tx_chain_id :: u64
  tx_nonce :: u64
  max_priority_fee_per_gas :: u128
  max_fee_per_gas :: u128
  gas_limit :: u64
  tx_to :: bytes
  tx_value :: u128
  tx_data :: bytes

definition rlp_fields :: "eip1559_tx \<Rightarrow> bytes list" where
  "rlp_fields tx =
     [rlp_encode_uint (tx_chain_id tx), rlp_encode_uint (tx_nonce tx), rlp_encode_u128 (max_priority_fee_per_gas tx),
      rlp_encode_u128 (max_fee_per_gas tx), rlp_encode_uint (gas_limit tx), rlp_encode_bytes (tx_to tx),
      rlp_encode_u128 (tx_value tx), rlp_encode_bytes (tx_data tx), rlp_encode_list []]"

definition signing_preimage :: "eip1559_tx \<Rightarrow> bytes" where
  "signing_preimage tx = 0x02 # rlp_encode_list (rlp_fields tx)"

definition signing_hash :: "eth_crypto \<Rightarrow> eip1559_tx \<Rightarrow> bytes" where
  "signing_hash E tx = keccak E (signing_preimage tx)"

definition tx_sign :: "eth_crypto \<Rightarrow> eip1559_tx \<Rightarrow> bytes \<Rightarrow> (unit, bytes) rust" where
  "tx_sign E tx key =
     (let h = signing_hash E tx in
      case ecdsa_sign E key h of
        None \<Rightarrow> Panic
      | Some (sig_bytes, y_parity) \<Rightarrow>
          let r = take 32 sig_bytes;
              s = drop 32 sig_bytes;
              fields = rlp_fields tx @ [rlp_encode_uint (ucast y_parity), rlp_encode_bytes r, rlp_encode_bytes s]
          in Ok (0x02 # rlp_encode_list fields))"

text \<open>A decoder of the encoding, to state what it means: the first item of a byte string with base prefix
  \<open>0x80\<close> (strings) or \<open>0xc0\<close> (lists), and the fields of a transaction.\<close>

definition rlp_body :: "u8 \<Rightarrow> u8 \<Rightarrow> bytes \<Rightarrow> (bytes \<times> bytes) option" where
  "rlp_body base b rest =
     (if unat b < unat base then None
      else if unat b \<le> unat base + 55
      then let n = unat b - unat base in if n \<le> length rest then Some (take n rest, drop n rest) else None
      else let l = unat b - unat base - 55;
               n = unat (from_be (take l rest) :: u64)
           in if l + n \<le> length rest then Some (take n (drop l rest), drop n (drop l rest)) else None)"

fun rlp_item :: "bytes \<Rightarrow> (bytes \<times> bytes) option" where
  "rlp_item [] = None"
| "rlp_item (b # rest) = (if b < 0x80 then Some ([b], rest) else rlp_body 0x80 b rest)"

fun rlp_items :: "nat \<Rightarrow> bytes \<Rightarrow> (bytes list \<times> bytes) option" where
  "rlp_items 0 bs = Some ([], bs)"
| "rlp_items (Suc n) bs =
     (case rlp_item bs of
        None \<Rightarrow> None
      | Some (x, bs) \<Rightarrow> (case rlp_items n bs of None \<Rightarrow> None | Some (xs, bs) \<Rightarrow> Some (x # xs, bs)))"

definition decode_tx :: "bytes \<Rightarrow> (eip1559_tx \<times> bytes) option" where
  "decode_tx raw =
     (case raw of
        ty # b # rest \<Rightarrow>
          if ty \<noteq> 2 then None else
          (case rlp_body 0xc0 b rest of
             Some (payload, []) \<Rightarrow>
               (case rlp_items 8 payload of
                  Some ([c, n, p, f, g, t, v, d], rest) \<Rightarrow>
                    Some (\<lparr>tx_chain_id = from_be c, tx_nonce = from_be n, max_priority_fee_per_gas = from_be p,
                      max_fee_per_gas = from_be f, gas_limit = from_be g, tx_to = t, tx_value = from_be v, tx_data = d\<rparr>, rest)
                | _ \<Rightarrow> None)
           | _ \<Rightarrow> None)
      | _ \<Rightarrow> None)"

section \<open>RLP\<close>

lemma from_le_zeros: "from_le (xs @ replicate k 0) = (from_le xs :: 'a::len word)"
proof (induction xs)
  case Nil
  show ?case by (induction k) auto
qed simp

lemma from_be_dropWhile: "from_be (dropWhile (\<lambda>b. b = 0) bs) = (from_be bs :: 'a::len word)"
proof -
  have "takeWhile (\<lambda>b. b = 0) bs = replicate (length (takeWhile (\<lambda>b. b = 0) bs)) 0"
    by (induction bs) auto
  then have "rev bs = rev (dropWhile (\<lambda>b. b = 0) bs) @ replicate (length (takeWhile (\<lambda>b. b = 0) bs)) 0"
    by (metis rev_append rev_replicate takeWhile_dropWhile_id)
  then show ?thesis unfolding from_be_def by (metis from_le_zeros)
qed

lemma from_be_zero: "list_all (\<lambda>b. b = 0) bs \<Longrightarrow> from_be bs = (0 :: 'a::len word)"
  unfolding from_be_def by (induction bs rule: rev_induct) auto

lemma from_be_minimal: "from_be (minimal bs) = (from_be bs :: 'a::len word)"
proof (cases "list_all (\<lambda>b. b = 0) bs")
  case True
  then have "list_all (\<lambda>b. b = 0) (drop (length bs - 1) bs)" by (auto simp: list_all_iff dest: in_set_dropD)
  then show ?thesis using True by (simp add: minimal_def from_be_zero)
qed (simp add: minimal_def from_be_dropWhile)

lemma minimal_length: "bs \<noteq> [] \<Longrightarrow> 1 \<le> length (minimal bs) \<and> length (minimal bs) \<le> length bs"
  by (cases bs) (auto simp: minimal_def list_all_iff Suc_le_eq length_dropWhile_le le_Suc_eq)

text \<open>The prefix of a string or list.\<close>

definition rlp_head :: "u8 \<Rightarrow> bytes \<Rightarrow> bytes" where
  "rlp_head base d = (if length d \<le> 55 then [base + of_nat (length d)]
     else (base + 55 + of_nat (length (encode_length (length d)))) # encode_length (length d))"

lemma rlp_encode_bytes_head:
  "rlp_encode_bytes d = (if length d = 1 \<and> d ! 0 < 0x80 then d else rlp_head 0x80 d @ d)"
  by (auto simp: rlp_encode_bytes_def rlp_head_def Let_def length_Suc_conv)

lemma rlp_encode_list_head: "rlp_encode_list xs = rlp_head 0xc0 (concat xs) @ concat xs"
  by (simp add: rlp_encode_list_def rlp_head_def Let_def)

lemma encode_length_spec:
  assumes "n < 2 ^ 64"
  shows "unat (from_be (encode_length n) :: u64) = n" and "1 \<le> length (encode_length n)" and "length (encode_length n) \<le> 8"
proof -
  have "from_be (encode_length n) = (of_nat n :: u64)"
    by (simp add: encode_length_def from_be_minimal byte_images)
  then show "unat (from_be (encode_length n) :: u64) = n" using assms by (simp add: unat_of_nat)
  have "be_bytes 8 (of_nat n :: u64) \<noteq> []" using length_be_bytes [of 8 "of_nat n :: u64"] by fastforce
  from minimal_length [OF this] show "1 \<le> length (encode_length n)" "length (encode_length n) \<le> 8"
    by (simp_all add: encode_length_def)
qed

lemma unat_head: "unat base \<le> 192 \<Longrightarrow> k \<le> 63 \<Longrightarrow> unat (base + of_nat k :: u8) = unat base + k"
  by (simp add: unat_word_ariths unat_of_nat)

lemma rlp_body_head:
  assumes base: "unat base \<le> 192" and len: "length d < 2 ^ 64"
  obtains b r where "rlp_head base d = b # r" "rlp_body base b (r @ d @ rest) = Some (d, rest)" "unat base \<le> unat b"
proof (cases "length d \<le> 55")
  case True
  then have "unat (base + of_nat (length d)) = unat base + length d" using unat_head [OF base] by simp
  then show thesis using True by (intro that [of "base + of_nat (length d)" "[]"]) (simp_all add: rlp_head_def rlp_body_def Let_def)
next
  case False
  let ?l = "length (encode_length (length d))"
  have b: "base + 55 + of_nat ?l = base + of_nat (55 + ?l)" by simp
  have "unat (base + of_nat (55 + ?l)) = unat base + (55 + ?l)"
    by (rule unat_head [OF base]) (use encode_length_spec(3) [OF len] in simp)
  then show thesis
    using False encode_length_spec(1) [OF len] less_le_trans [OF zero_less_one encode_length_spec(2) [OF len]]
    by (intro that [of "base + 55 + of_nat ?l" "encode_length (length d)"])
      (simp_all only: b rlp_head_def rlp_body_def Let_def if_False, simp_all)
qed

lemma rlp_item_encode:
  assumes "length d < 2 ^ 64"
  shows "rlp_item (rlp_encode_bytes d @ rest) = Some (d, rest)"
proof (cases "length d = 1 \<and> d ! 0 < 0x80")
  case True
  then show ?thesis by (auto simp: rlp_encode_bytes_def length_Suc_conv)
next
  case False
  obtain b r where h: "rlp_head 0x80 d = b # r" "rlp_body 0x80 b (r @ d @ rest) = Some (d, rest)" "unat (0x80 :: u8) \<le> unat b"
    by (rule rlp_body_head [OF _ assms, of "0x80" rest]) simp_all
  then have "\<not> b < 0x80" by (simp add: word_less_nat_alt)
  then show ?thesis using False h(1,2) unfolding rlp_encode_bytes_head by auto
qed

lemma rlp_item_zero: "rlp_item (0x80 # rest) = Some ([], rest)"
  using rlp_item_encode [of "[]" rest] by (simp add: rlp_encode_bytes_def del: rlp_item.simps)

lemma rlp_item_uint: "\<exists>x. (\<forall>rest. rlp_item (rlp_encode_uint v @ rest) = Some (x, rest)) \<and> from_be x = v"
proof (cases "v = 0")
  case True
  then show ?thesis
    by (intro exI [of _ "[]"]) (simp add: rlp_encode_uint_def rlp_item_zero from_be_def del: rlp_item.simps)
next
  case False
  have "be_bytes 8 v \<noteq> []" using length_be_bytes [of 8 v] by fastforce
  from minimal_length [OF this] have "length (minimal (be_bytes 8 v)) < 2 ^ 64" by simp
  then show ?thesis
    using False by (intro exI [of _ "minimal (be_bytes 8 v)"])
      (simp add: rlp_encode_uint_def rlp_item_encode from_be_minimal byte_images)
qed

lemma rlp_item_u128: "\<exists>x. (\<forall>rest. rlp_item (rlp_encode_u128 v @ rest) = Some (x, rest)) \<and> from_be x = v"
proof (cases "v = 0")
  case True
  then show ?thesis
    by (intro exI [of _ "[]"]) (simp add: rlp_encode_u128_def rlp_item_zero from_be_def del: rlp_item.simps)
next
  case False
  have "be_bytes 16 v \<noteq> []" using length_be_bytes [of 16 v] by fastforce
  from minimal_length [OF this] have "length (minimal (be_bytes 16 v)) < 2 ^ 64" by simp
  then show ?thesis
    using False by (intro exI [of _ "minimal (be_bytes 16 v)"])
      (simp add: rlp_encode_u128_def rlp_item_encode from_be_minimal byte_images)
qed

lemma rlp_items_fields:
  assumes "length (tx_to tx) < 2 ^ 64" and "length (tx_data tx) < 2 ^ 64"
  obtains c n p f g v where
    "\<And>rest. rlp_items 8 (concat (take 8 (rlp_fields tx)) @ rest) = Some ([c, n, p, f, g, tx_to tx, v, tx_data tx], rest)"
    "from_be c = tx_chain_id tx" "from_be n = tx_nonce tx" "from_be p = max_priority_fee_per_gas tx"
    "from_be f = max_fee_per_gas tx" "from_be g = gas_limit tx" "from_be v = tx_value tx"
proof -
  obtain c where c: "\<And>rest. rlp_item (rlp_encode_uint (tx_chain_id tx) @ rest) = Some (c, rest)" "from_be c = tx_chain_id tx"
    using rlp_item_uint [of "tx_chain_id tx"] by blast
  obtain n where n: "\<And>rest. rlp_item (rlp_encode_uint (tx_nonce tx) @ rest) = Some (n, rest)" "from_be n = tx_nonce tx"
    using rlp_item_uint [of "tx_nonce tx"] by blast
  obtain p where p: "\<And>rest. rlp_item (rlp_encode_u128 (max_priority_fee_per_gas tx) @ rest) = Some (p, rest)"
      "from_be p = max_priority_fee_per_gas tx" using rlp_item_u128 [of "max_priority_fee_per_gas tx"] by blast
  obtain f where f: "\<And>rest. rlp_item (rlp_encode_u128 (max_fee_per_gas tx) @ rest) = Some (f, rest)"
      "from_be f = max_fee_per_gas tx" using rlp_item_u128 [of "max_fee_per_gas tx"] by blast
  obtain g where g: "\<And>rest. rlp_item (rlp_encode_uint (gas_limit tx) @ rest) = Some (g, rest)" "from_be g = gas_limit tx"
    using rlp_item_uint [of "gas_limit tx"] by blast
  obtain v where v: "\<And>rest. rlp_item (rlp_encode_u128 (tx_value tx) @ rest) = Some (v, rest)" "from_be v = tx_value tx"
    using rlp_item_u128 [of "tx_value tx"] by blast
  have eight: "rlp_items 8 = rlp_items (Suc (Suc (Suc (Suc (Suc (Suc (Suc (Suc 0))))))))" by (simp add: numeral_eq_Suc)
  have "rlp_items 8 (concat (take 8 (rlp_fields tx)) @ rest) = Some ([c, n, p, f, g, tx_to tx, v, tx_data tx], rest)" for rest
    unfolding eight
    by (simp add: rlp_fields_def c(1) n(1) p(1) f(1) g(1) v(1) rlp_item_encode [OF assms(1)] rlp_item_encode [OF assms(2)])
  then show thesis using that [OF _ c(2) n(2) p(2) f(2) g(2) v(2)] by simp
qed

lemma decode_list:
  assumes "length (concat items) < 2 ^ 64"
  shows "decode_tx (0x02 # rlp_encode_list items) =
    (case rlp_items 8 (concat items) of
       Some ([c, n, p, f, g, t, v, d], rest) \<Rightarrow>
         Some (\<lparr>tx_chain_id = from_be c, tx_nonce = from_be n, max_priority_fee_per_gas = from_be p,
           max_fee_per_gas = from_be f, gas_limit = from_be g, tx_to = t, tx_value = from_be v, tx_data = d\<rparr>, rest)
     | _ \<Rightarrow> None)"
proof -
  obtain b r where "rlp_head 0xc0 (concat items) = b # r" "rlp_body 0xc0 b (r @ concat items @ []) = Some (concat items, [])"
    by (rule rlp_body_head [OF _ assms, of "0xc0" "[]"]) simp_all
  then show ?thesis by (simp add: rlp_encode_list_head decode_tx_def)
qed

lemma decode_fields:
  assumes "length (tx_to tx) < 2 ^ 64" and "length (tx_data tx) < 2 ^ 64"
    and "length (concat (rlp_fields tx @ ys)) < 2 ^ 64"
  shows "decode_tx (0x02 # rlp_encode_list (rlp_fields tx @ ys)) = Some (tx, 0xc0 # concat ys)"
proof -
  obtain c n p f g v where f:
    "\<And>rest. rlp_items 8 (concat (take 8 (rlp_fields tx)) @ rest) = Some ([c, n, p, f, g, tx_to tx, v, tx_data tx], rest)"
    "from_be c = tx_chain_id tx" "from_be n = tx_nonce tx" "from_be p = max_priority_fee_per_gas tx"
    "from_be f = max_fee_per_gas tx" "from_be g = gas_limit tx" "from_be v = tx_value tx"
    using rlp_items_fields [OF assms(1,2)] by blast
  have split: "concat (rlp_fields tx @ ys) = concat (take 8 (rlp_fields tx)) @ 0xc0 # concat ys"
    by (simp add: rlp_fields_def rlp_encode_list_def)
  show ?thesis
    unfolding decode_list [OF assms(3)] unfolding split f(1) by (cases tx) (use f(2-) in simp)
qed

lemma rlp_encode_bytes_length: "length d < 2 ^ 64 \<Longrightarrow> length (rlp_encode_bytes d) \<le> length d + 9"
  using encode_length_spec(3) [of "length d"] by (simp add: rlp_encode_bytes_def Let_def)

lemma rlp_encode_uint_length: "length (rlp_encode_uint w) \<le> 17" "length (rlp_encode_u128 v) \<le> 25"
proof -
  have min: "length (minimal (be_bytes k w)) \<le> k" if "0 < k" for k and w :: "'a::len word"
    using minimal_length [of "be_bytes k w"] that length_be_bytes [of k w] by (cases "be_bytes k w") auto
  show "length (rlp_encode_uint w) \<le> 17" "length (rlp_encode_u128 v) \<le> 25"
    using rlp_encode_bytes_length [of "minimal (be_bytes 8 w)"] rlp_encode_bytes_length [of "minimal (be_bytes 16 v)"]
      min [of 8 w] min [of 16 v]
    by (auto simp: rlp_encode_uint_def rlp_encode_u128_def)
qed

lemma rlp_fields_length:
  assumes "length (tx_to tx) = 20" and "length (tx_data tx) < 2 ^ 32"
  shows "length (concat (rlp_fields tx)) \<le> 220 + length (tx_data tx)"
  using rlp_encode_bytes_length [of "tx_to tx"] rlp_encode_bytes_length [of "tx_data tx"] assms
    rlp_encode_uint_length(1) [of "tx_chain_id tx"] rlp_encode_uint_length(1) [of "tx_nonce tx"]
    rlp_encode_uint_length(1) [of "gas_limit tx"] rlp_encode_uint_length(2) [of "max_priority_fee_per_gas tx"]
    rlp_encode_uint_length(2) [of "max_fee_per_gas tx"] rlp_encode_uint_length(2) [of "tx_value tx"]
  by (simp add: rlp_fields_def rlp_encode_list_def)

text \<open>C28. The transaction that is signed says what was meant: the preimage of the signing hash of an
  EIP-1559 transaction decodes back to exactly its fields, and so does the signed transaction, followed by
  the signature. In particular two different transactions have different preimages.\<close>

theorem transaction_roundtrip:
  assumes "length (tx_to tx) = 20" and "length (tx_data tx) < 2 ^ 32" and "eth_correct E" and "key_valid E key"
  shows "decode_tx (signing_preimage tx) = Some (tx, [0xc0])
    \<and> (\<exists>raw y r s. tx_sign E tx key = Ok raw \<and> length r = 32 \<and> length s = 32
         \<and> ecdsa_recover E (signing_hash E tx) (r @ s) y = Some (key_point E key)
         \<and> decode_tx raw = Some (tx, 0xc0 # rlp_encode_uint (ucast y) @ rlp_encode_bytes r @ rlp_encode_bytes s))"
proof -
  note one = rlp_encode_bytes_length and uint = rlp_encode_uint_length and fields = rlp_fields_length [OF assms(1,2)]
  obtain sig y where sig: "ecdsa_sign E key (signing_hash E tx) = Some (sig, y)" "length sig = 64"
      "ecdsa_recover E (signing_hash E tx) sig y = Some (key_point E key)"
    using assms(3,4) unfolding eth_correct_def by blast
  have "length (concat (rlp_fields tx @ [rlp_encode_uint (ucast y), rlp_encode_bytes (take 32 sig), rlp_encode_bytes (drop 32 sig)])) < 2 ^ 64"
    using fields one [of "take 32 sig"] one [of "drop 32 sig"] uint(1) [of "ucast y"] assms(2) sig(2) by simp
  note signed = decode_fields [OF _ _ this]
  have "decode_tx (signing_preimage tx) = Some (tx, [0xc0])"
    using decode_fields [of tx "[]"] fields assms(1,2) by (simp add: signing_preimage_def)
  then show ?thesis
    using signed assms(1,2) sig
    by (intro conjI exI [of _ "0x02 # rlp_encode_list (rlp_fields tx @ [rlp_encode_uint (ucast y),
          rlp_encode_bytes (take 32 sig), rlp_encode_bytes (drop 32 sig)])"]
        exI [of _ y] exI [of _ "take 32 sig"] exI [of _ "drop 32 sig"]) (simp_all add: tx_sign_def Let_def)
qed

theorem transaction_roundtrip_witness:
  "decode_tx (signing_preimage \<lparr>tx_chain_id = 5042002, tx_nonce = 0, max_priority_fee_per_gas = 1000000, max_fee_per_gas = 2000000,
     gas_limit = 60000, tx_to = replicate 20 0xAA, tx_value = 0, tx_data = [0x09, 0x5e, 0xa7, 0xb3]\<rparr>) =
   Some (\<lparr>tx_chain_id = 5042002, tx_nonce = 0, max_priority_fee_per_gas = 1000000, max_fee_per_gas = 2000000,
     gas_limit = 60000, tx_to = replicate 20 0xAA, tx_value = 0, tx_data = [0x09, 0x5e, 0xa7, 0xb3]\<rparr>, [0xc0])"
  using transaction_roundtrip [of "\<lparr>tx_chain_id = 5042002, tx_nonce = 0, max_priority_fee_per_gas = 1000000, max_fee_per_gas = 2000000,
     gas_limit = 60000, tx_to = replicate 20 0xAA, tx_value = 0, tx_data = [0x09, 0x5e, 0xa7, 0xb3]\<rparr>" toy_eth "replicate 32 1"]
  by (simp add: toy_eth_def [THEN arg_cong [of _ _ key_valid]])

end
