(* ===== verification/Eth_Deposit.thy ===== *)
theory Eth_Deposit
  imports Eth_Transaction
begin

text \<open>
  The JSON-RPC client (\<^verbatim>\<open>protocol/boringtun/src/payment/rpc.rs\<close>), the automatic deposit of a client
  (\<^verbatim>\<open>payment/deposit.rs\<close>) and the settlement request of a server (\<^verbatim>\<open>payment/settlement.rs\<close>).

  The HTTP transport is a parameter: its answer may depend on every request sent before, so an operation
  that talks to the node takes the list of requests so far and returns it extended by its own. Errors are
  values of \<open>rpc_error\<close> in place of the formatted messages.
\<close>

section \<open>Definitions\<close>

datatype json = JNull | JBool bool | JNum nat | JStr string | JArr "json list" | JObj "(string \<times> json) list"

datatype rpc_error =
    RequestFailed string | ResponseParseFailed string | RpcError json | NotAString | HexDecode | ParseInt
  | NoTxHash | ReceiptTimeout | NoUsdc string | BalanceTooLow | Reverted string

text \<open>\<^verbatim>\<open>Value::get\<close> with a key, indexing (\<open>null\<close> where there is nothing) and \<^verbatim>\<open>as_str\<close>.\<close>

fun jget :: "json \<Rightarrow> string \<Rightarrow> json option" where
  "jget (JObj kvs) k = map_of kvs k"
| "jget _ k = None"

definition jindex :: "json \<Rightarrow> string \<Rightarrow> json" where
  "jindex v k = (case jget v k of Some x \<Rightarrow> x | None \<Rightarrow> JNull)"

fun as_str :: "json \<Rightarrow> string option" where
  "as_str (JStr s) = Some s"
| "as_str _ = None"

text \<open>The transport, and operations that use it.\<close>

type_synonym transport = "json list \<Rightarrow> json \<Rightarrow> (rpc_error, json) rust"
type_synonym 'a rpc_io = "json list \<Rightarrow> json list \<times> (rpc_error, 'a) rust"

definition io_return :: "(rpc_error, 'a) rust \<Rightarrow> 'a rpc_io" where
  "io_return r h = (h, r)"

definition io_bind :: "'a rpc_io \<Rightarrow> ('a \<Rightarrow> 'b rpc_io) \<Rightarrow> 'b rpc_io" where
  "io_bind m f h =
     (case m h of (h, Ok a) \<Rightarrow> f a h | (h, Err e) \<Rightarrow> (h, Err e) | (h, Panic) \<Rightarrow> (h, Panic))"

text \<open>\<^verbatim>\<open>unwrap_or\<close> on the result of an operation.\<close>

definition io_or :: "'a rpc_io \<Rightarrow> 'a \<Rightarrow> 'a rpc_io" where
  "io_or m a h = (case m h of (h, Err e) \<Rightarrow> (h, Ok a) | (h, r) \<Rightarrow> (h, r))"

subsection \<open>RPC client\<close>

definition rpc_body :: "string \<Rightarrow> json \<Rightarrow> json" where
  "rpc_body rpc_method rpc_params =
     JObj [(''jsonrpc'', JStr ''2.0''), (''method'', JStr rpc_method), (''params'', rpc_params), (''id'', JNum 1)]"

definition rpc_call :: "transport \<Rightarrow> string \<Rightarrow> json \<Rightarrow> json rpc_io" where
  "rpc_call T rpc_method rpc_params h =
     (let body = rpc_body rpc_method rpc_params in
      (h @ [body],
       rbind (T h body) (\<lambda>j.
       case jget j ''error'' of Some err \<Rightarrow> Err (RpcError err) | None \<Rightarrow> Ok (jindex j ''result''))))"

definition hex0x :: "eth_crypto \<Rightarrow> bytes \<Rightarrow> string" where
  "hex0x E bs = ''0x'' @ hex_encode E bs"

definition decode_hex :: "eth_crypto \<Rightarrow> string \<Rightarrow> (rpc_error, bytes) rust" where
  "decode_hex E s =
     (let s = strip_0x s in
      if s = [] then Ok [] else case hex_decode E s of Some bs \<Rightarrow> Ok bs | None \<Rightarrow> Err HexDecode)"

definition parse_hex_u64 :: "string \<Rightarrow> (rpc_error, u64) rust" where
  "parse_hex_u64 s =
     (let s = strip_0x s in
      if s = [] then Ok 0
      else case from_str_radix 16 (2 ^ 64 - 1) s of Some n \<Rightarrow> Ok (of_nat n) | None \<Rightarrow> Err ParseInt)"

definition parse_hex_u128 :: "string \<Rightarrow> (rpc_error, u128) rust" where
  "parse_hex_u128 s =
     (let s = strip_0x s in
      if s = [] then Ok 0
      else case from_str_radix 16 (2 ^ 128 - 1) s of Some n \<Rightarrow> Ok (of_nat n) | None \<Rightarrow> Err ParseInt)"

definition str_or_0x0 :: "json \<Rightarrow> string" where
  "str_or_0x0 j = (case as_str j of Some s \<Rightarrow> s | None \<Rightarrow> ''0x0'')"

definition eth_call :: "eth_crypto \<Rightarrow> transport \<Rightarrow> bytes \<Rightarrow> bytes \<Rightarrow> bytes rpc_io" where
  "eth_call E T to_addr data =
     io_bind (rpc_call T ''eth_call''
       (JArr [JObj [(''to'', JStr (hex0x E to_addr)), (''data'', JStr (hex0x E data))], JStr ''latest''])) (\<lambda>res.
     io_return (case as_str res of None \<Rightarrow> Err NotAString | Some s \<Rightarrow> decode_hex E s))"

definition get_nonce :: "eth_crypto \<Rightarrow> transport \<Rightarrow> bytes \<Rightarrow> u64 rpc_io" where
  "get_nonce E T addr =
     io_bind (rpc_call T ''eth_getTransactionCount'' (JArr [JStr (hex0x E addr), JStr ''latest''])) (\<lambda>res.
     io_return (parse_hex_u64 (str_or_0x0 res)))"

definition gas_price :: "transport \<Rightarrow> u128 rpc_io" where
  "gas_price T = io_bind (rpc_call T ''eth_gasPrice'' (JArr [])) (\<lambda>res. io_return (parse_hex_u128 (str_or_0x0 res)))"

definition max_priority_fee :: "transport \<Rightarrow> u128 rpc_io" where
  "max_priority_fee T =
     io_bind (rpc_call T ''eth_maxPriorityFeePerGas'' (JArr [])) (\<lambda>res. io_return (parse_hex_u128 (str_or_0x0 res)))"

definition estimate_gas :: "eth_crypto \<Rightarrow> transport \<Rightarrow> bytes \<Rightarrow> bytes \<Rightarrow> bytes \<Rightarrow> u64 rpc_io" where
  "estimate_gas E T from_addr to_addr data =
     io_bind (rpc_call T ''eth_estimateGas''
       (JArr [JObj [(''from'', JStr (hex0x E from_addr)), (''to'', JStr (hex0x E to_addr)), (''data'', JStr (hex0x E data))]])) (\<lambda>res.
     io_return (parse_hex_u64 (str_or_0x0 res)))"

definition send_raw_tx :: "eth_crypto \<Rightarrow> transport \<Rightarrow> bytes \<Rightarrow> string rpc_io" where
  "send_raw_tx E T raw_tx =
     io_bind (rpc_call T ''eth_sendRawTransaction'' (JArr [JStr (hex0x E raw_tx)])) (\<lambda>res.
     io_return (case as_str res of Some s \<Rightarrow> Ok s | None \<Rightarrow> Err NoTxHash))"

definition get_receipt :: "transport \<Rightarrow> string \<Rightarrow> json option rpc_io" where
  "get_receipt T tx_hash =
     io_bind (rpc_call T ''eth_getTransactionReceipt'' (JArr [JStr tx_hash])) (\<lambda>res.
     io_return (Ok (if res = JNull then None else Some res)))"

fun wait_for_receipt :: "transport \<Rightarrow> string \<Rightarrow> nat \<Rightarrow> bool rpc_io" where
  "wait_for_receipt T tx_hash 0 = io_return (Err ReceiptTimeout)"
| "wait_for_receipt T tx_hash (Suc n) =
     io_bind (get_receipt T tx_hash) (\<lambda>receipt.
     case receipt of
       Some r \<Rightarrow> io_return (Ok (str_or_0x0 (jindex r ''status'') = ''0x1''))
     | None \<Rightarrow> wait_for_receipt T tx_hash n)"

definition parse_u256_result :: "bytes \<Rightarrow> u128" where
  "parse_u256_result data =
     (if length data < 32 then 0 else let offset = length data - 16 in from_be (drop offset data))"

subsection \<open>Deposit\<close>

definition SEL_BALANCE_OF :: bytes where "SEL_BALANCE_OF = [0x70, 0xa0, 0x82, 0x31]"
definition SEL_AVAILABLE_BALANCE :: bytes where "SEL_AVAILABLE_BALANCE = [0x3c, 0xcb, 0x64, 0xae]"
definition SEL_DEPOSIT_WITH_AUTH :: bytes where "SEL_DEPOSIT_WITH_AUTH = [0x8a, 0x94, 0xd4, 0xfc]"
definition GAS_RESERVE :: u128 where "GAS_RESERVE = 100000"

definition query_balance :: "eth_crypto \<Rightarrow> transport \<Rightarrow> bytes \<Rightarrow> bytes \<Rightarrow> u128 rpc_io" where
  "query_balance E T token addr =
     io_bind (eth_call E T token (SEL_BALANCE_OF @ abi_encode_address addr)) (\<lambda>res. io_return (Ok (parse_u256_result res)))"

definition query_gateway_balance :: "eth_crypto \<Rightarrow> transport \<Rightarrow> bytes \<Rightarrow> bytes \<Rightarrow> bytes \<Rightarrow> u128 rpc_io" where
  "query_gateway_balance E T gateway token addr =
     io_bind (eth_call E T gateway (SEL_AVAILABLE_BALANCE @ abi_encode_address token @ abi_encode_address addr)) (\<lambda>res.
     io_return (Ok (parse_u256_result res)))"

text \<open>The digest of the \<^verbatim>\<open>ReceiveWithAuthorization\<close> and the call data built from its signature.\<close>

definition receive_digest :: "eth_crypto \<Rightarrow> payment_config \<Rightarrow> bytes \<Rightarrow> u128 \<Rightarrow> u64 \<Rightarrow> u64 \<Rightarrow> bytes \<Rightarrow> bytes" where
  "receive_digest E c addr amount valid_after valid_before nonce =
     (let receive_type_hash = keccak E (as_bytes (''ReceiveWithAuthorization(address from,address to,uint256 value,'' @
            ''uint256 validAfter,uint256 validBefore,bytes32 nonce)''));
          struct_data = receive_type_hash @ abi_encode_address addr @ abi_encode_address (gateway_wallet c)
            @ abi_encode_u256 amount @ abi_encode_u256 (ucast valid_after) @ abi_encode_u256 (ucast valid_before) @ nonce;
          struct_hash = keccak E struct_data;
          domain_separator = compute_domain_separator E (usdc_domain c)
      in keccak E ([0x19, 0x01] @ domain_separator @ struct_hash))"

definition deposit_calldata ::
    "payment_config \<Rightarrow> bytes \<Rightarrow> u128 \<Rightarrow> u64 \<Rightarrow> u64 \<Rightarrow> bytes \<Rightarrow> u8 \<Rightarrow> bytes \<Rightarrow> bytes \<Rightarrow> bytes" where
  "deposit_calldata c addr amount valid_after valid_before nonce v r s =
     SEL_DEPOSIT_WITH_AUTH @ abi_encode_address (cfg_usdc_contract c) @ abi_encode_address addr @ abi_encode_u256 amount
     @ abi_encode_u256 (ucast valid_after) @ abi_encode_u256 (ucast valid_before) @ nonce @ abi_encode_u256 (ucast v) @ r @ s"

definition saturating_add :: "u128 \<Rightarrow> u128 \<Rightarrow> u128" where
  "saturating_add a b = (if a + b < a then - 1 else a + b)"

definition saturating_sub :: "u128 \<Rightarrow> u128 \<Rightarrow> u128" where
  "saturating_sub a b = (if a < b then 0 else a - b)"

text \<open>The random nonce and the time are arguments; a panic of the signer ends the call.\<close>

definition deposit_with_authorization ::
    "eth_crypto \<Rightarrow> transport \<Rightarrow> payment_wallet \<Rightarrow> payment_config \<Rightarrow> bytes \<Rightarrow> u64 \<Rightarrow> u128 \<Rightarrow> string rpc_io" where
  "deposit_with_authorization E T w c nonce now amount =
     (let addr = ethereum_address w;
          valid_after = 0;
          valid_before = now + 600;
          digest = receive_digest E c addr amount valid_after valid_before nonce
      in case sign_digest E w digest of
           Ok (v, r, s) \<Rightarrow>
             let calldata = deposit_calldata c addr amount valid_after valid_before nonce v r s in
             io_bind (get_nonce E T addr) (\<lambda>txn.
             io_bind (io_or (max_priority_fee T) 1000000) (\<lambda>priority_fee.
             io_bind (gas_price T) (\<lambda>base_fee.
             let max_fee = saturating_add base_fee priority_fee in
             io_bind (io_or (io_bind (estimate_gas E T addr (gateway_wallet c) calldata) (\<lambda>g. io_return (Ok (g * 130 div 100)))) 200000) (\<lambda>gas.
             let tx = \<lparr>tx_chain_id = cfg_chain_id c, tx_nonce = txn, max_priority_fee_per_gas = priority_fee,
                   max_fee_per_gas = max_fee, gas_limit = gas, tx_to = gateway_wallet c, tx_value = 0, tx_data = calldata\<rparr>
             in case tx_sign E tx (signing_key w) of
                  Ok raw \<Rightarrow> send_raw_tx E T raw
                | _ \<Rightarrow> io_return Panic))))
         | _ \<Rightarrow> io_return Panic)"

definition auto_deposit ::
    "eth_crypto \<Rightarrow> transport \<Rightarrow> payment_wallet \<Rightarrow> payment_config \<Rightarrow> bytes \<Rightarrow> u64 \<Rightarrow> string rpc_io" where
  "auto_deposit E T w c nonce now =
     (let addr = ethereum_address w in
      io_bind (query_balance E T (cfg_usdc_contract c) addr) (\<lambda>usdc_balance.
      io_bind (query_gateway_balance E T (gateway_wallet c) (cfg_usdc_contract c) addr) (\<lambda>gw_balance.
      if usdc_balance = 0 \<and> gw_balance = 0 then io_return (Err (NoUsdc (ethereum_address_hex E w)))
      else if usdc_balance = 0 then io_return (Ok ''already_deposited'')
      else
        let deposit_amount = saturating_sub usdc_balance GAS_RESERVE in
        if deposit_amount = 0 then io_return (Err BalanceTooLow)
        else
          io_bind (deposit_with_authorization E T w c nonce now deposit_amount) (\<lambda>tx_hash.
          io_bind (wait_for_receipt T tx_hash 30) (\<lambda>success.
          io_return (if success then Ok tx_hash else Err (Reverted tx_hash)))))))"

subsection \<open>Settlement\<close>

record gateway_extra = ge_name :: string  ge_version :: string  ge_verifying_contract :: string

record payment_requirements =
  pr_scheme :: string
  pr_network :: string
  pr_asset :: string
  pr_amount :: string
  pr_pay_to :: string
  pr_max_timeout_seconds :: u32
  pr_extra :: gateway_extra

record authorization_data =
  ad_from :: string
  ad_to :: string
  ad_value :: string
  ad_valid_after :: string
  ad_valid_before :: string
  ad_nonce :: string

record payload_data = pd_signature :: string  pd_authorization :: authorization_data

record resource_info = ri_url :: string  ri_description :: string  ri_mime_type :: string

record payment_payload =
  pp_x402_version :: u32
  pp_resource :: "resource_info option"
  pp_accepted :: payment_requirements
  pp_payload :: payload_data

record settle_request =
  sr_x402_version :: u32
  sr_payment_payload :: payment_payload
  sr_payment_requirements :: payment_requirements

datatype settlement_error = Http string | Json string | Api string string

record settle_response =
  rs_success :: bool
  rs_payer :: "string option"
  rs_transaction :: "string option"
  rs_network :: "string option"
  rs_error_reason :: "string option"
  rs_error_message :: "string option"
  rs_message :: "string option"
  rs_error :: "string option"

definition build_settle_request :: "eth_crypto \<Rightarrow> payment_config \<Rightarrow> payment_submit \<Rightarrow> bytes \<Rightarrow> settle_request" where
  "build_settle_request E c submit server_address =
     (let network = ''eip155:'' @ to_dec (unat (cfg_chain_id c));
          asset = hex0x E (cfg_usdc_contract c);
          pay_to = hex0x E server_address;
          extra = \<lparr>ge_name = gateway_name c, ge_version = gateway_version c, ge_verifying_contract = hex0x E (gateway_wallet c)\<rparr>;
          requirements = \<lparr>pr_scheme = ''exact'', pr_network = network, pr_asset = asset, pr_amount = to_dec (unat (ps_value submit)),
            pr_pay_to = pay_to, pr_max_timeout_seconds = 345600, pr_extra = extra\<rparr>;
          sig_bytes = ps_r submit @ ps_s submit @ [ps_v submit];
          signature = hex0x E sig_bytes;
          authorization = \<lparr>ad_from = hex0x E (ps_from submit), ad_to = hex0x E (ps_to submit), ad_value = to_dec (unat (ps_value submit)),
            ad_valid_after = to_dec (unat (ps_valid_after submit)), ad_valid_before = to_dec (unat (ps_valid_before submit)),
            ad_nonce = hex0x E (ps_nonce submit)\<rparr>
      in \<lparr>sr_x402_version = 2,
          sr_payment_payload = \<lparr>pp_x402_version = 2,
            pp_resource = Some \<lparr>ri_url = ''boringtun-vpn://bandwidth'', ri_description = ''VPN bandwidth quota'',
              ri_mime_type = ''application/octet-stream''\<rparr>,
            pp_accepted = requirements, pp_payload = \<lparr>pd_signature = signature, pd_authorization = authorization\<rparr>\<rparr>,
          sr_payment_requirements = requirements\<rparr>)"

subsection \<open>What is spent\<close>

text \<open>The requests that submit a transaction, among those sent.\<close>

definition is_send :: "json \<Rightarrow> bool" where
  "is_send body \<longleftrightarrow> jget body ''method'' = Some (JStr ''eth_sendRawTransaction'')"

definition quiet :: "'a rpc_io \<Rightarrow> bool" where
  "quiet m \<longleftrightarrow> (\<forall>h. filter is_send (fst (m h)) = filter is_send h)"

definition sends_one :: "(json \<Rightarrow> bool) \<Rightarrow> 'a rpc_io \<Rightarrow> bool" where
  "sends_one P m \<longleftrightarrow> (\<forall>h. filter is_send (fst (m h)) = filter is_send h
     \<or> (\<exists>body. P body \<and> filter is_send (fst (m h)) = filter is_send h @ [body]))"

text \<open>A request that submits a deposit of \<open>amount\<close> from the wallet to the gateway, authorised by the wallet's
  own signature.\<close>

definition deposit_request :: "eth_crypto \<Rightarrow> payment_wallet \<Rightarrow> payment_config \<Rightarrow> bytes \<Rightarrow> u64 \<Rightarrow> u128 \<Rightarrow> json \<Rightarrow> bool" where
  "deposit_request E w c nonce now amount body \<longleftrightarrow>
     (\<exists>tx raw v r s. body = rpc_body ''eth_sendRawTransaction'' (JArr [JStr (hex0x E raw)])
        \<and> tx_sign E tx (signing_key w) = Ok raw \<and> tx_to tx = gateway_wallet c \<and> tx_value tx = 0
        \<and> tx_data tx = deposit_calldata c (ethereum_address w) amount 0 (now + 600) nonce v r s
        \<and> recover_address E (receive_digest E c (ethereum_address w) amount 0 (now + 600) nonce) v r s
            = Some (ethereum_address w))"

definition sample_config :: payment_config where
  "sample_config = \<lparr>cfg_chain_id = 5042002, cfg_usdc_contract = replicate 20 1, amount_per_quota = 10000, quota_bytes = 10485760,
     usdc_name = ''USDC'', usdc_version = ''2'', gateway_wallet = replicate 20 2, gateway_name = ''GatewayWalletBatched'',
     gateway_version = ''1'', gateway_api_url = [], rpc_url = [], is_server = True\<rparr>"

section \<open>Requests\<close>

lemma quiet_return [simp, intro]: "quiet (io_return r)"
  by (simp add: quiet_def io_return_def)

lemma quiet_call [simp, intro]: "rpc_method \<noteq> ''eth_sendRawTransaction'' \<Longrightarrow> quiet (rpc_call T rpc_method rpc_params)"
  by (simp add: quiet_def rpc_call_def is_send_def rpc_body_def Let_def)

lemma quiet_bind [intro]: "quiet m \<Longrightarrow> (\<And>a. quiet (f a)) \<Longrightarrow> quiet (io_bind m f)"
  unfolding quiet_def io_bind_def by (auto split: prod.splits rust.splits) (metis fst_conv)+

lemma quiet_or [intro]: "quiet m \<Longrightarrow> quiet (io_or m a)"
  unfolding quiet_def io_or_def by (auto split: prod.splits rust.splits) (metis fst_conv)+

lemma quiet_ops [simp, intro]:
  "quiet (eth_call E T to_addr data)" "quiet (get_nonce E T addr)" "quiet (gas_price T)" "quiet (max_priority_fee T)"
  "quiet (estimate_gas E T from_addr to_addr data)" "quiet (get_receipt T tx_hash)"
  unfolding eth_call_def get_nonce_def gas_price_def max_priority_fee_def estimate_gas_def get_receipt_def
  by (rule quiet_bind; simp)+

lemma quiet_queries [simp, intro]: "quiet (query_balance E T token addr)" "quiet (query_gateway_balance E T gateway token addr)"
  unfolding query_balance_def query_gateway_balance_def by (rule quiet_bind; simp)+

lemma quiet_wait [simp, intro]: "quiet (wait_for_receipt T tx_hash n)"
  by (induction n) (auto split: option.split)

lemma sends_quiet: "quiet m \<Longrightarrow> sends_one P m"
  by (simp add: quiet_def sends_one_def)

lemma sends_after: "quiet m \<Longrightarrow> (\<And>a. sends_one P (f a)) \<Longrightarrow> sends_one P (io_bind m f)"
  unfolding quiet_def sends_one_def io_bind_def by (auto split: prod.splits rust.splits) (metis fst_conv)+

lemma sends_before: "sends_one P m \<Longrightarrow> (\<And>a. quiet (f a)) \<Longrightarrow> sends_one P (io_bind m f)"
  unfolding quiet_def sends_one_def io_bind_def by (auto split: prod.splits rust.splits) (metis fst_conv)+

lemma send_raw_tx_sends:
  "P (rpc_body ''eth_sendRawTransaction'' (JArr [JStr (hex0x E raw)])) \<Longrightarrow> sends_one P (send_raw_tx E T raw)"
  unfolding sends_one_def send_raw_tx_def io_bind_def rpc_call_def io_return_def
  by (auto simp: is_send_def rpc_body_def Let_def split: prod.split rust.split)

lemma deposit_sends:
  assumes "eth_correct E" and "wf_wallet E w"
  shows "sends_one (deposit_request E w c nonce now amount) (deposit_with_authorization E T w c nonce now amount)"
proof -
  obtain v r s where sig: "sign_digest E w (receive_digest E c (ethereum_address w) amount 0 (now + 600) nonce) = Ok (v, r, s)"
      "recover_address E (receive_digest E c (ethereum_address w) amount 0 (now + 600) nonce) v r s = Some (ethereum_address w)"
    by (rule sign_digest_recovers [OF assms])
  have send: "sends_one (deposit_request E w c nonce now amount) (case tx_sign E tx (signing_key w) of
        Ok raw \<Rightarrow> send_raw_tx E T raw | _ \<Rightarrow> io_return Panic)"
    if "tx_to tx = gateway_wallet c" "tx_value tx = 0"
      "tx_data tx = deposit_calldata c (ethereum_address w) amount 0 (now + 600) nonce v r s" for tx
  proof (cases "tx_sign E tx (signing_key w)")
    case (Ok raw)
    then have "deposit_request E w c nonce now amount (rpc_body ''eth_sendRawTransaction'' (JArr [JStr (hex0x E raw)]))"
      unfolding deposit_request_def using that sig(2) by blast
    then show ?thesis using Ok by (simp add: send_raw_tx_sends)
  qed (simp_all add: sends_quiet)
  show ?thesis
    unfolding deposit_with_authorization_def Let_def sig(1)
    by (simp, intro sends_after send quiet_or quiet_bind) simp_all
qed



end
