(* ===== verification/Index_Lfsr.thy ===== *)
theory Index_Lfsr
  imports Veil_Prelude Machines
begin

text \<open>
  \<^verbatim>\<open>IndexLfsr\<close> of \<^verbatim>\<open>protocol/boringtun/src/device/mod.rs\<close>: the shift register that hands out the 24-bit peer
  indices of a device. The random numbers it is seeded with are a list of draws. The step is shown to be
  injective on 24-bit values, so that the register cannot repeat a value before it is back at its seed,
  which is where the source panics.
\<close>

section \<open>Definitions\<close>

record index_lfsr =
  initial :: u32
  lfsr :: u32
  mask :: u32

definition LFSR_MAX :: u32 where "LFSR_MAX = 0xffffff"
definition LFSR_POLY :: u32 where "LFSR_POLY = 0xd80000"

text \<open>The loop draws until a number is not zero; \<open>None\<close> when the draws given do not suffice.\<close>

fun random_index :: "u32 list \<Rightarrow> (u32 \<times> u32 list) option" where
  "random_index [] = None"
| "random_index (r # rs) = (let i = r AND LFSR_MAX in if i > 0 then Some (i, rs) else random_index rs)"

definition lfsr_step :: "u32 \<Rightarrow> u32" where
  "lfsr_step x = drop_bit 1 x XOR ((0 - (x AND 1)) AND LFSR_POLY)"

definition lfsr_next :: "index_lfsr \<Rightarrow> (unit, index_lfsr \<times> u32) rust" where
  "lfsr_next l =
     (let value = lfsr l - 1;
          x = lfsr_step (lfsr l)
      in if x = initial l then Panic else Ok (l\<lparr>lfsr := x\<rparr>, value XOR mask l))"

definition lfsr_default :: "u32 list \<Rightarrow> (index_lfsr \<times> u32 list) option" where
  "lfsr_default rs =
     (case random_index rs of
        None \<Rightarrow> None
      | Some (seed, rs) \<Rightarrow>
          (case random_index rs of
             None \<Rightarrow> None
           | Some (m, rs) \<Rightarrow> Some (\<lparr>initial = seed, lfsr = seed, mask = m\<rparr>, rs)))"

text \<open>\<open>n\<close> indices in a row.\<close>

fun lfsr_take :: "nat \<Rightarrow> index_lfsr \<Rightarrow> (unit, index_lfsr \<times> u32 list) rust" where
  "lfsr_take 0 l = Ok (l, [])"
| "lfsr_take (Suc n) l =
     rbind (lfsr_next l) (\<lambda>(l, i). rbind (lfsr_take n l) (\<lambda>(l, is). Ok (l, i # is)))"

text \<open>The register has not come back to its seed since it was seeded; \<open>issued\<close> are the indices handed out.\<close>

definition lfsr_at :: "index_lfsr \<Rightarrow> nat \<Rightarrow> u32" where
  "lfsr_at l k = (lfsr_step ^^ k) (initial l)"

definition lfsr_ok :: "nat \<Rightarrow> index_lfsr \<Rightarrow> bool" where
  "lfsr_ok n l \<longleftrightarrow> 0 < initial l \<and> initial l \<le> LFSR_MAX \<and> mask l \<le> LFSR_MAX \<and> lfsr l = lfsr_at l n
     \<and> (\<forall>k. 0 < k \<and> k \<le> n \<longrightarrow> lfsr_at l k \<noteq> initial l)"

definition issued :: "index_lfsr \<Rightarrow> nat \<Rightarrow> u32" where
  "issued l k = (lfsr_at l k - 1) XOR mask l"

section \<open>The register\<close>

lemma random_index_bounds: "random_index rs = Some (i, rs') \<Longrightarrow> 0 < i \<and> i \<le> LFSR_MAX"
  by (induction rs rule: random_index.induct) (auto simp: Let_def word_and_le1 split: if_splits)

lemma le_LFSR_MAX_iff: "x \<le> LFSR_MAX \<longleftrightarrow> (\<forall>k. bit x k \<longrightarrow> k < 24)"
proof -
  have "x \<le> LFSR_MAX \<longleftrightarrow> unat x < 2 ^ 24" by (auto simp: LFSR_MAX_def word_le_nat_alt)
  also have "\<dots> \<longleftrightarrow> take_bit 24 (unat x) = unat x" by (simp only: take_bit_nat_eq_self_iff)
  also have "\<dots> \<longleftrightarrow> (\<forall>k. bit x k \<longrightarrow> k < 24)" by (auto simp: bit_eq_iff bit_take_bit_iff bit_unsigned_iff)
  finally show ?thesis .
qed

lemma bit_lfsr_step:
  "bit (lfsr_step x) k \<longleftrightarrow> bit x (Suc k) \<noteq> (bit x 0 \<and> k \<in> {19, 20, 22, 23})"
proof -
  have poly: "LFSR_POLY = push_bit 19 1 OR push_bit 20 1 OR push_bit 22 1 OR push_bit 23 1"
    by (simp add: LFSR_POLY_def)
  have "bit LFSR_POLY k \<longleftrightarrow> k \<in> {19, 20, 22, 23}"
    unfolding poly bit_or_iff bit_push_bit_iff by (auto simp: bit_1_iff)
  moreover have "bit (0 - (x AND 1)) k \<longleftrightarrow> bit x 0 \<and> k < 32"
    by (auto simp: and_one_eq mod_2_eq_odd bit_0)
  ultimately show ?thesis
    unfolding lfsr_step_def by (auto simp: bit_xor_iff bit_and_iff bit_drop_bit_eq)
qed

lemma lfsr_step_bounds: "x \<le> LFSR_MAX \<Longrightarrow> lfsr_step x \<le> LFSR_MAX"
  unfolding le_LFSR_MAX_iff bit_lfsr_step by fastforce

lemma lfsr_step_inj:
  assumes "x \<le> LFSR_MAX" "y \<le> LFSR_MAX" "lfsr_step x = lfsr_step y"
  shows "x = y"
proof -
  have eq: "(bit x (Suc k) \<noteq> (bit x 0 \<and> k \<in> {19, 20, 22, 23})) = (bit y (Suc k) \<noteq> (bit y 0 \<and> k \<in> {19, 20, 22, 23}))" for k
    using assms(3) bit_lfsr_step by metis
  have low: "bit x 0 = bit y 0"
    using eq [of 23] assms(1,2) unfolding le_LFSR_MAX_iff by fastforce
  have "bit x k = bit y k" for k
    using eq [of "k - 1"] low by (cases k) auto
  then show ?thesis by (simp add: bit_eq_iff)
qed

lemma lfsr_at_bounds: "initial l \<le> LFSR_MAX \<Longrightarrow> lfsr_at l k \<le> LFSR_MAX"
  by (induction k) (auto simp: lfsr_at_def lfsr_step_bounds)

lemma lfsr_at_cancel:
  "initial l \<le> LFSR_MAX \<Longrightarrow> lfsr_at l (j + k) = lfsr_at l j \<Longrightarrow> lfsr_at l k = initial l"
proof (induction j)
  case (Suc j)
  then have "lfsr_at l (j + k) = lfsr_at l j"
    using lfsr_step_inj [OF lfsr_at_bounds lfsr_at_bounds, of l l "j + k" j] by (simp add: lfsr_at_def)
  with Suc show ?case by blast
qed (simp add: lfsr_at_def)

lemma lfsr_step_0: "x \<le> LFSR_MAX \<Longrightarrow> lfsr_step x = 0 \<Longrightarrow> x = 0"
  using lfsr_step_inj [of x 0] by (simp add: lfsr_step_def)

lemma lfsr_at_not_0: "0 < initial l \<Longrightarrow> initial l \<le> LFSR_MAX \<Longrightarrow> lfsr_at l k \<noteq> 0"
proof (induction k)
  case (Suc k)
  then show ?case using lfsr_step_0 [OF lfsr_at_bounds, of l k] by (auto simp: lfsr_at_def)
qed (simp add: lfsr_at_def)

lemma xor_cancel: "(a :: u32) XOR m = b XOR m \<Longrightarrow> a = b"
  by (auto simp: bit_eq_iff bit_xor_iff)

lemma issued_inj:
  assumes "lfsr_ok n l" "i \<le> n" "j \<le> n" "issued l i = issued l j"
  shows "i = j"
proof -
  have bounds: "initial l \<le> LFSR_MAX" using assms(1) by (simp add: lfsr_ok_def)
  have eq: "lfsr_at l i = lfsr_at l j"
    using assms(4) xor_cancel unfolding issued_def by (metis diff_add_cancel)
  have no: False if "a < b" "b \<le> n" "lfsr_at l b = lfsr_at l a" for a b
    using lfsr_at_cancel [OF bounds, of a "b - a"] that assms(1) by (auto simp: lfsr_ok_def)
  show ?thesis using no [of i j] no [of j i] eq assms(2,3) by (metis linorder_neqE_nat)
qed

lemma issued_bounds: "lfsr_ok n l \<Longrightarrow> issued l k \<le> LFSR_MAX"
proof -
  assume ok: "lfsr_ok n l"
  then have at: "lfsr_at l k \<noteq> 0" "lfsr_at l k \<le> LFSR_MAX" "mask l \<le> LFSR_MAX"
    by (simp_all add: lfsr_ok_def lfsr_at_not_0 lfsr_at_bounds)
  then have "lfsr_at l k - 1 \<le> LFSR_MAX" 
    using unat_minus_one [of "lfsr_at l k"] diff_le_self order_trans unfolding word_le_nat_alt by metis
  with at(3) show ?thesis unfolding issued_def le_LFSR_MAX_iff by (auto simp: bit_xor_iff)
qed

lemma lfsr_next_ok:
  assumes "lfsr_ok n l" "lfsr_next l = Ok (l', i)"
  shows "lfsr_ok (Suc n) l'" "i = issued l n" "issued l' = issued l" "initial l' = initial l" "mask l' = mask l"
proof -
  have l': "l' = l\<lparr>lfsr := lfsr_step (lfsr l)\<rparr>" and i: "i = (lfsr l - 1) XOR mask l"
    and ne: "lfsr_step (lfsr l) \<noteq> initial l"
    using assms(2) by (auto simp: lfsr_next_def Let_def split: if_splits)
  have at: "lfsr_at l' = lfsr_at l" by (simp add: l' lfsr_at_def fun_eq_iff)
  show "issued l' = issued l" "initial l' = initial l" "mask l' = mask l" by (simp_all add: issued_def fun_eq_iff at) (simp_all add: l')
  show "i = issued l n" using assms(1) by (simp add: i issued_def lfsr_ok_def)
  have new: "lfsr_at l (Suc n) = lfsr_step (lfsr l)" using assms(1) by (simp add: lfsr_ok_def lfsr_at_def)
  then show "lfsr_ok (Suc n) l'"
    using assms(1) ne unfolding lfsr_ok_def at by (auto simp: l' le_Suc_eq)
qed

lemma lfsr_take_issued:
  "lfsr_ok n l \<Longrightarrow> lfsr_take m l = Ok (l', is) \<Longrightarrow> is = map (issued l) [n..<n + m] \<and> lfsr_ok (n + m) l' \<and> issued l' = issued l"
proof (induction m arbitrary: n l "is")
  case (Suc m)
  then obtain l1 i js where step: "lfsr_next l = Ok (l1, i)" and rest: "lfsr_take m l1 = Ok (l', js)" and "is": "is = i # js"
    by (auto simp: rbind_eq_Ok)
  note one = lfsr_next_ok [OF Suc.prems(1) step]
  show ?case using Suc.IH [OF one(1) rest] one by (simp add: "is" upt_rec [of n])
qed auto

lemma lfsr_default_ok: "lfsr_default rs = Some (l, rs') \<Longrightarrow> lfsr_ok 0 l"
  by (auto simp: lfsr_default_def lfsr_ok_def lfsr_at_def dest!: random_index_bounds split: option.splits)

text \<open>C30. However many indices a freshly seeded register hands out before it panics, they are pairwise
  distinct and fit into the 24 bits that the receiver index of a packet reserves for the peer.\<close>

theorem peer_indices_distinct:
  assumes "lfsr_default rs = Some (l, rs')" and "lfsr_take n l = Ok (l', is)"
  shows "distinct is \<and> length is = n \<and> (\<forall>i \<in> set is. i < 2 ^ 24)"
proof -
  have ok: "lfsr_ok 0 l" by (rule lfsr_default_ok [OF assms(1)])
  have "is": "is = map (issued l) [0..<n]" and ok': "lfsr_ok n l'" and eq: "issued l' = issued l"
    using lfsr_take_issued [OF ok assms(2)] by simp_all
  have "inj_on (issued l) {0..<n}"
    using issued_inj [OF ok', unfolded eq] by (intro inj_onI) auto
  moreover have "issued l k < 2 ^ 24" for k
    using issued_bounds [OF ok, of k] by (auto simp: LFSR_MAX_def word_le_nat_alt word_less_nat_alt)
  ultimately show ?thesis by (auto simp: "is" distinct_map)
qed

theorem peer_indices_distinct_witness:
  "\<exists>l l' is. lfsr_default [0, 5, 0x1000007] = Some (l, []) \<and> lfsr_take 4 l = Ok (l', is)
     \<and> distinct is \<and> length is = 4 \<and> (\<forall>i \<in> set is. i < 2 ^ 24)"
proof -
  have seeded: "lfsr_default [0, 5, 0x1000007] = Some (\<lparr>initial = 5, lfsr = 5, mask = 7\<rparr>, [])" by code_simp
  have taken: "lfsr_take 4 \<lparr>initial = 5, lfsr = 5, mask = 7\<rparr>
      = Ok (\<lparr>initial = 5, lfsr = 0x770000, mask = 7\<rparr>, [3, 0xd80006, 0x6c0007, 0xedfff8])"
    by code_simp
  show ?thesis using peer_indices_distinct [OF seeded taken] seeded taken by blast
qed

end
