(* ===== verification/Device_Peers.thy ===== *)
theory Device_Peers
  imports Tunnel Bandwidth_Quota Eth_Deposit Index_Lfsr "HOL-Library.AList"
begin

text \<open>
  The peers of a device: \<^verbatim>\<open>device/allowed_ips.rs\<close>, \<^verbatim>\<open>device/peer.rs\<close> and the operations of \<^verbatim>\<open>device/mod.rs\<close>
  that add, remove and rekey peers.

  A peer is shared between the tables of the device by reference (\<^verbatim>\<open>Arc<Mutex<Peer>>\<close>), so the device has an
  arena of peers and its tables hold positions in it; two references are equal (\<^verbatim>\<open>Arc::ptr_eq\<close>) when the
  positions are. Rate limiters are shared in the same way. A hash map is an association list in the order
  in which it is iterated.

  The crates \<^verbatim>\<open>ip_network\<close> and \<^verbatim>\<open>ip_network_table\<close> are the parameter \<open>net_table\<close>; \<open>net_table_ok\<close> states what is
  documented of them. The operating system is the parameter \<open>os\<close>.
\<close>

section \<open>Definitions\<close>

subsection \<open>Allowed addresses\<close>

type_synonym sock_addr = "ip_addr \<times> u16"
type_synonym ip_network = "ip_addr \<times> u8"

record ('d, 't) net_table =
  new_truncate :: "ip_addr \<Rightarrow> u8 \<Rightarrow> ip_network option"
  table_new :: 't
  table_insert :: "'t \<Rightarrow> ip_network \<Rightarrow> 'd \<Rightarrow> 't \<times> 'd option"
  longest_match :: "'t \<Rightarrow> ip_addr \<Rightarrow> (ip_network \<times> 'd) option"
  table_retain :: "'t \<Rightarrow> (ip_network \<Rightarrow> 'd \<Rightarrow> bool) \<Rightarrow> 't"
  table_iter :: "'t \<Rightarrow> (ip_network \<times> 'd) list"

record allowed_ip =
  ai_addr :: ip_addr
  ai_cidr :: u8

definition allowed_insert :: "('d, 't) net_table \<Rightarrow> 't \<Rightarrow> ip_addr \<Rightarrow> u32 \<Rightarrow> 'd \<Rightarrow> (unit, 't \<times> 'd option) rust" where
  "allowed_insert N t key cidr d =
     (case new_truncate N key (ucast cidr) of None \<Rightarrow> Panic | Some n \<Rightarrow> Ok (table_insert N t n d))"

definition allowed_find :: "('d, 't) net_table \<Rightarrow> 't \<Rightarrow> ip_addr \<Rightarrow> 'd option" where
  "allowed_find N t key = map_option snd (longest_match N t key)"

definition allowed_remove :: "('d, 't) net_table \<Rightarrow> 't \<Rightarrow> ('d \<Rightarrow> bool) \<Rightarrow> 't" where
  "allowed_remove N t predicate = table_retain N t (\<lambda>_ v. \<not> predicate v)"

definition allowed_iter :: "('d, 't) net_table \<Rightarrow> 't \<Rightarrow> ('d \<times> ip_addr \<times> u8) list" where
  "allowed_iter N t = map (\<lambda>((address, netmask), d). (d, address, netmask)) (table_iter N t)"

fun insert_all :: "('d, 't) net_table \<Rightarrow> 'd \<Rightarrow> allowed_ip list \<Rightarrow> 't \<Rightarrow> (unit, 't) rust" where
  "insert_all N d [] t = Ok t"
| "insert_all N d (ip # ips) t =
     rbind (allowed_insert N t (ai_addr ip) (ucast (ai_cidr ip)) d) (\<lambda>(t, _). insert_all N d ips t)"

definition allowed_collect :: "('d, 't) net_table \<Rightarrow> 'd \<Rightarrow> allowed_ip list \<Rightarrow> (unit, 't) rust" where
  "allowed_collect N d ips = insert_all N d ips (table_new N)"

subsection \<open>Peers\<close>

record endpoint =
  ep_addr :: "sock_addr option"
  ep_conn :: bool

record 'a peer =
  p_tunnel :: tunn
  p_limiter :: nat
  p_index :: u32
  p_endpoint :: endpoint
  p_allowed :: 'a
  p_preshared_key :: "bytes option"
  p_quota :: "quota option"

text \<open>What the operating system answers: whether shutting down a socket succeeds; the outcome of creating,
  binding, connecting and cloning a connected socket; the port that binding the listeners to a port gives.\<close>

record os =
  os_shutdown :: bool
  os_connect :: "sock_addr \<Rightarrow> u16 \<Rightarrow> u32 option \<Rightarrow> (unit, unit) rust"
  os_bind :: "u16 \<Rightarrow> (unit, u16) rust"

definition peer_new ::
    "(unit, 'a) net_table \<Rightarrow> tunn \<Rightarrow> nat \<Rightarrow> u32 \<Rightarrow> sock_addr option \<Rightarrow> allowed_ip list \<Rightarrow> bytes option
     \<Rightarrow> (unit, 'a peer) rust" where
  "peer_new NP t limiter idx addr allowed_ips psk =
     rbind (allowed_collect NP () allowed_ips) (\<lambda>ips.
     Ok \<lparr>p_tunnel = t, p_limiter = limiter, p_index = idx, p_endpoint = \<lparr>ep_addr = addr, ep_conn = False\<rparr>,
         p_allowed = ips, p_preshared_key = psk, p_quota = None\<rparr>)"

definition shutdown_endpoint :: "os \<Rightarrow> 'a peer \<Rightarrow> (unit, 'a peer) rust" where
  "shutdown_endpoint os p =
     (if ep_conn (p_endpoint p)
      then if os_shutdown os then Ok (p\<lparr>p_endpoint := (p_endpoint p)\<lparr>ep_conn := False\<rparr>\<rparr>) else Panic
      else Ok p)"

definition set_endpoint :: "os \<Rightarrow> 'a peer \<Rightarrow> sock_addr \<Rightarrow> (unit, 'a peer) rust" where
  "set_endpoint os p addr =
     (if ep_addr (p_endpoint p) \<noteq> Some addr
      then rbind (if ep_conn (p_endpoint p) then if os_shutdown os then Ok () else Panic else Ok ()) (\<lambda>_.
           Ok (p\<lparr>p_endpoint := \<lparr>ep_addr = Some addr, ep_conn = False\<rparr>\<rparr>))
      else Ok p)"

definition connect_endpoint :: "os \<Rightarrow> 'a peer \<Rightarrow> u16 \<Rightarrow> u32 option \<Rightarrow> (unit, 'a peer) rust" where
  "connect_endpoint os p port fwmark =
     (if ep_conn (p_endpoint p) then Err () else
      case ep_addr (p_endpoint p) of
        None \<Rightarrow> Panic
      | Some addr \<Rightarrow> rbind (os_connect os addr port fwmark) (\<lambda>_.
          Ok (p\<lparr>p_endpoint := (p_endpoint p)\<lparr>ep_conn := True\<rparr>\<rparr>)))"

definition is_allowed_ip :: "(unit, 'a) net_table \<Rightarrow> 'a peer \<Rightarrow> ip_addr \<Rightarrow> bool" where
  "is_allowed_ip NP p addr \<longleftrightarrow> allowed_find NP (p_allowed p) addr \<noteq> None"

definition allowed_ips :: "(unit, 'a) net_table \<Rightarrow> 'a peer \<Rightarrow> (ip_addr \<times> u8) list" where
  "allowed_ips NP p = map snd (allowed_iter NP (p_allowed p))"

subsection \<open>The device\<close>

definition HANDSHAKE_RATE_LIMIT :: u64 where "HANDSHAKE_RATE_LIMIT = 100"

text \<open>The listening sockets are opened and closed together (\<open>dv_udp\<close>); the settlement client is its URL.\<close>

record ('a, 'b) device =
  dv_key_pair :: "(bytes \<times> bytes) option"
  dv_listen_port :: u16
  dv_fwmark :: "u32 option"
  dv_udp :: bool
  dv_arena :: "'a peer list"
  dv_limiters :: "rate_limiter list"
  dv_peers :: "(bytes \<times> nat) list"
  dv_by_ip :: 'b
  dv_by_idx :: "(u32 \<times> nat) list"
  dv_next_index :: index_lfsr
  dv_use_connected :: bool
  dv_mtu :: nat
  dv_rate_limiter :: "nat option"
  dv_wallet :: "payment_wallet option"
  dv_config :: payment_config
  dv_settlement :: "string option"

definition device_new :: "(nat, 'b) net_table \<Rightarrow> index_lfsr \<Rightarrow> bool \<Rightarrow> nat \<Rightarrow> payment_config \<Rightarrow> ('a, 'b) device" where
  "device_new ND l use_connected mtu cfg =
     \<lparr>dv_key_pair = None, dv_listen_port = 0, dv_fwmark = None, dv_udp = False, dv_arena = [], dv_limiters = [],
      dv_peers = [], dv_by_ip = table_new ND, dv_by_idx = [], dv_next_index = l, dv_use_connected = use_connected,
      dv_mtu = mtu, dv_rate_limiter = None, dv_wallet = None, dv_config = cfg, dv_settlement = None\<rparr>"

definition remove_peer :: "(nat, 'b) net_table \<Rightarrow> os \<Rightarrow> ('a, 'b) device \<Rightarrow> bytes \<Rightarrow> (unit, ('a, 'b) device) rust" where
  "remove_peer ND os d pub_key =
     (case map_of (dv_peers d) pub_key of
        None \<Rightarrow> Ok d
      | Some r \<Rightarrow>
          let d = d\<lparr>dv_peers := AList.delete pub_key (dv_peers d)\<rparr> in
          rbind (shutdown_endpoint os (dv_arena d ! r)) (\<lambda>p.
          Ok (d\<lparr>dv_arena := (dv_arena d)[r := p],
                dv_by_idx := AList.delete (p_index p) (dv_by_idx d),
                dv_by_ip := allowed_remove ND (dv_by_ip d) (\<lambda>q. r = q)\<rparr>)))"

definition update_peer ::
    "crypto \<Rightarrow> (unit, 'a) net_table \<Rightarrow> (nat, 'b) net_table \<Rightarrow> os \<Rightarrow> ('a, 'b) device \<Rightarrow> bytes \<Rightarrow> bool \<Rightarrow> bool
     \<Rightarrow> sock_addr option \<Rightarrow> allowed_ip list \<Rightarrow> u16 option \<Rightarrow> bytes option
     \<Rightarrow> bytes \<Rightarrow> bytes \<Rightarrow> nat \<Rightarrow> (nat \<Rightarrow> nat) \<Rightarrow> (unit, ('a, 'b) device) rust" where
  "update_peer C NP ND os d pub_key remove replace_ips addr ips keepalive psk
       random_secret random_nonce_key system_time clk =
     (if remove then remove_peer ND os d pub_key
      else if map_of (dv_peers d) pub_key \<noteq> None then Panic
      else
        rbind (lfsr_next (dv_next_index d)) (\<lambda>(l, idx).
        let d = d\<lparr>dv_next_index := l\<rparr> in
        case dv_key_pair d of
          None \<Rightarrow> Panic
        | Some (device_key, _) \<Rightarrow>
            let (t, rl) = tunn_new C device_key pub_key psk keepalive idx None random_secret random_nonce_key
                            system_time clk
            in rbind (peer_new NP t (length (dv_limiters d)) idx addr ips psk) (\<lambda>p.
               let p = p\<lparr>p_quota := Some (new_quota DEFAULT_QUOTA_BYTES)\<rparr>;
                   r = length (dv_arena d);
                   d = d\<lparr>dv_arena := dv_arena d @ [p], dv_limiters := dv_limiters d @ [rl],
                         dv_peers := AList.update pub_key r (dv_peers d),
                         dv_by_idx := AList.update idx r (dv_by_idx d)\<rparr>
               in rbind (insert_all ND r ips (dv_by_ip d)) (\<lambda>ips. Ok (d\<lparr>dv_by_ip := ips\<rparr>)))))"

definition clear_peers :: "(nat, 'b) net_table \<Rightarrow> ('a, 'b) device \<Rightarrow> ('a, 'b) device" where
  "clear_peers ND d = d\<lparr>dv_peers := [], dv_by_idx := [], dv_by_ip := table_new ND\<rparr>"

text \<open>The loops over \<^verbatim>\<open>self.peers.values()\<close>.\<close>

fun shutdown_all :: "os \<Rightarrow> nat list \<Rightarrow> 'a peer list \<Rightarrow> (unit, 'a peer list) rust" where
  "shutdown_all os [] arena = Ok arena"
| "shutdown_all os (r # rs) arena =
     rbind (shutdown_endpoint os (arena ! r)) (\<lambda>p. shutdown_all os rs (arena[r := p]))"

fun rekey_all ::
    "crypto \<Rightarrow> bytes \<Rightarrow> bytes \<Rightarrow> nat \<Rightarrow> rate_limiter \<Rightarrow> nat list \<Rightarrow> 'a peer list \<Rightarrow> (unit, 'a peer list) rust" where
  "rekey_all C sk pk limiter rl [] arena = Ok arena"
| "rekey_all C sk pk limiter rl (r # rs) arena =
     rbind (rmap_err (\<lambda>_. ()) (tunn_set_static_private C (p_tunnel (arena ! r)) sk pk (Some rl) [] [] (\<lambda>_. 0))) (\<lambda>(t, _).
     rekey_all C sk pk limiter rl rs (arena[r := (arena ! r)\<lparr>p_tunnel := t, p_limiter := limiter\<rparr>]))"

text \<open>Binding fails after the old sockets are closed: \<open>Err d\<close> is the error with the device it leaves.\<close>

definition open_listen_socket :: "os \<Rightarrow> ('a, 'b) device \<Rightarrow> u16 \<Rightarrow> (('a, 'b) device, ('a, 'b) device) rust" where
  "open_listen_socket os d port =
     rbind (rmap_err (\<lambda>_. d) (shutdown_all os (map snd (dv_peers d)) (dv_arena d))) (\<lambda>arena.
     let d = d\<lparr>dv_udp := False, dv_arena := arena\<rparr> in
     rbind (rmap_err (\<lambda>_. d) (os_bind os port)) (\<lambda>port.
     Ok (d\<lparr>dv_udp := True, dv_listen_port := port\<rparr>)))"

text \<open>Besides the device, the requests that an automatic deposit sends to the node.\<close>

definition set_key ::
    "crypto \<Rightarrow> eth_crypto \<Rightarrow> transport \<Rightarrow> ('a, 'b) device \<Rightarrow> bytes \<Rightarrow> bytes \<Rightarrow> bytes \<Rightarrow> (nat \<Rightarrow> nat)
     \<Rightarrow> bytes \<Rightarrow> u64 \<Rightarrow> (unit, ('a, 'b) device \<times> json list) rust" where
  "set_key C E T d private_key random_secret random_nonce_key clk nonce unix_now =
     (let public_key = pubkey C private_key in
      if Some public_key = map_option snd (dv_key_pair d) then Ok (d, [])
      else
        let rl = rate_limiter_new C public_key HANDSHAKE_RATE_LIMIT random_secret random_nonce_key (clk 0) (clk 1);
            limiter = length (dv_limiters d);
            d = d\<lparr>dv_limiters := dv_limiters d @ [rl]\<rparr>
        in rbind (rekey_all C private_key public_key limiter rl (map snd (dv_peers d)) (dv_arena d)) (\<lambda>arena.
           let d = d\<lparr>dv_arena := arena, dv_key_pair := Some (private_key, public_key),
                     dv_rate_limiter := Some limiter\<rparr>
           in rbind (from_wireguard_key E private_key) (\<lambda>wallet.
              rbind (if is_server (dv_config d) then Ok []
                     else case auto_deposit E T wallet (dv_config d) nonce unix_now [] of
                            (requests, Panic) \<Rightarrow> Panic
                          | (requests, _) \<Rightarrow> Ok requests) (\<lambda>requests.
              let d = d\<lparr>dv_wallet := Some wallet\<rparr>;
                  d = (if is_server (dv_config d)
                       then d\<lparr>dv_settlement := Some (gateway_api_url (dv_config d))\<rparr> else d)
              in Ok (d, requests)))))"

subsection \<open>Management as a machine\<close>

text \<open>The calls of the configuration interface, each with what it draws from the operating system.\<close>

datatype mgmt_op =
    UpdatePeer os bytes bool bool "sock_addr option" "allowed_ip list" "u16 option" "bytes option" bytes bytes nat "nat \<Rightarrow> nat"
  | ClearPeers
  | SetKey transport bytes bytes bytes "nat \<Rightarrow> nat" bytes u64
  | OpenListenSocket os u16

fun mgmt ::
    "crypto \<Rightarrow> eth_crypto \<Rightarrow> (unit, 'a) net_table \<Rightarrow> (nat, 'b) net_table \<Rightarrow> ('a, 'b) device \<Rightarrow> mgmt_op
     \<Rightarrow> (unit, ('a, 'b) device) rust" where
  "mgmt C E NP ND d (UpdatePeer os pk rm rp addr ips ka psk rs rk st clk) =
     update_peer C NP ND os d pk rm rp addr ips ka psk rs rk st clk"
| "mgmt C E NP ND d ClearPeers = Ok (clear_peers ND d)"
| "mgmt C E NP ND d (SetKey T sk rs rk clk nonce now) =
     rbind (set_key C E T d sk rs rk clk nonce now) (\<lambda>(d, _). Ok d)"
| "mgmt C E NP ND d (OpenListenSocket os port) =
     (case open_listen_socket os d port of Ok d \<Rightarrow> Ok d | Err d \<Rightarrow> Ok d | Panic \<Rightarrow> Panic)"

definition mgmt_step ::
    "crypto \<Rightarrow> eth_crypto \<Rightarrow> (unit, 'a) net_table \<Rightarrow> (nat, 'b) net_table \<Rightarrow> (unit, ('a, 'b) device) rust \<Rightarrow> mgmt_op
     \<Rightarrow> (unit, ('a, 'b) device) rust \<times> unit" where
  "mgmt_step C E NP ND s x = (rbind s (\<lambda>d. mgmt C E NP ND d x), ())"

subsection \<open>What is documented of the tables\<close>

text \<open>\<open>entries\<close> are the entries of a table, \<open>contains\<close> says whether an address belongs to a network, \<open>trunc\<close> is
  the network of an address and a prefix length.\<close>

definition net_table_ok ::
    "('d, 't) net_table \<Rightarrow> ('t \<Rightarrow> ip_network \<Rightarrow> 'd option) \<Rightarrow> (ip_network \<Rightarrow> ip_addr \<Rightarrow> bool)
     \<Rightarrow> (ip_addr \<Rightarrow> u8 \<Rightarrow> ip_network option) \<Rightarrow> bool" where
  "net_table_ok N entries contains trunc \<longleftrightarrow>
     new_truncate N = trunc
     \<and> (\<forall>n. entries (table_new N) n = None)
     \<and> (\<forall>t n d. entries (fst (table_insert N t n d)) = (entries t)(n \<mapsto> d))
     \<and> (\<forall>t a. case longest_match N t a of
            None \<Rightarrow> \<forall>n. contains n a \<longrightarrow> entries t n = None
          | Some (n, d) \<Rightarrow> entries t n = Some d \<and> contains n a
              \<and> (\<forall>m. contains m a \<and> entries t m \<noteq> None \<longrightarrow> snd m \<le> snd n))
     \<and> (\<forall>t P n. entries (table_retain N t P) n =
            (case entries t n of None \<Rightarrow> None | Some d \<Rightarrow> if P n d then Some d else None))
     \<and> (\<forall>t. set (table_iter N t) = {(n, d). entries t n = Some d})"

text \<open>A concrete table: an association list searched from end to end.\<close>

fun contains_ip :: "ip_network \<Rightarrow> ip_addr \<Rightarrow> bool" where
  "contains_ip (V4 n, l) (V4 a) \<longleftrightarrow> drop_bit (32 - unat l) n = drop_bit (32 - unat l) a"
| "contains_ip (V6 n, l) (V6 a) \<longleftrightarrow> drop_bit (128 - unat l) n = drop_bit (128 - unat l) a"
| "contains_ip _ _ \<longleftrightarrow> False"

fun truncate_ip :: "ip_addr \<Rightarrow> u8 \<Rightarrow> ip_network option" where
  "truncate_ip (V4 a) l = (if l \<le> 32 then Some (V4 (push_bit (32 - unat l) (drop_bit (32 - unat l) a)), l) else None)"
| "truncate_ip (V6 a) l = (if l \<le> 128 then Some (V6 (push_bit (128 - unat l) (drop_bit (128 - unat l) a)), l) else None)"

fun list_match :: "(ip_network \<times> 'd) list \<Rightarrow> ip_addr \<Rightarrow> (ip_network \<times> 'd) option" where
  "list_match [] a = None"
| "list_match ((n, d) # t) a =
     (if contains_ip n a
      then case list_match t a of
             None \<Rightarrow> Some (n, d)
           | Some (m, e) \<Rightarrow> if snd m \<le> snd n then Some (n, d) else Some (m, e)
      else list_match t a)"

definition list_table :: "('d, (ip_network \<times> 'd) list) net_table" where
  "list_table =
     \<lparr>new_truncate = truncate_ip, table_new = [], table_insert = (\<lambda>t n d. (AList.update n d t, map_of t n)),
      longest_match = (\<lambda>t. list_match (AList.clearjunk t)),
      table_retain = (\<lambda>t P. filter (\<lambda>(n, d). P n d) (AList.clearjunk t)), table_iter = AList.clearjunk\<rparr>"

subsection \<open>Consistent tables\<close>

definition peer_key :: "'a peer \<Rightarrow> bytes" where
  "peer_key p = peer_static_public (params (tn_handshake (p_tunnel p)))"

text \<open>The three tables agree: a peer is found under its key and under its index, an index found is that of
  a peer in the table and was handed out by the register, and a route leads to a peer in the table that
  is allowed the network of the route.\<close>

definition dev_ok ::
    "('a \<Rightarrow> ip_network \<Rightarrow> unit option) \<Rightarrow> ('b \<Rightarrow> ip_network \<Rightarrow> nat option) \<Rightarrow> nat \<Rightarrow> ('a, 'b) device \<Rightarrow> bool" where
  "dev_ok EP ED n d \<longleftrightarrow>
     lfsr_ok n (dv_next_index d)
     \<and> (\<forall>k r. map_of (dv_peers d) k = Some r \<longrightarrow>
          r < length (dv_arena d) \<and> peer_key (dv_arena d ! r) = k
          \<and> map_of (dv_by_idx d) (p_index (dv_arena d ! r)) = Some r)
     \<and> (\<forall>i r. map_of (dv_by_idx d) i = Some r \<longrightarrow>
          (\<exists>k. map_of (dv_peers d) k = Some r) \<and> p_index (dv_arena d ! r) = i
          \<and> (\<exists>m < n. i = issued (dv_next_index d) m))
     \<and> (\<forall>net r. ED (dv_by_ip d) net = Some r \<longrightarrow>
          (\<exists>k. map_of (dv_peers d) k = Some r) \<and> EP (p_allowed (dv_arena d ! r)) net \<noteq> None)"

definition same_peers :: "'a peer list \<Rightarrow> 'a peer list \<Rightarrow> bool" where
  "same_peers ps qs \<longleftrightarrow> length ps = length qs
     \<and> (\<forall>r < length ps. peer_key (ps ! r) = peer_key (qs ! r) \<and> p_index (ps ! r) = p_index (qs ! r)
          \<and> p_allowed (ps ! r) = p_allowed (qs ! r))"

definition tables_ok ::
    "(unit, 'a) net_table \<Rightarrow> (nat, 'b) net_table \<Rightarrow> ('a \<Rightarrow> ip_network \<Rightarrow> unit option) \<Rightarrow> ('b \<Rightarrow> ip_network \<Rightarrow> nat option)
     \<Rightarrow> (ip_network \<Rightarrow> ip_addr \<Rightarrow> bool) \<Rightarrow> (ip_addr \<Rightarrow> u8 \<Rightarrow> ip_network option) \<Rightarrow> bool" where
  "tables_ok NP ND EP ED contains trunc \<longleftrightarrow>
     net_table_ok NP EP contains trunc \<and> net_table_ok ND ED contains trunc"

definition mgmt_inv ::
    "(unit, 'a) net_table \<Rightarrow> (nat, 'b) net_table \<Rightarrow> ('a \<Rightarrow> ip_network \<Rightarrow> unit option) \<Rightarrow> ('b \<Rightarrow> ip_network \<Rightarrow> nat option)
     \<Rightarrow> (ip_network \<Rightarrow> ip_addr \<Rightarrow> bool) \<Rightarrow> (ip_addr \<Rightarrow> u8 \<Rightarrow> ip_network option) \<Rightarrow> (unit, ('a, 'b) device) rust \<Rightarrow> bool" where
  "mgmt_inv NP ND EP ED contains trunc s \<longleftrightarrow>
     (tables_ok NP ND EP ED contains trunc \<longrightarrow> (\<forall>d. s = Ok d \<longrightarrow> (\<exists>n. dev_ok EP ED n d)))"

subsection \<open>A sample device\<close>

text \<open>A server with two peers, the route of the second inside the network of the first.\<close>

definition sample_ops :: "mgmt_op list" where
  "sample_ops =
     [SetKey (\<lambda>_ _. Panic) (replicate 32 1) [] [] (\<lambda>_. 0) [] 0,
      UpdatePeer \<lparr>os_shutdown = True, os_connect = (\<lambda>_ _ _. Ok ()), os_bind = Ok\<rparr> (replicate 32 2) False False None
        [\<lparr>ai_addr = V4 0x0a000002, ai_cidr = 24\<rparr>] None None [] [] 0 (\<lambda>_. 0),
      UpdatePeer \<lparr>os_shutdown = True, os_connect = (\<lambda>_ _ _. Ok ()), os_bind = Ok\<rparr> (replicate 32 3) False False None
        [\<lparr>ai_addr = V4 0x0a000003, ai_cidr = 32\<rparr>] None None [] [] 0 (\<lambda>_. 0)]"

definition sample_device :: "(unit, ((ip_network \<times> unit) list, (ip_network \<times> nat) list) device) rust" where
  "sample_device = fst (run (mgmt_step toy_crypto toy_eth list_table list_table)
      (Ok (device_new list_table \<lparr>initial = 5, lfsr = 5, mask = 7\<rparr> True 1420 sample_config)) sample_ops)"

section \<open>The concrete table\<close>

lemma list_match_spec:
  "case list_match t a of
     None \<Rightarrow> \<forall>n d. (n, d) \<in> set t \<longrightarrow> \<not> contains_ip n a
   | Some (n, d) \<Rightarrow> (n, d) \<in> set t \<and> contains_ip n a
       \<and> (\<forall>m e. (m, e) \<in> set t \<longrightarrow> contains_ip m a \<longrightarrow> snd m \<le> snd n)"
proof (induction t a rule: list_match.induct)
  case (2 n d t a)
  then show ?case by (cases "list_match t a"; cases "contains_ip n a") (auto, (meson order_trans linear not_le less_imp_le)+)
qed simp

lemma option_eqI: "(\<And>d. x = Some d \<longleftrightarrow> y = Some d) \<Longrightarrow> x = y"
  by (cases x; cases y) auto

lemma list_table_ok: "net_table_ok list_table map_of contains_ip truncate_ip"
proof -
  have mem: "(n, d) \<in> set (AList.clearjunk t) \<longleftrightarrow> map_of t n = Some d" for t :: "(ip_network \<times> 'd) list" and n d
    by (metis distinct_clearjunk map_of_clearjunk map_of_eq_Some_iff)
  have retain: "map_of (filter (\<lambda>(n, d). P n d) (AList.clearjunk t)) n
      = (case map_of t n of None \<Rightarrow> None | Some d \<Rightarrow> if P n d then Some d else None)"
    for t :: "(ip_network \<times> 'd) list" and P n
  proof -
    have "distinct (map fst (filter (\<lambda>(n, d). P n d) (AList.clearjunk t)))"
      by (rule distinct_map_filter) (rule distinct_clearjunk)
    then have "map_of (filter (\<lambda>(n, d). P n d) (AList.clearjunk t)) n = Some d \<longleftrightarrow> map_of t n = Some d \<and> P n d" for d
      by (auto simp: map_of_eq_Some_iff mem)
    then show ?thesis by (intro option_eqI) (auto split: option.split)
  qed
  have match: "case list_match (AList.clearjunk t) a of
      None \<Rightarrow> \<forall>n. contains_ip n a \<longrightarrow> map_of t n = None
    | Some (n, d) \<Rightarrow> map_of t n = Some d \<and> contains_ip n a
        \<and> (\<forall>m. contains_ip m a \<and> map_of t m \<noteq> None \<longrightarrow> snd m \<le> snd n)" for t :: "(ip_network \<times> 'd) list" and a
    using list_match_spec [of "AList.clearjunk t" a]
    by (cases "list_match (AList.clearjunk t) a") (auto simp: mem intro: option_eqI)
  show ?thesis
    unfolding net_table_ok_def list_table_def
    by (simp add: retain match update_conv' mem set_eq_iff split_paired_all)
qed

section \<open>The tables of a device stay consistent\<close>

lemma dev_ok_cong:
  "dv_next_index d' = dv_next_index d \<Longrightarrow> dv_arena d' = dv_arena d \<Longrightarrow> dv_peers d' = dv_peers d
   \<Longrightarrow> dv_by_idx d' = dv_by_idx d \<Longrightarrow> dv_by_ip d' = dv_by_ip d \<Longrightarrow> dev_ok EP ED n d' = dev_ok EP ED n d"
  by (simp add: dev_ok_def)

lemma dev_okI:
  assumes "lfsr_ok n (dv_next_index d)"
    and "\<And>k r. map_of (dv_peers d) k = Some r \<Longrightarrow> r < length (dv_arena d) \<and> peer_key (dv_arena d ! r) = k
          \<and> map_of (dv_by_idx d) (p_index (dv_arena d ! r)) = Some r"
    and "\<And>i r. map_of (dv_by_idx d) i = Some r \<Longrightarrow> (\<exists>k. map_of (dv_peers d) k = Some r) \<and> p_index (dv_arena d ! r) = i
          \<and> (\<exists>m < n. i = issued (dv_next_index d) m)"
    and "\<And>net r. ED (dv_by_ip d) net = Some r \<Longrightarrow> (\<exists>k. map_of (dv_peers d) k = Some r) \<and> EP (p_allowed (dv_arena d ! r)) net \<noteq> None"
  shows "dev_ok EP ED n d"
  using assms unfolding dev_ok_def by blast

lemma dev_okD:
  assumes "dev_ok EP ED n d"
  shows "lfsr_ok n (dv_next_index d)"
    and "map_of (dv_peers d) k = Some r \<Longrightarrow> r < length (dv_arena d) \<and> peer_key (dv_arena d ! r) = k
          \<and> map_of (dv_by_idx d) (p_index (dv_arena d ! r)) = Some r"
    and "map_of (dv_by_idx d) i = Some r \<Longrightarrow> (\<exists>k. map_of (dv_peers d) k = Some r) \<and> p_index (dv_arena d ! r) = i
          \<and> (\<exists>m < n. i = issued (dv_next_index d) m)"
    and "ED (dv_by_ip d) net = Some r \<Longrightarrow> (\<exists>k. map_of (dv_peers d) k = Some r) \<and> EP (p_allowed (dv_arena d ! r)) net \<noteq> None"
  using assms unfolding dev_ok_def by blast+

lemma net_table_laws:
  assumes "net_table_ok N entries contains trunc"
  shows "new_truncate N = trunc" and "entries (table_new N) n = None"
    and "entries (fst (table_insert N t n d)) = (entries t)(n \<mapsto> d)"
    and "case longest_match N t a of
            None \<Rightarrow> \<forall>n. contains n a \<longrightarrow> entries t n = None
          | Some (n, d) \<Rightarrow> entries t n = Some d \<and> contains n a
              \<and> (\<forall>m. contains m a \<and> entries t m \<noteq> None \<longrightarrow> snd m \<le> snd n)"
    and "entries (table_retain N t P) n = (case entries t n of None \<Rightarrow> None | Some d \<Rightarrow> if P n d then Some d else None)"
    and "set (table_iter N t) = {(n, d). entries t n = Some d}"
  using assms unfolding net_table_ok_def by blast+

lemma dev_ok_arena:
  assumes "dev_ok EP ED n d" and "same_peers (dv_arena d) arena"
  shows "dev_ok EP ED n (d\<lparr>dv_arena := arena\<rparr>)"
proof -
  note ok = dev_okD [OF assms(1)]
  have same: "peer_key (arena ! r) = peer_key (dv_arena d ! r) \<and> p_index (arena ! r) = p_index (dv_arena d ! r)
      \<and> p_allowed (arena ! r) = p_allowed (dv_arena d ! r) \<and> r < length arena" if "map_of (dv_peers d) k = Some r" for k r
    using assms(2) ok(2) [OF that] by (auto simp: same_peers_def)
  show ?thesis
  proof (rule dev_okI)
    fix k r assume "map_of (dv_peers (d\<lparr>dv_arena := arena\<rparr>)) k = Some r"
    then have k: "map_of (dv_peers d) k = Some r" by simp
    show "r < length (dv_arena (d\<lparr>dv_arena := arena\<rparr>)) \<and> peer_key (dv_arena (d\<lparr>dv_arena := arena\<rparr>) ! r) = k
        \<and> map_of (dv_by_idx (d\<lparr>dv_arena := arena\<rparr>)) (p_index (dv_arena (d\<lparr>dv_arena := arena\<rparr>) ! r)) = Some r"
      using ok(2) [OF k] same [OF k] by simp
  qed (use ok same in \<open>fastforce+\<close>)
qed

lemma same_peers_refl [simp]: "same_peers ps ps"
  by (simp add: same_peers_def)

lemma same_peers_update:
  "same_peers ps qs \<Longrightarrow> (r < length qs \<Longrightarrow> peer_key p = peer_key (qs ! r) \<and> p_index p = p_index (qs ! r) \<and> p_allowed p = p_allowed (qs ! r))
   \<Longrightarrow> same_peers ps (qs[r := p])"
  by (cases "r < length qs") (auto simp: same_peers_def nth_list_update)

lemma shutdown_endpoint_keeps:
  "shutdown_endpoint os p = Ok q \<Longrightarrow> p_tunnel q = p_tunnel p \<and> peer_key q = peer_key p \<and> p_index q = p_index p \<and> p_allowed q = p_allowed p
     \<and> p_quota q = p_quota p"
  by (auto simp: shutdown_endpoint_def peer_key_def split: if_splits)

lemma shutdown_all_same: "shutdown_all os rs arena = Ok arena' \<Longrightarrow> same_peers ps arena \<Longrightarrow> same_peers ps arena'"
proof (induction rs arbitrary: arena)
  case (Cons r rs)
  then obtain p where p: "shutdown_endpoint os (arena ! r) = Ok p" "shutdown_all os rs (arena[r := p]) = Ok arena'"
    by (auto simp: rbind_eq_Ok)
  then show ?case using Cons.IH [OF p(2)] Cons.prems(2) shutdown_endpoint_keeps [OF p(1)]
    by (simp add: same_peers_update)
qed simp

lemma rekey_all_same: "rekey_all C sk pk lim rl rs arena = Ok arena' \<Longrightarrow> same_peers ps arena \<Longrightarrow> same_peers ps arena'"
proof (induction rs arbitrary: arena)
  case (Cons r rs)
  then obtain t rl' where p: "tunn_set_static_private C (p_tunnel (arena ! r)) sk pk (Some rl) [] [] (\<lambda>_. 0) = Ok (t, rl')"
    "rekey_all C sk pk lim rl rs (arena[r := (arena ! r)\<lparr>p_tunnel := t, p_limiter := lim\<rparr>]) = Ok arena'"
    by (cases "tunn_set_static_private C (p_tunnel (arena ! r)) sk pk (Some rl) [] [] (\<lambda>_. 0)") auto
  have "peer_static_public (params (tn_handshake t)) = peer_key (arena ! r)"
    using p(1) by (auto simp: tunn_set_static_private_def handshake_set_static_private_def noise_set_static_private_def
        peer_key_def Let_def rbind_eq_Ok split: if_splits)
  then show ?case using Cons.IH [OF p(2)] Cons.prems(2)
    by (simp add: same_peers_update peer_key_def)
qed simp

lemma ucast_cidr [simp]: "ucast (ucast (c :: u8) :: u32) = c"
  by (rule bit_word_eqI) (auto simp: bit_unsigned_iff dest: bit_imp_le_length)

lemma insert_all_entries:
  assumes "net_table_ok N entries contains trunc" and "insert_all N d ips t = Ok t'"
  shows "entries t' net = (if \<exists>ip \<in> set ips. trunc (ai_addr ip) (ai_cidr ip) = Some net then Some d else entries t net)"
  using assms(2)
proof (induction ips arbitrary: t)
  case (Cons ip ips)
  note laws = net_table_laws [OF assms(1)]
  obtain n where n: "trunc (ai_addr ip) (ai_cidr ip) = Some n" "insert_all N d ips (fst (table_insert N t n d)) = Ok t'"
    using Cons.prems by (auto simp: rbind_eq_Ok allowed_insert_def laws(1) split: option.splits)
  show ?case using Cons.IH [OF n(2)] n(1) by (auto simp: laws(3))
qed simp

lemma find_entry:
  assumes "net_table_ok N entries contains trunc" and "allowed_find N t a = Some d"
  obtains n where "entries t n = Some d" "contains n a"
proof -
  obtain n where n: "longest_match N t a = Some (n, d)" using assms(2) by (auto simp: allowed_find_def)
  then have "entries t n = Some d \<and> contains n a"
    using net_table_laws(4) [OF assms(1), where t = t and a = a] by simp
  then show thesis using that by blast
qed

lemma find_contained:
  assumes "net_table_ok N entries contains trunc" and "entries t n \<noteq> None" and "contains n a"
  shows "allowed_find N t a \<noteq> None"
proof
  assume "allowed_find N t a = None"
  then have "longest_match N t a = None" by (simp add: allowed_find_def)
  then show False using assms(2,3) net_table_laws(4) [OF assms(1), where t = t and a = a] by (simp del: split_paired_All)
qed

lemma remove_peer_ok:
  assumes ok: "dev_ok EP ED n d" and tab: "net_table_ok ND ED contains trunc" and rm: "remove_peer ND os d k = Ok d'"
  shows "dev_ok EP ED n d'" "map_of (dv_peers d') = (map_of (dv_peers d))(k := None)"
proof -
  have "dev_ok EP ED n d' \<and> map_of (dv_peers d') = (map_of (dv_peers d))(k := None)"
  proof (cases "map_of (dv_peers d) k")
    case None
    then show ?thesis using rm ok by (auto simp: remove_peer_def)
  next
    case (Some r)
    then obtain p where p: "shutdown_endpoint os (dv_arena d ! r) = Ok p"
      and d': "d' = d\<lparr>dv_peers := AList.delete k (dv_peers d), dv_arena := (dv_arena d)[r := p],
        dv_by_idx := AList.delete (p_index p) (dv_by_idx d), dv_by_ip := allowed_remove ND (dv_by_ip d) (\<lambda>q. r = q)\<rparr>"
      using rm by (auto simp: remove_peer_def rbind_eq_Ok Let_def)
    define e where "e = d\<lparr>dv_arena := (dv_arena d)[r := p]\<rparr>"
    have e: "dev_ok EP ED n e"
      unfolding e_def using shutdown_endpoint_keeps [OF p] by (intro dev_ok_arena [OF ok] same_peers_update) auto
    have r: "r < length (dv_arena e)" "dv_arena e ! r = p"
      using ok Some by (auto simp: e_def dev_ok_def)
    have retain: "ED (allowed_remove ND (dv_by_ip d) (\<lambda>q. r = q)) net = Some q \<longleftrightarrow> ED (dv_by_ip d) net = Some q \<and> q \<noteq> r" for net q
      unfolding allowed_remove_def net_table_laws(5) [OF tab] by (auto split: option.splits if_splits)
    have sel: "dv_next_index d' = dv_next_index e" "dv_arena d' = dv_arena e"
      "map_of (dv_peers d') = (map_of (dv_peers e))(k := None)"
      "map_of (dv_by_idx d') = (map_of (dv_by_idx e))(p_index p := None)"
      "ED (dv_by_ip d') net = Some q \<longleftrightarrow> ED (dv_by_ip e) net = Some q \<and> q \<noteq> r" for net q
      by (simp_all add: d' e_def delete_conv' retain)
    have key: "map_of (dv_peers e) j = Some r \<longleftrightarrow> j = k" for j
      using dev_okD(2) [OF e, of j r] dev_okD(2) [OF e, of k r] Some by (auto simp: e_def)
    have "dev_ok EP ED n d'"
    proof (rule dev_okI)
      fix j q assume "map_of (dv_peers d') j = Some q"
      then have j: "map_of (dv_peers e) j = Some q" "j \<noteq> k" by (auto simp: sel split: if_splits)
      then have "q \<noteq> r" using key by metis
      then have "p_index (dv_arena e ! q) \<noteq> p_index p"
        using dev_okD(2) [OF e j(1)] dev_okD(2) [OF e, of k r] key [of k] r(2) by auto
      then show "q < length (dv_arena d') \<and> peer_key (dv_arena d' ! q) = j
          \<and> map_of (dv_by_idx d') (p_index (dv_arena d' ! q)) = Some q"
        using dev_okD(2) [OF e j(1)] by (simp add: sel)
    next
      fix i q assume "map_of (dv_by_idx d') i = Some q"
      then have i: "map_of (dv_by_idx e) i = Some q" "i \<noteq> p_index p" by (auto simp: sel split: if_splits)
      have "q \<noteq> r" using dev_okD(3) [OF e i(1)] i(2) r(2) by auto
      obtain j where j: "map_of (dv_peers e) j = Some q" using dev_okD(3) [OF e i(1)] by blast
      moreover have "j \<noteq> k" using j \<open>q \<noteq> r\<close> key [of k] by auto
      ultimately have "map_of (dv_peers d') j = Some q" by (simp add: sel)
      then show "(\<exists>k. map_of (dv_peers d') k = Some q) \<and> p_index (dv_arena d' ! q) = i
          \<and> (\<exists>m<n. i = issued (dv_next_index d') m)"
        using dev_okD(3) [OF e i(1)] unfolding sel(1,2) by blast
    next
      fix net q assume "ED (dv_by_ip d') net = Some q"
      then have q: "ED (dv_by_ip e) net = Some q" "q \<noteq> r" by (simp_all add: sel)
      obtain j where j: "map_of (dv_peers e) j = Some q" using dev_okD(4) [OF e q(1)] by blast
      moreover have "j \<noteq> k" using j q(2) key [of k] by auto
      ultimately have "map_of (dv_peers d') j = Some q" by (simp add: sel)
      then show "(\<exists>k. map_of (dv_peers d') k = Some q) \<and> EP (p_allowed (dv_arena d' ! q)) net \<noteq> None"
        using dev_okD(4) [OF e q(1)] unfolding sel(2) by blast
    qed (use dev_okD(1) [OF e] in \<open>simp add: sel\<close>)
    then show ?thesis by (simp add: d' delete_conv')
  qed
  then show "dev_ok EP ED n d'" "map_of (dv_peers d') = (map_of (dv_peers d))(k := None)" by simp_all
qed

lemma update_peer_Ok:
  assumes "update_peer C NP ND os d pk False rp addr ips ka psk rs rk st clk = Ok d'"
  obtains l idx sk pub t rl p tp tn where "map_of (dv_peers d) pk = None" "lfsr_next (dv_next_index d) = Ok (l, idx)"
    "dv_key_pair d = Some (sk, pub)"
    "tunn_new C sk pk psk ka idx None rs rk st clk = (t, rl)"
    "allowed_collect NP () ips = Ok tp" "insert_all ND (length (dv_arena d)) ips (dv_by_ip d) = Ok tn"
    "p = \<lparr>p_tunnel = t, p_limiter = length (dv_limiters d), p_index = idx,
          p_endpoint = \<lparr>ep_addr = addr, ep_conn = False\<rparr>, p_allowed = tp, p_preshared_key = psk,
          p_quota = Some (new_quota DEFAULT_QUOTA_BYTES)\<rparr>"
    "d' = d\<lparr>dv_next_index := l, dv_arena := dv_arena d @ [p], dv_limiters := dv_limiters d @ [rl],
          dv_peers := AList.update pk (length (dv_arena d)) (dv_peers d),
          dv_by_idx := AList.update idx (length (dv_arena d)) (dv_by_idx d), dv_by_ip := tn\<rparr>"
proof -
  obtain l idx where l: "lfsr_next (dv_next_index d) = Ok (l, idx)" and new: "map_of (dv_peers d) pk = None"
    using assms by (cases "lfsr_next (dv_next_index d)") (auto simp: update_peer_def split: if_splits)
  obtain sk pub where key: "dv_key_pair d = Some (sk, pub)"
    using assms l new by (cases "dv_key_pair d") (auto simp: update_peer_def)
  obtain t rl where t: "tunn_new C sk pk psk ka idx None rs rk st clk = (t, rl)" by fastforce
  obtain tp where tp: "allowed_collect NP () ips = Ok tp"
    using assms l new key t by (cases "allowed_collect NP () ips :: (unit, 'a) rust") (auto simp: update_peer_def peer_new_def)
  obtain tn where tn: "insert_all ND (length (dv_arena d)) ips (dv_by_ip d) = Ok tn"
    using assms l new key t tp
    by (cases "insert_all ND (length (dv_arena d)) ips (dv_by_ip d)") (auto simp: update_peer_def peer_new_def Let_def)
  show thesis
    using assms by (intro that [OF new l key t tp tn refl]) (simp add: update_peer_def peer_new_def Let_def l new key t tp tn)
qed

lemma update_peer_ok:
  assumes ok: "dev_ok EP ED n d" and tab: "net_table_ok NP EP contains trunc" "net_table_ok ND ED contains trunc"
    and up: "update_peer C NP ND os d pk False rp addr ips ka psk rs rk st clk = Ok d'"
  shows "dev_ok EP ED (Suc n) d'"
proof -
  obtain l idx sk pub t rl p tp tn where fresh: "map_of (dv_peers d) pk = None"
    and l: "lfsr_next (dv_next_index d) = Ok (l, idx)"
    and t: "tunn_new C sk pk psk ka idx None rs rk st clk = (t, rl)"
    and tp: "allowed_collect NP () ips = Ok tp" and tn: "insert_all ND (length (dv_arena d)) ips (dv_by_ip d) = Ok tn"
    and p: "p = \<lparr>p_tunnel = t, p_limiter = length (dv_limiters d), p_index = idx,
          p_endpoint = \<lparr>ep_addr = addr, ep_conn = False\<rparr>, p_allowed = tp, p_preshared_key = psk,
          p_quota = Some (new_quota DEFAULT_QUOTA_BYTES)\<rparr>"
    and d': "d' = d\<lparr>dv_next_index := l, dv_arena := dv_arena d @ [p], dv_limiters := dv_limiters d @ [rl],
          dv_peers := AList.update pk (length (dv_arena d)) (dv_peers d),
          dv_by_idx := AList.update idx (length (dv_arena d)) (dv_by_idx d), dv_by_ip := tn\<rparr>"
    by (rule update_peer_Ok [OF up])
  let ?r = "length (dv_arena d)"
  note next_ok = lfsr_next_ok [OF dev_okD(1) [OF ok] l]
  have unused: "map_of (dv_by_idx d) idx = None"
  proof (rule ccontr)
    assume "map_of (dv_by_idx d) idx \<noteq> None"
    then obtain m where "m < n" "idx = issued (dv_next_index d) m" using dev_okD(3) [OF ok] by blast
    then show False using issued_inj [OF next_ok(1), of m n] next_ok(2,3) by simp
  qed
  have key: "peer_key p = pk" using t by (auto simp: p peer_key_def tunn_new_def handshake_new_def noise_params_new_def Let_def)
  have sel: "dv_next_index d' = l" "dv_arena d' = dv_arena d @ [p]"
    "map_of (dv_peers d') = (map_of (dv_peers d))(pk \<mapsto> ?r)" "map_of (dv_by_idx d') = (map_of (dv_by_idx d))(idx \<mapsto> ?r)"
    "dv_by_ip d' = tn"
    by (simp_all add: d' update_conv')
  show ?thesis
  proof (rule dev_okI)
    fix k q assume k: "map_of (dv_peers d') k = Some q"
    show "q < length (dv_arena d') \<and> peer_key (dv_arena d' ! q) = k
        \<and> map_of (dv_by_idx d') (p_index (dv_arena d' ! q)) = Some q"
    proof (cases "k = pk")
      case True
      then have "q = ?r" using k by (simp add: sel)
      moreover have "p_index p = idx" by (simp add: p)
      ultimately show ?thesis using True by (simp add: sel key)
    next
      case False
      then have old: "map_of (dv_peers d) k = Some q" using k by (simp add: sel)
      then show ?thesis using dev_okD(2) [OF ok old] unused by (auto simp: sel nth_append)
    qed
  next
    fix i q assume i: "map_of (dv_by_idx d') i = Some q"
    show "(\<exists>k. map_of (dv_peers d') k = Some q) \<and> p_index (dv_arena d' ! q) = i
        \<and> (\<exists>m<Suc n. i = issued (dv_next_index d') m)"
    proof (cases "i = idx")
      case True
      then have "q = ?r" using i by (simp add: sel)
      moreover have "p_index p = idx" by (simp add: p)
      moreover have "map_of (dv_peers d') pk = Some ?r" by (simp add: sel)
      ultimately show ?thesis using True next_ok(2,3) lessI [of n] sel(1,2) by (metis nth_append_length)
    next
      case False
      then have old: "map_of (dv_by_idx d) i = Some q" using i by (simp add: sel)
      obtain k m where k: "map_of (dv_peers d) k = Some q" and m: "m < n" "i = issued (dv_next_index d) m"
        "p_index (dv_arena d ! q) = i"
        using dev_okD(3) [OF ok old] by blast
      have "map_of (dv_peers d') k = Some q" using k fresh by (simp add: sel) auto
      moreover have "i = issued (dv_next_index d') m" using m next_ok(3) by (simp add: sel)
      moreover have "p_index (dv_arena d' ! q) = i" using m dev_okD(2) [OF ok k] by (simp add: sel nth_append)
      ultimately show ?thesis using m(1) less_SucI by blast
    qed
  next
    fix net q assume q: "ED (dv_by_ip d') net = Some q"
    have nets: "ED tn net = (if \<exists>ip \<in> set ips. trunc (ai_addr ip) (ai_cidr ip) = Some net then Some ?r else ED (dv_by_ip d) net)"
      "EP tp net = (if \<exists>ip \<in> set ips. trunc (ai_addr ip) (ai_cidr ip) = Some net then Some () else None)"
      using insert_all_entries [OF tab(2) tn] insert_all_entries [OF tab(1) tp [unfolded allowed_collect_def]]
      by (simp_all add: net_table_laws(2) [OF tab(1)])
    show "(\<exists>k. map_of (dv_peers d') k = Some q) \<and> EP (p_allowed (dv_arena d' ! q)) net \<noteq> None"
    proof (cases "\<exists>ip \<in> set ips. trunc (ai_addr ip) (ai_cidr ip) = Some net")
      case True
      then have "q = ?r" "EP tp net \<noteq> None" using q nets by (simp_all add: sel)
      moreover have "map_of (dv_peers d') pk = Some ?r" "p_allowed p = tp" by (simp_all add: sel p)
      ultimately show ?thesis by (metis nth_append_length sel(2))
    next
      case False
      then have "ED (dv_by_ip d) net = Some q" using q nets by (simp add: sel)
      then obtain k where k: "map_of (dv_peers d) k = Some q" and "EP (p_allowed (dv_arena d ! q)) net \<noteq> None"
        using dev_okD(4) [OF ok] by blast
      moreover have "map_of (dv_peers d') k = Some q" using k fresh by (simp add: sel) auto
      moreover have "dv_arena d' ! q = dv_arena d ! q" using dev_okD(2) [OF ok k] by (simp add: sel nth_append)
      ultimately show ?thesis by metis
    qed
  qed (use next_ok(1) in \<open>simp add: sel\<close>)
qed

lemma clear_peers_ok: "dev_ok EP ED n d \<Longrightarrow> net_table_ok ND ED contains trunc \<Longrightarrow> dev_ok EP ED n (clear_peers ND d)"
  by (rule dev_okI) (simp_all add: clear_peers_def dev_okD(1) net_table_laws(2))

lemma set_key_ok:
  assumes ok: "dev_ok EP ED n d" and "set_key C E T d sk rs rk clk nonce now = Ok (d', reqs)"
  shows "dev_ok EP ED n d'"
proof (cases "Some (pubkey C sk) = map_option snd (dv_key_pair d)")
  case True
  then show ?thesis using assms by (simp add: set_key_def)
next
  case False
  then obtain rl arena wallet where arena: "rekey_all C sk (pubkey C sk) (length (dv_limiters d)) rl (map snd (dv_peers d)) (dv_arena d) = Ok arena"
    and d': "dv_next_index d' = dv_next_index d" "dv_arena d' = arena" "dv_peers d' = dv_peers d"
      "dv_by_idx d' = dv_by_idx d" "dv_by_ip d' = dv_by_ip d"
    using assms(2) by (auto simp: set_key_def Let_def rbind_eq_Ok split: if_splits prod.splits rust.splits)
  have "dev_ok EP ED n (d\<lparr>dv_arena := arena\<rparr>)"
    by (rule dev_ok_arena [OF ok rekey_all_same [OF arena same_peers_refl]])
  then show ?thesis by (subst dev_ok_cong [of _ "d\<lparr>dv_arena := arena\<rparr>"]) (simp_all add: d')
qed

lemma open_listen_socket_ok:
  assumes ok: "dev_ok EP ED n d" and "open_listen_socket os d port = Ok d' \<or> open_listen_socket os d port = Err d'"
  shows "dev_ok EP ED n d'"
proof (cases "shutdown_all os (map snd (dv_peers d)) (dv_arena d)")
  case (Ok arena)
  then have d': "dv_next_index d' = dv_next_index d" "dv_arena d' = arena" "dv_peers d' = dv_peers d"
      "dv_by_idx d' = dv_by_idx d" "dv_by_ip d' = dv_by_ip d"
    using assms(2) by (cases "os_bind os port"; auto simp: open_listen_socket_def Let_def)+
  have "dev_ok EP ED n (d\<lparr>dv_arena := arena\<rparr>)"
    by (rule dev_ok_arena [OF ok shutdown_all_same [OF Ok same_peers_refl]])
  then show ?thesis by (subst dev_ok_cong [of _ "d\<lparr>dv_arena := arena\<rparr>"]) (simp_all add: d')
qed (use assms in \<open>auto simp: open_listen_socket_def\<close>)

lemma mgmt_ok:
  assumes "dev_ok EP ED n d" "net_table_ok NP EP contains trunc" "net_table_ok ND ED contains trunc"
    and "mgmt C E NP ND d x = Ok d'"
  shows "\<exists>n. dev_ok EP ED n d'"
proof (cases x)
  case (UpdatePeer os pk rm rp addr ips ka psk rs rk st clk)
  show ?thesis
  proof (cases rm)
    case True
    then have "remove_peer ND os d pk = Ok d'" using assms(4) UpdatePeer by (simp add: update_peer_def)
    then show ?thesis using remove_peer_ok(1) [OF assms(1,3)] by blast
  next
    case False
    then have "update_peer C NP ND os d pk False rp addr ips ka psk rs rk st clk = Ok d'"
      using assms(4) UpdatePeer by simp
    then show ?thesis using update_peer_ok [OF assms(1-3)] by blast
  qed
qed (use assms clear_peers_ok [OF assms(1,3)] in \<open>auto simp: rbind_eq_Ok split: rust.splits dest: set_key_ok open_listen_socket_ok\<close>)

interpretation mgmt_machine: invariant_machine "mgmt_step C E NP ND" "\<lambda>_. True" "mgmt_inv NP ND EP ED contains trunc"
  for C E and NP :: "(unit, 'a) net_table" and ND :: "(nat, 'b) net_table" and EP ED contains trunc
  by unfold_locales (auto simp: mgmt_inv_def mgmt_step_def tables_ok_def rbind_eq_Ok dest: mgmt_ok)

lemma mgmt_run_ok:
  assumes "tables_ok NP ND EP ED contains trunc" and "lfsr_default rnd = Some (l, rnd')"
    and "fst (run (mgmt_step C E NP ND) (Ok (device_new ND l uc m cfg)) xs) = Ok d"
  shows "\<exists>n. dev_ok EP ED n d"
proof -
  have "dev_ok EP ED 0 (device_new ND l uc m cfg)"
    using lfsr_default_ok [OF assms(2)] net_table_laws(2) [of ND ED contains trunc] assms(1)
    by (intro dev_okI) (simp_all add: device_new_def tables_ok_def)
  then have "mgmt_inv NP ND EP ED contains trunc (Ok (device_new ND l uc m cfg))" by (auto simp: mgmt_inv_def)
  then have "mgmt_inv NP ND EP ED contains trunc (Ok d)"
    using mgmt_machine.inv_run [of NP ND EP ED contains trunc "Ok (device_new ND l uc m cfg)" xs C E] assms(3)
    by (simp add: list_all_iff)
  then show ?thesis using assms(1) by (simp add: mgmt_inv_def)
qed

text \<open>C29. Whatever sequence of peers is added and removed, keys set and sockets opened on a new device, its three
  tables agree: a packet routed by its destination address reaches a configured peer that is itself allowed
  that address, a packet routed by its receiver index reaches the configured peer of that index, every
  configured peer is found under its own public key and under its own index, and no two under the same.\<close>

theorem device_routing_sound:
  assumes "tables_ok NP ND EP ED contains trunc" and "lfsr_default rnd = Some (l, rnd')"
    and "fst (run (mgmt_step C E NP ND) (Ok (device_new ND l uc m cfg)) xs) = Ok d"
  shows "(\<forall>a r. allowed_find ND (dv_by_ip d) a = Some r \<longrightarrow>
          (\<exists>k. map_of (dv_peers d) k = Some r) \<and> is_allowed_ip NP (dv_arena d ! r) a)
    \<and> (\<forall>i r. map_of (dv_by_idx d) i = Some r \<longrightarrow>
          (\<exists>k. map_of (dv_peers d) k = Some r) \<and> p_index (dv_arena d ! r) = i \<and> i < 2 ^ 24)
    \<and> (\<forall>k r. map_of (dv_peers d) k = Some r \<longrightarrow>
          peer_key (dv_arena d ! r) = k \<and> map_of (dv_by_idx d) (p_index (dv_arena d ! r)) = Some r)"
proof -
  obtain n where ok: "dev_ok EP ED n d" using mgmt_run_ok [OF assms] by blast
  have tab: "net_table_ok NP EP contains trunc" "net_table_ok ND ED contains trunc"
    using assms(1) by (simp_all add: tables_ok_def)
  have route: "(\<exists>k. map_of (dv_peers d) k = Some r) \<and> is_allowed_ip NP (dv_arena d ! r) a"
    if found: "allowed_find ND (dv_by_ip d) a = Some r" for a r
  proof -
    obtain net where net: "ED (dv_by_ip d) net = Some r" "contains net a" by (rule find_entry [OF tab(2) found])
    then show ?thesis using dev_okD(4) [OF ok net(1)] find_contained [OF tab(1) _ net(2)] by (simp add: is_allowed_ip_def)
  qed
  have idx: "(\<exists>k. map_of (dv_peers d) k = Some r) \<and> p_index (dv_arena d ! r) = i \<and> i < 2 ^ 24"
    if found: "map_of (dv_by_idx d) i = Some r" for i r
  proof -
    obtain m where "i = issued (dv_next_index d) m" using dev_okD(3) [OF ok found] by blast
    then have "i < 2 ^ 24" using issued_bounds [OF dev_okD(1) [OF ok], of m]
      by (auto simp: LFSR_MAX_def word_le_nat_alt word_less_nat_alt)
    then show ?thesis using dev_okD(3) [OF ok found] by simp
  qed
  show ?thesis using route idx dev_okD(2) [OF ok] by blast
qed

lemma sample_device_Ok:
  "case sample_device of
     Ok d \<Rightarrow> allowed_find list_table (dv_by_ip d) (V4 0x0a000003) = Some 1
       \<and> allowed_find list_table (dv_by_ip d) (V4 0x0a0000ff) = Some 0 \<and> map_of (dv_by_idx d) 3 = Some 0
   | _ \<Rightarrow> False"
  by code_simp

lemma list_tables_ok: "tables_ok list_table list_table map_of map_of contains_ip truncate_ip"
  by (simp add: tables_ok_def list_table_ok)

theorem device_routing_sound_witness:
  "\<exists>d. sample_device = Ok d \<and> allowed_find list_table (dv_by_ip d) (V4 0x0a000003) = Some 1
     \<and> is_allowed_ip list_table (dv_arena d ! 1) (V4 0x0a000003)
     \<and> is_allowed_ip list_table (dv_arena d ! 0) (V4 0x0a0000ff) \<and> p_index (dv_arena d ! 0) = 3"
proof -
  obtain d where d: "sample_device = Ok d" "allowed_find list_table (dv_by_ip d) (V4 0x0a000003) = Some 1"
    "allowed_find list_table (dv_by_ip d) (V4 0x0a0000ff) = Some 0" "map_of (dv_by_idx d) 3 = Some 0"
    using sample_device_Ok by (auto split: rust.splits)
  have seeded: "lfsr_default [5, 7] = Some (\<lparr>initial = 5, lfsr = 5, mask = 7\<rparr>, [])" by code_simp
  note sound = device_routing_sound [OF list_tables_ok seeded d(1) [unfolded sample_device_def]]
  have "is_allowed_ip list_table (dv_arena d ! 1) (V4 0x0a000003)" "is_allowed_ip list_table (dv_arena d ! 0) (V4 0x0a0000ff)"
    by (rule conjunct2 [OF conjunct1 [OF sound, rule_format, OF d(2)]], rule conjunct2 [OF conjunct1 [OF sound, rule_format, OF d(3)]])
  moreover have "p_index (dv_arena d ! 0) = 3" using conjunct1 [OF conjunct2 [OF sound], rule_format, OF d(4)] by simp
  ultimately show ?thesis using d(1,2) by blast
qed

end
