(* ===== verification/Device_Payment.thy ===== *)
theory Device_Payment
  imports Device_Peers Tunnel_Delivery Payment_Protocol
begin

text \<open>
  The payment handlers of \<^verbatim>\<open>device/mod.rs\<close>: the server's request for payment, the client's automatic answer
  and the server's check of a submitted payment. They compose the quota, the signalling messages, the
  wallet, EIP-3009 and settlement with the tunnel that carries the messages.

  What a handler sends is a list of effects. What it draws from its surroundings is the record \<open>env\<close>:
  ephemeral secrets, clock readings, the random nonce, the system time, the answer of the settlement
  service and the operating system.
\<close>

section \<open>Definitions\<close>

datatype effect = SendTo sock_addr bytes | SendConn nat bytes | WriteTun bytes | RegisterConn nat ip_addr

record env =
  ev_ephemeral :: "nat \<Rightarrow> bytes"
  ev_clk :: "nat \<Rightarrow> nat"
  ev_nonce :: bytes
  ev_now :: u64
  ev_settle :: "settle_request \<Rightarrow> (settlement_error, settle_response) rust"
  ev_os :: os
  ev_new_event :: bool

definition MAX_PAYMENT_PACKET_SIZE :: nat where "MAX_PAYMENT_PACKET_SIZE = 512"

text \<open>The first allowed address of a peer, when it is an IPv4 address.\<close>

definition first_ipv4 :: "(unit, 'a) net_table \<Rightarrow> 'a peer \<Rightarrow> ipv4 option" where
  "first_ipv4 NP p = (case allowed_ips NP p of (V4 ip, _) # _ \<Rightarrow> Some ip | _ \<Rightarrow> None)"

text \<open>Sealing a signal packet for the peer and sending it; a failure is only logged.\<close>

definition send_signal :: "crypto \<Rightarrow> env \<Rightarrow> 'a peer \<Rightarrow> bytes \<Rightarrow> sock_addr \<Rightarrow> (unit, 'a peer \<times> effect list) rust" where
  "send_signal C v p ip_packet addr =
     (case encapsulate C (p_tunnel p) ip_packet MAX_PAYMENT_PACKET_SIZE (ev_ephemeral v 1) (\<lambda>k. ev_clk v (2 + k)) of
        (t, Ok (WriteToNetwork enc)) \<Rightarrow> Ok (p\<lparr>p_tunnel := t\<rparr>, [SendTo addr enc])
      | (t, Panic) \<Rightarrow> Panic
      | (t, _) \<Rightarrow> Ok (p\<lparr>p_tunnel := t\<rparr>, []))"

definition send_payment_required ::
    "crypto \<Rightarrow> (unit, 'a) net_table \<Rightarrow> env \<Rightarrow> ('a, 'b) device \<Rightarrow> 'a peer \<Rightarrow> sock_addr \<Rightarrow> (unit, 'a peer \<times> effect list) rust" where
  "send_payment_required C NP v d p addr =
     (case dv_wallet d of
        None \<Rightarrow> Ok (p, [])
      | Some wallet \<Rightarrow>
          (case first_ipv4 NP p of
             None \<Rightarrow> Ok (p, [])
           | Some peer_ip \<Rightarrow>
               let msg = \<lparr>pr_amount_usdc = amount_per_quota (dv_config d), pr_nonce = ev_nonce v,
                          pr_recipient = ethereum_address wallet, pr_deadline = ev_now v + 300,
                          pr_chain_id = cfg_chain_id (dv_config d), pr_usdc_contract = cfg_usdc_contract (dv_config d)\<rparr>
               in rbind (build_signal_packet PAYMENT_GATEWAY_IP peer_ip (required_encode msg)) (\<lambda>ip_packet.
                  send_signal C v p ip_packet addr)))"

definition send_payment_accepted ::
    "crypto \<Rightarrow> (unit, 'a) net_table \<Rightarrow> env \<Rightarrow> ('a, 'b) device \<Rightarrow> 'a peer \<Rightarrow> sock_addr \<Rightarrow> (unit, 'a peer \<times> effect list) rust" where
  "send_payment_accepted C NP v d p addr =
     (case first_ipv4 NP p of
        None \<Rightarrow> Ok (p, [])
      | Some peer_ip \<Rightarrow>
          rbind (build_signal_packet PAYMENT_GATEWAY_IP peer_ip
                   (accepted_encode \<lparr>pa_new_quota_bytes = quota_bytes (dv_config d)\<rparr>)) (\<lambda>ip_packet.
          send_signal C v p ip_packet addr))"

definition credit_peer :: "u64 \<Rightarrow> 'a peer \<Rightarrow> 'a peer" where
  "credit_peer n p = p\<lparr>p_quota := map_option (\<lambda>q. credit q n) (p_quota p)\<rparr>"

definition submit_authorization :: "payment_submit \<Rightarrow> signed_authorization" where
  "submit_authorization submit =
     \<lparr>sa_auth = \<lparr>auth_from = ps_from submit, auth_to = ps_to submit, auth_value = ps_value submit,
                auth_valid_after = ps_valid_after submit, auth_valid_before = ps_valid_before submit,
                auth_nonce = ps_nonce submit\<rparr>,
      sa_v = ps_v submit, sa_r = ps_r submit, sa_s = ps_s submit\<rparr>"

definition handle_payment_submit ::
    "crypto \<Rightarrow> eth_crypto \<Rightarrow> (unit, 'a) net_table \<Rightarrow> env \<Rightarrow> ('a, 'b) device \<Rightarrow> 'a peer \<Rightarrow> bytes \<Rightarrow> sock_addr
     \<Rightarrow> (unit, 'a peer \<times> effect list) rust" where
  "handle_payment_submit C E NP v d p payload addr =
     (case dv_wallet d of
        None \<Rightarrow> Ok (p, [])
      | Some wallet \<Rightarrow>
     (case submit_decode payload of
        Panic \<Rightarrow> Panic
      | Err _ \<Rightarrow> Ok (p, [])
      | Ok submit \<Rightarrow>
        if ps_to submit \<noteq> ethereum_address wallet then Ok (p, []) else
        if ps_value submit < amount_per_quota (dv_config d) then Ok (p, []) else
        let (p, fresh) = (case p_quota p of
             None \<Rightarrow> (p, True)
           | Some q \<Rightarrow> (case check_and_record_nonce q (ps_nonce submit) of (q, fresh) \<Rightarrow> (p\<lparr>p_quota := Some q\<rparr>, fresh)))
        in if \<not> fresh then Ok (p, []) else
        (case verify_authorization E (gateway_domain (dv_config d)) (submit_authorization submit) of
           None \<Rightarrow> Ok (p, [])
         | Some recovered \<Rightarrow>
             if recovered \<noteq> ps_from submit then Ok (p, []) else
             (case dv_settlement d of
                None \<Rightarrow> send_payment_accepted C NP v d (credit_peer (quota_bytes (dv_config d)) p) addr
              | Some _ \<Rightarrow>
                  (case ev_settle v (build_settle_request E (dv_config d) submit (ethereum_address wallet)) of
                     Ok resp \<Rightarrow>
                       if rs_success resp
                       then send_payment_accepted C NP v d (credit_peer (quota_bytes (dv_config d)) p) addr
                       else Ok (p, [])
                   | Err _ \<Rightarrow> Ok (p, [])
                   | Panic \<Rightarrow> Panic)))))"

text \<open>The signed answer of a client to a request for payment.\<close>

definition sign_submit :: "eth_crypto \<Rightarrow> payment_config \<Rightarrow> payment_wallet \<Rightarrow> u64 \<Rightarrow> payment_required \<Rightarrow> (unit, payment_submit) rust" where
  "sign_submit E cfg wallet now req =
     (let auth = \<lparr>auth_from = ethereum_address wallet, auth_to = pr_recipient req, auth_value = pr_amount_usdc req,
                  auth_valid_after = 0, auth_valid_before = now + 345600, auth_nonce = pr_nonce req\<rparr>
      in rbind (sign_digest E wallet (compute_eip712_digest E (gateway_domain cfg) auth)) (\<lambda>(v, r, s).
         Ok \<lparr>ps_from = ethereum_address wallet, ps_to = pr_recipient req, ps_value = pr_amount_usdc req,
             ps_valid_after = auth_valid_after auth, ps_valid_before = auth_valid_before auth,
             ps_nonce = pr_nonce req, ps_v = v, ps_r = r, ps_s = s\<rparr>))"

definition handle_payment_signal_client ::
    "crypto \<Rightarrow> eth_crypto \<Rightarrow> (unit, 'a) net_table \<Rightarrow> env \<Rightarrow> ('a, 'b) device \<Rightarrow> 'a peer \<Rightarrow> bytes \<Rightarrow> sock_addr
     \<Rightarrow> (unit, 'a peer \<times> effect list) rust" where
  "handle_payment_signal_client C E NP v d p payload addr =
     (if payload = [] then Ok (p, []) else
      rbind (index payload 0) (\<lambda>msg_type.
      if msg_type = MSG_PAYMENT_REQUIRED then
        (case required_decode payload of
           Panic \<Rightarrow> Panic
         | Err _ \<Rightarrow> Ok (p, [])
         | Ok req \<Rightarrow>
             (case dv_wallet d of
                None \<Rightarrow> Ok (p, [])
              | Some wallet \<Rightarrow>
                  rbind (sign_submit E (dv_config d) wallet (ev_now v) req) (\<lambda>submit.
                  case first_ipv4 NP p of
                    None \<Rightarrow> Ok (p, [])
                  | Some client_ip \<Rightarrow>
                      rbind (build_signal_packet client_ip PAYMENT_GATEWAY_IP (submit_encode submit)) (\<lambda>ip_packet.
                      send_signal C v p ip_packet addr))))
      else if msg_type = MSG_PAYMENT_ACCEPTED then
        (case accepted_decode payload of Panic \<Rightarrow> Panic | _ \<Rightarrow> Ok (p, []))
      else Ok (p, [])))"

end
