(* ===== verification/Device_Loop.thy ===== *)
theory Device_Loop
  imports Device_Payment
begin

text \<open>
  The event handlers of \<^verbatim>\<open>device/mod.rs\<close>: datagrams on the listening sockets, datagrams on the connected socket
  of a peer, packets from the tunnel interface, and the two timers. A handler takes what is waiting for it
  as a list, each item with the surroundings \<open>env\<close> in which it is handled, and gives the device, the
  effects in order and what it leaves waiting. \<open>None\<close> stands for divergence (of the replay window, or of the
  loop that flushes the queue, which runs on fuel).
\<close>

section \<open>Definitions\<close>

definition MAX_UDP_SIZE :: nat where "MAX_UDP_SIZE = 65535"
definition MAX_ITR :: nat where "MAX_ITR = 100"

text \<open>Outcomes that may also diverge.\<close>

type_synonym 'a outcome = "(unit, 'a) rust option"

definition then_do :: "'a outcome \<Rightarrow> ('a \<Rightarrow> 'b outcome) \<Rightarrow> 'b outcome" where
  "then_do m f = (case m of None \<Rightarrow> None | Some Panic \<Rightarrow> Some Panic | Some (Err e) \<Rightarrow> Some (Err e) | Some (Ok a) \<Rightarrow> f a)"

definition store_peer :: "('a, 'b) device \<Rightarrow> nat \<Rightarrow> 'a peer \<Rightarrow> ('a, 'b) device" where
  "store_peer d r p = d\<lparr>dv_arena := (dv_arena d)[r := p]\<rparr>"

definition store_limiter :: "('a, 'b) device \<Rightarrow> nat \<Rightarrow> rate_limiter \<Rightarrow> ('a, 'b) device" where
  "store_limiter d r rl = d\<lparr>dv_limiters := (dv_limiters d)[r := rl]\<rparr>"

subsection \<open>Packets out of a tunnel\<close>

text \<open>The branches \<^verbatim>\<open>WriteToTunnelV4\<close> and \<^verbatim>\<open>WriteToTunnelV6\<close>. The flag says that the handler goes on with the
  next datagram at once (\<^verbatim>\<open>continue\<close>). \<open>reply_addr\<close> is where payment messages are sent to; the handler
  of a connected socket reads it from the endpoint and panics when there is none.\<close>

definition with_addr :: "sock_addr option \<Rightarrow> (sock_addr \<Rightarrow> (unit, 'x) rust) \<Rightarrow> (unit, 'x) rust" where
  "with_addr reply_addr f = (case reply_addr of None \<Rightarrow> Panic | Some addr \<Rightarrow> f addr)"

definition payment_signal ::
    "crypto \<Rightarrow> eth_crypto \<Rightarrow> (unit, 'a) net_table \<Rightarrow> env \<Rightarrow> ('a, 'b) device \<Rightarrow> 'a peer \<Rightarrow> bytes \<Rightarrow> sock_addr option
     \<Rightarrow> (unit, 'a peer \<times> effect list) rust" where
  "payment_signal C E NP v d p packet reply_addr =
     (case extract_signal_payload packet of
        Panic \<Rightarrow> Panic
      | Err _ \<Rightarrow> Ok (p, [])
      | Ok payload \<Rightarrow>
          (case dst_ipv4 packet of
             None \<Rightarrow> Ok (p, [])
           | Some dst \<Rightarrow>
               if dst = PAYMENT_GATEWAY_IP
               then with_addr reply_addr (handle_payment_submit C E NP v d p payload)
               else (case src_ipv4 packet of
                       None \<Rightarrow> Ok (p, [])
                     | Some src \<Rightarrow>
                         if src = PAYMENT_GATEWAY_IP
                         then with_addr reply_addr (handle_payment_signal_client C E NP v d p payload)
                         else Ok (p, []))))"

definition tunnel_v4 ::
    "crypto \<Rightarrow> eth_crypto \<Rightarrow> (unit, 'a) net_table \<Rightarrow> env \<Rightarrow> ('a, 'b) device \<Rightarrow> 'a peer \<Rightarrow> bytes \<Rightarrow> ipv4 \<Rightarrow> sock_addr option
     \<Rightarrow> (unit, 'a peer \<times> effect list \<times> bool) rust" where
  "tunnel_v4 C E NP v d p packet src_ip reply_addr =
     (if is_payment_signal packet
      then rbind (payment_signal C E NP v d p packet reply_addr) (\<lambda>(p, fx). Ok (p, fx, True))
      else if \<not> is_allowed_ip NP p (V4 src_ip) then Ok (p, [], False)
      else case (is_server (dv_config d), p_quota p) of
             (True, Some q) \<Rightarrow>
               if is_blocked q then Ok (p, [], True)
               else (case consume q (of_nat (length packet)) of (q, enough) \<Rightarrow>
                 let p = p\<lparr>p_quota := Some q\<rparr> in
                 if \<not> enough
                 then with_addr reply_addr (\<lambda>addr.
                        rbind (send_payment_required C NP v d p addr) (\<lambda>(p, fx). Ok (p, fx, True)))
                 else Ok (p, [WriteTun packet], False))
           | _ \<Rightarrow> Ok (p, [WriteTun packet], False))"

definition tunnel_v6 ::
    "(unit, 'a) net_table \<Rightarrow> ('a, 'b) device \<Rightarrow> 'a peer \<Rightarrow> bytes \<Rightarrow> ipv6 \<Rightarrow> 'a peer \<times> effect list \<times> bool" where
  "tunnel_v6 NP d p packet src_ip =
     (if \<not> is_allowed_ip NP p (V6 src_ip) then (p, [], False)
      else case (is_server (dv_config d), p_quota p) of
             (True, Some q) \<Rightarrow>
               if is_blocked q then (p, [], True)
               else (case consume q (of_nat (length packet)) of (q, enough) \<Rightarrow>
                 let p = p\<lparr>p_quota := Some q\<rparr> in
                 if \<not> enough then (p, [], True) else (p, [WriteTun packet], False))
           | _ \<Rightarrow> (p, [WriteTun packet], False))"

text \<open>The loop that flushes the queue of a tunnel: the packets to send, in order.\<close>

fun flush :: "nat \<Rightarrow> crypto \<Rightarrow> env \<Rightarrow> nat \<Rightarrow> rate_limiter \<Rightarrow> tunn \<Rightarrow> (tunn \<times> bytes list) outcome" where
  "flush 0 C v j rl t = None"
| "flush (Suc fuel) C v j rl t =
     (case decapsulate C rl t None [] MAX_UDP_SIZE (ev_ephemeral v (2 + j)) (\<lambda>k. ev_clk v (2 + 3 * j + k)) of
        None \<Rightarrow> None
      | Some (_, t, Ok (WriteToNetwork packet)) \<Rightarrow>
          then_do (flush fuel C v (Suc j) rl t) (\<lambda>(t, packets). Some (Ok (t, packet # packets)))
      | Some (_, t, Panic) \<Rightarrow> Some Panic
      | Some (_, t, _) \<Rightarrow> Some (Ok (t, [])))"

definition flush_peer ::
    "crypto \<Rightarrow> env \<Rightarrow> ('a, 'b) device \<Rightarrow> 'a peer \<Rightarrow> (bytes \<Rightarrow> effect) \<Rightarrow> ('a peer \<times> effect list) outcome" where
  "flush_peer C v d p send =
     then_do (flush (length (packet_queue (p_tunnel p)) + 3) C v 0 (dv_limiters d ! p_limiter p) (p_tunnel p)) (\<lambda>(t, packets).
     Some (Ok (p\<lparr>p_tunnel := t\<rparr>, map send packets)))"

subsection \<open>Datagrams on the listening sockets\<close>

definition find_peer ::
    "crypto \<Rightarrow> ('a, 'b) device \<Rightarrow> bytes \<Rightarrow> bytes \<Rightarrow> packet \<Rightarrow> nat opt" where
  "find_peer C d private_key public_key parsed =
     (let get = (\<lambda>m. case m of None \<Rightarrow> Err () | Some r \<Rightarrow> Ok r) in
      case parsed of
        HandshakeInit p \<Rightarrow>
          rbind (rmap_err (\<lambda>_. ()) (parse_handshake_anon C private_key public_key p)) (\<lambda>hh.
          get (map_of (dv_peers d) (hh_peer_static_public hh)))
      | HandshakeResponse p \<Rightarrow> get (map_of (dv_by_idx d) (drop_bit 8 (hr_receiver_idx p)))
      | PacketCookieReply p \<Rightarrow> get (map_of (dv_by_idx d) (drop_bit 8 (cr_receiver_idx p)))
      | PacketData p \<Rightarrow> get (map_of (dv_by_idx d) (drop_bit 8 (pd_receiver_idx p))))"

text \<open>What follows a packet that was handled: flushing, the endpoint of the peer, the connected socket.\<close>

definition after_packet ::
    "crypto \<Rightarrow> env \<Rightarrow> ('a, 'b) device \<Rightarrow> nat \<Rightarrow> 'a peer \<Rightarrow> sock_addr \<Rightarrow> bool \<Rightarrow> effect list
     \<Rightarrow> (('a, 'b) device \<times> effect list \<times> bool) outcome" where
  "after_packet C v d r p addr flush_queue fx =
     then_do (if flush_queue then flush_peer C v d p (SendTo addr) else Some (Ok (p, []))) (\<lambda>(p, sent).
     then_do (Some (set_endpoint (ev_os v) p addr)) (\<lambda>p.
     if dv_use_connected d
     then (case connect_endpoint (ev_os v) p (dv_listen_port d) (dv_fwmark d) of
             Ok p \<Rightarrow> if ev_new_event v then Some (Ok (store_peer d r p, fx @ sent @ [RegisterConn r (fst addr)], True))
                     else Some Panic
           | Err _ \<Rightarrow> Some (Ok (store_peer d r p, fx @ sent, True))
           | Panic \<Rightarrow> Some Panic)
     else Some (Ok (store_peer d r p, fx @ sent, True))))"

text \<open>One datagram. The flag says whether it counts against the limit of a handler call.\<close>

definition udp_packet ::
    "crypto \<Rightarrow> eth_crypto \<Rightarrow> (unit, 'a) net_table \<Rightarrow> bytes \<Rightarrow> bytes \<Rightarrow> nat \<Rightarrow> env \<Rightarrow> ('a, 'b) device \<Rightarrow> sock_addr \<Rightarrow> bytes
     \<Rightarrow> (('a, 'b) device \<times> effect list \<times> bool) outcome" where
  "udp_packet C E NP private_key public_key limiter v d addr packet =
     (case verify_packet C (dv_limiters d ! limiter) (Some (fst addr)) packet (ev_clk v 0) MAX_UDP_SIZE of
        (rl, verified) \<Rightarrow>
      let d = store_limiter d limiter rl in
      case verified of
        Panic \<Rightarrow> Some Panic
      | Err (WriteToNetwork cookie) \<Rightarrow> Some (Ok (d, [SendTo addr cookie], False))
      | Err _ \<Rightarrow> Some (Ok (d, [], False))
      | Ok parsed \<Rightarrow>
          (case find_peer C d private_key public_key parsed of
             Panic \<Rightarrow> Some Panic
           | Err _ \<Rightarrow> Some (Ok (d, [], False))
           | Ok r \<Rightarrow>
               let p = dv_arena d ! r in
               (case handle_verified_packet C (p_tunnel p) parsed MAX_UDP_SIZE (ev_ephemeral v 0) (ev_clk v 1) of
                  None \<Rightarrow> None
                | Some (t, res) \<Rightarrow>
                    let p = p\<lparr>p_tunnel := t\<rparr> in
                    (case res of
                       Panic \<Rightarrow> Some Panic
                     | Err _ \<Rightarrow> Some (Ok (store_peer d r p, [], False))
                     | Ok Done \<Rightarrow> after_packet C v d r p addr False []
                     | Ok (TErr _) \<Rightarrow> Some (Ok (store_peer d r p, [], False))
                     | Ok (WriteToNetwork out) \<Rightarrow> after_packet C v d r p addr True [SendTo addr out]
                     | Ok (WriteToTunnelV4 inner src_ip) \<Rightarrow>
                         then_do (Some (tunnel_v4 C E NP v d p inner src_ip (Some addr))) (\<lambda>(p, fx, skip).
                         if skip then Some (Ok (store_peer d r p, fx, False))
                         else after_packet C v d r p addr False fx)
                     | Ok (WriteToTunnelV6 inner src_ip) \<Rightarrow>
                         (case tunnel_v6 NP d p inner src_ip of (p, fx, skip) \<Rightarrow>
                          if skip then Some (Ok (store_peer d r p, fx, False))
                          else after_packet C v d r p addr False fx)))))"

fun udp_loop ::
    "crypto \<Rightarrow> eth_crypto \<Rightarrow> (unit, 'a) net_table \<Rightarrow> bytes \<Rightarrow> bytes \<Rightarrow> nat \<Rightarrow> nat \<Rightarrow> ('a, 'b) device
     \<Rightarrow> (env \<times> sock_addr \<times> bytes) list \<Rightarrow> (('a, 'b) device \<times> effect list \<times> (env \<times> sock_addr \<times> bytes) list) outcome" where
  "udp_loop C E NP sk pk limiter iter d [] = Some (Ok (d, [], []))"
| "udp_loop C E NP sk pk limiter iter d ((v, addr, packet) # waiting) =
     then_do (udp_packet C E NP sk pk limiter v d addr packet) (\<lambda>(d, fx, counted).
     let iter = (if counted then iter - 1 else iter) in
     if counted \<and> iter = 0 then Some (Ok (d, fx, waiting))
     else then_do (udp_loop C E NP sk pk limiter iter d waiting) (\<lambda>(d, fx', waiting). Some (Ok (d, fx @ fx', waiting))))"

definition udp_handler ::
    "crypto \<Rightarrow> eth_crypto \<Rightarrow> (unit, 'a) net_table \<Rightarrow> ('a, 'b) device \<Rightarrow> (env \<times> sock_addr \<times> bytes) list
     \<Rightarrow> (('a, 'b) device \<times> effect list \<times> (env \<times> sock_addr \<times> bytes) list) outcome" where
  "udp_handler C E NP d waiting =
     (case dv_key_pair d of
        None \<Rightarrow> Some Panic
      | Some (sk, pk) \<Rightarrow>
          (case dv_rate_limiter d of
             None \<Rightarrow> Some Panic
           | Some limiter \<Rightarrow> udp_loop C E NP sk pk limiter MAX_ITR d waiting))"

subsection \<open>Datagrams on the connected socket of a peer\<close>

text \<open>The handler owns a reference \<open>r\<close> to its peer, also after the peer left the tables of the device.\<close>

definition conn_packet ::
    "crypto \<Rightarrow> eth_crypto \<Rightarrow> (unit, 'a) net_table \<Rightarrow> nat \<Rightarrow> ip_addr \<Rightarrow> env \<Rightarrow> ('a, 'b) device \<Rightarrow> bytes
     \<Rightarrow> (('a, 'b) device \<times> effect list \<times> bool) outcome" where
  "conn_packet C E NP r peer_addr v d packet =
     (let p = dv_arena d ! r in
      case decapsulate C (dv_limiters d ! p_limiter p) (p_tunnel p) (Some peer_addr) packet MAX_UDP_SIZE
             (ev_ephemeral v 0) (ev_clk v) of
        None \<Rightarrow> None
      | Some (rl, t, res) \<Rightarrow>
          let d = store_limiter d (p_limiter p) rl;
              p = p\<lparr>p_tunnel := t\<rparr>;
              reply_addr = ep_addr (p_endpoint p)
          in (case res of
                Panic \<Rightarrow> Some Panic
              | Err _ \<Rightarrow> Some (Ok (store_peer d r p, [], True))
              | Ok Done \<Rightarrow> Some (Ok (store_peer d r p, [], True))
              | Ok (TErr _) \<Rightarrow> Some (Ok (store_peer d r p, [], True))
              | Ok (WriteToNetwork out) \<Rightarrow>
                  then_do (flush_peer C v d p (SendConn r)) (\<lambda>(p, sent).
                  Some (Ok (store_peer d r p, SendConn r out # sent, True)))
              | Ok (WriteToTunnelV4 inner src_ip) \<Rightarrow>
                  then_do (Some (tunnel_v4 C E NP v d p inner src_ip reply_addr)) (\<lambda>(p, fx, skip).
                  Some (Ok (store_peer d r p, fx, \<not> skip)))
              | Ok (WriteToTunnelV6 inner src_ip) \<Rightarrow>
                  (case tunnel_v6 NP d p inner src_ip of (p, fx, skip) \<Rightarrow>
                   Some (Ok (store_peer d r p, fx, \<not> skip)))))"

fun conn_loop ::
    "crypto \<Rightarrow> eth_crypto \<Rightarrow> (unit, 'a) net_table \<Rightarrow> nat \<Rightarrow> ip_addr \<Rightarrow> nat \<Rightarrow> ('a, 'b) device
     \<Rightarrow> (env \<times> bytes) list \<Rightarrow> (('a, 'b) device \<times> effect list \<times> (env \<times> bytes) list) outcome" where
  "conn_loop C E NP r peer_addr iter d [] = Some (Ok (d, [], []))"
| "conn_loop C E NP r peer_addr iter d ((v, packet) # waiting) =
     then_do (conn_packet C E NP r peer_addr v d packet) (\<lambda>(d, fx, counted).
     let iter = (if counted then iter - 1 else iter) in
     if counted \<and> iter = 0 then Some (Ok (d, fx, waiting))
     else then_do (conn_loop C E NP r peer_addr iter d waiting) (\<lambda>(d, fx', waiting). Some (Ok (d, fx @ fx', waiting))))"

definition conn_handler ::
    "crypto \<Rightarrow> eth_crypto \<Rightarrow> (unit, 'a) net_table \<Rightarrow> nat \<Rightarrow> ip_addr \<Rightarrow> ('a, 'b) device
     \<Rightarrow> (env \<times> bytes) list \<Rightarrow> (('a, 'b) device \<times> effect list \<times> (env \<times> bytes) list) outcome" where
  "conn_handler C E NP r peer_addr d waiting = conn_loop C E NP r peer_addr MAX_ITR d waiting"

subsection \<open>Packets from the tunnel interface\<close>

definition send_to_endpoint :: "nat \<Rightarrow> 'a peer \<Rightarrow> bytes \<Rightarrow> effect list" where
  "send_to_endpoint r p packet =
     (if ep_conn (p_endpoint p) then [SendConn r packet]
      else case ep_addr (p_endpoint p) of Some addr \<Rightarrow> [SendTo addr packet] | None \<Rightarrow> [])"

definition iface_send ::
    "crypto \<Rightarrow> env \<Rightarrow> ('a, 'b) device \<Rightarrow> nat \<Rightarrow> bytes \<Rightarrow> 'a peer \<Rightarrow> (unit, ('a, 'b) device \<times> effect list) rust" where
  "iface_send C v d r src p =
     (case encapsulate C (p_tunnel p) src MAX_UDP_SIZE (ev_ephemeral v 0) (ev_clk v) of
        (t, res) \<Rightarrow>
          let p = p\<lparr>p_tunnel := t\<rparr> in
          (case res of
             Ok Done \<Rightarrow> Ok (store_peer d r p, [])
           | Ok (TErr _) \<Rightarrow> Ok (store_peer d r p, [])
           | Err _ \<Rightarrow> Ok (store_peer d r p, [])
           | Ok (WriteToNetwork packet) \<Rightarrow> Ok (store_peer d r p, send_to_endpoint r p packet)
           | _ \<Rightarrow> Panic))"

definition iface_packet ::
    "crypto \<Rightarrow> (unit, 'a) net_table \<Rightarrow> (nat, 'b) net_table \<Rightarrow> env \<Rightarrow> ('a, 'b) device \<Rightarrow> bytes
     \<Rightarrow> (unit, ('a, 'b) device \<times> effect list) rust" where
  "iface_packet C NP ND v d src =
     (case dst_address src of
        Panic \<Rightarrow> Panic
      | Err _ \<Rightarrow> Ok (d, [])
      | Ok dst_addr \<Rightarrow>
          (case allowed_find ND (dv_by_ip d) dst_addr of
             None \<Rightarrow> Ok (d, [])
           | Some r \<Rightarrow>
               let p = dv_arena d ! r in
               (case (is_server (dv_config d), p_quota p) of
                  (True, Some q) \<Rightarrow>
                    if is_blocked q then Ok (d, [])
                    else (case consume q (of_nat (length src)) of (q, enough) \<Rightarrow>
                      let p = p\<lparr>p_quota := Some q\<rparr> in
                      if enough then iface_send C v d r src p
                      else (case ep_addr (p_endpoint p) of
                              None \<Rightarrow> Ok (store_peer d r p, [])
                            | Some addr \<Rightarrow>
                                rbind (send_payment_required C NP v d p addr) (\<lambda>(p, fx).
                                Ok (store_peer d r p, fx))))
                | _ \<Rightarrow> iface_send C v d r src p)))"

text \<open>At most \<open>MAX_ITR\<close> packets per call, those that are skipped included. A read that fails for another
  reason than being interrupted ends the event loop; it is the end of the list here.\<close>

fun iface_loop ::
    "crypto \<Rightarrow> (unit, 'a) net_table \<Rightarrow> (nat, 'b) net_table \<Rightarrow> nat \<Rightarrow> ('a, 'b) device \<Rightarrow> (env \<times> bytes) list
     \<Rightarrow> (unit, ('a, 'b) device \<times> effect list \<times> (env \<times> bytes) list) rust" where
  "iface_loop C NP ND (Suc iter) d ((v, src) # waiting) =
     rbind (iface_packet C NP ND v d src) (\<lambda>(d, fx).
     rbind (iface_loop C NP ND iter d waiting) (\<lambda>(d, fx', waiting). Ok (d, fx @ fx', waiting)))"
| "iface_loop C NP ND iter d waiting = Ok (d, [], waiting)"

definition iface_handler ::
    "crypto \<Rightarrow> (unit, 'a) net_table \<Rightarrow> (nat, 'b) net_table \<Rightarrow> ('a, 'b) device \<Rightarrow> (env \<times> bytes) list
     \<Rightarrow> (unit, ('a, 'b) device \<times> effect list \<times> (env \<times> bytes) list) rust" where
  "iface_handler C NP ND d waiting = (if \<not> dv_udp d then Panic else iface_loop C NP ND MAX_ITR d waiting)"

subsection \<open>Timers\<close>

definition limiter_tick :: "('a, 'b) device \<Rightarrow> nat \<Rightarrow> ('a, 'b) device" where
  "limiter_tick d now =
     (case dv_rate_limiter d of
        None \<Rightarrow> d
      | Some limiter \<Rightarrow> store_limiter d limiter (reset_count (dv_limiters d ! limiter) now))"

definition timer_peer ::
    "crypto \<Rightarrow> env \<Rightarrow> ('a, 'b) device \<Rightarrow> nat \<Rightarrow> (unit, ('a, 'b) device \<times> effect list) rust" where
  "timer_peer C v d r =
     (let p = dv_arena d ! r in
      case ep_addr (p_endpoint p) of
        None \<Rightarrow> Ok (d, [])
      | Some addr \<Rightarrow>
          (case update_timers C (dv_limiters d ! p_limiter p) (p_tunnel p) MAX_UDP_SIZE (ev_ephemeral v 0) (ev_clk v) of
             (rl, t, res) \<Rightarrow>
               let d = store_limiter d (p_limiter p) rl;
                   p = p\<lparr>p_tunnel := t\<rparr>
               in (case res of
                     Ok Done \<Rightarrow> Ok (store_peer d r p, [])
                   | Ok (TErr ConnectionExpired) \<Rightarrow> rbind (shutdown_endpoint (ev_os v) p) (\<lambda>p. Ok (store_peer d r p, []))
                   | Ok (TErr _) \<Rightarrow> Ok (store_peer d r p, [])
                   | Err _ \<Rightarrow> Ok (store_peer d r p, [])
                   | Ok (WriteToNetwork packet) \<Rightarrow> Ok (store_peer d r p, [SendTo addr packet])
                   | _ \<Rightarrow> Panic)))"

fun timer_loop ::
    "crypto \<Rightarrow> (nat \<Rightarrow> env) \<Rightarrow> nat \<Rightarrow> ('a, 'b) device \<Rightarrow> nat list \<Rightarrow> (unit, ('a, 'b) device \<times> effect list) rust" where
  "timer_loop C vs j d [] = Ok (d, [])"
| "timer_loop C vs j d (r # rs) =
     rbind (timer_peer C (vs j) d r) (\<lambda>(d, fx).
     rbind (timer_loop C vs (Suc j) d rs) (\<lambda>(d, fx'). Ok (d, fx @ fx')))"

definition timer_handler ::
    "crypto \<Rightarrow> (nat \<Rightarrow> env) \<Rightarrow> ('a, 'b) device \<Rightarrow> (unit, ('a, 'b) device \<times> effect list) rust" where
  "timer_handler C vs d = (if \<not> dv_udp d then Ok (d, []) else timer_loop C vs 0 d (map snd (dv_peers d)))"

end
