(* ===== verification/Device_Safety.thy ===== *)
theory Device_Safety
  imports Device_Loop
begin

text \<open>
  No event makes a configured device panic or hang. The safety of the tunnel (theory \<open>Tunnel\<close>) is lifted
  through the payment handlers and the event handlers to runs of the whole device: datagrams from
  anybody, datagrams on connected sockets, packets from the interface and timers, in any order.
\<close>

section \<open>Definitions\<close>

text \<open>An event of the device with the readings of the clock it makes: at most a thousand.\<close>

definition fin :: "env \<Rightarrow> nat" where
  "fin v = ev_clk v 1000"

text \<open>What is asked of the surroundings: the clock does not run backwards, the random nonce has its length, and
  the settlement client and the operating system do not fail in a way the source unwraps.\<close>

definition env_adm :: "env \<Rightarrow> bool" where
  "env_adm v \<longleftrightarrow> mono (ev_clk v) \<and> length (ev_nonce v) = 32
     \<and> (\<forall>request. ev_settle v request \<noteq> Panic) \<and> os_shutdown (ev_os v)
     \<and> (\<forall>addr port mark. os_connect (ev_os v) addr port mark \<noteq> Panic) \<and> ev_new_event v"

definition env_ok :: "nat \<Rightarrow> env \<Rightarrow> bool" where
  "env_ok now v \<longleftrightarrow> now \<le> ev_clk v 0 \<and> env_adm v"

definition peer_safe :: "nat \<Rightarrow> nat \<Rightarrow> 'a peer \<Rightarrow> bool" where
  "peer_safe m now p \<longleftrightarrow> tunn_ok m now (p_tunnel p) \<and> (ep_conn (p_endpoint p) \<longrightarrow> ep_addr (p_endpoint p) \<noteq> None)"

definition sound :: "nat \<Rightarrow> nat \<Rightarrow> (unit, 'a peer \<times> 'x) rust \<Rightarrow> bool" where
  "sound m now r \<longleftrightarrow> (\<exists>p x. r = Ok (p, x) \<and> peer_safe m now p)"

definition touched :: "'a peer \<Rightarrow> 'a peer \<Rightarrow> bool" where
  "touched p p' \<longleftrightarrow> (\<exists>t q. p' = p\<lparr>p_tunnel := t, p_quota := q\<rparr>)"

definition payment_ok :: "eth_crypto \<Rightarrow> ('a, 'b) device \<Rightarrow> bool" where
  "payment_ok E d \<longleftrightarrow> (\<forall>w. dv_wallet d = Some w \<longrightarrow> wf_wallet E w) \<and> length (cfg_usdc_contract (dv_config d)) = 20"

text \<open>A device that serves: its key is set and its sockets are open, its tables refer to peers of the arena,
  and every tunnel is well-formed, with packets of at most \<open>m\<close> bytes.\<close>

definition dev_safe :: "eth_crypto \<Rightarrow> (nat, 'b) net_table \<Rightarrow> nat \<Rightarrow> nat \<Rightarrow> ('a, 'b) device \<Rightarrow> bool" where
  "dev_safe E ND m now d \<longleftrightarrow>
     dv_key_pair d \<noteq> None \<and> dv_rate_limiter d \<noteq> None \<and> dv_udp d \<and> payment_ok E d
     \<and> (\<forall>p \<in> set (dv_arena d). peer_safe m now p)
     \<and> (\<forall>x \<in> set (dv_peers d). snd x < length (dv_arena d))
     \<and> (\<forall>x \<in> set (dv_by_idx d). snd x < length (dv_arena d))
     \<and> (\<forall>a r. allowed_find ND (dv_by_ip d) a = Some r \<longrightarrow> r < length (dv_arena d))"

definition MAX_INNER :: nat where "MAX_INNER = 65387"

definition regular_datagram :: "bytes \<Rightarrow> bool" where
  "regular_datagram packet \<longleftrightarrow> length packet \<le> MAX_UDP_SIZE
     \<and> (case parse_incoming_packet packet of Ok (PacketData q) \<Rightarrow> regular_counter (pd_counter q) | _ \<Rightarrow> True)"

subsection \<open>The device as a machine\<close>

datatype dev_event =
    Datagrams "(env \<times> sock_addr \<times> bytes) list"
  | ConnDatagrams nat ip_addr "(env \<times> bytes) list"
  | InterfacePackets "(env \<times> bytes) list"
  | PeerTimers "nat \<Rightarrow> env"
  | LimiterTimer nat

type_synonym ('a, 'b) dev_state = "nat \<times> ('a, 'b) device"

text \<open>The clock readings of an event are offsets from the last reading of the event before; those of an item
  of a list are offsets from the last reading of the item before.\<close>

definition shift :: "nat \<Rightarrow> env \<Rightarrow> env" where
  "shift now v = v\<lparr>ev_clk := (\<lambda>k. now + ev_clk v k)\<rparr>"

fun shift_all :: "nat \<Rightarrow> (env \<times> 'x) list \<Rightarrow> (env \<times> 'x) list" where
  "shift_all now [] = []"
| "shift_all now ((v, x) # xs) = (shift now v, x) # shift_all (fin (shift now v)) xs"

fun last_reading :: "nat \<Rightarrow> (env \<times> 'x) list \<Rightarrow> nat" where
  "last_reading now [] = now"
| "last_reading now ((v, x) # xs) = last_reading (fin v) xs"

text \<open>What an event yields: the effects, when the handler returned and did not panic. Events on a connected
  socket occur only where a peer has an endpoint, on which the socket was made.\<close>

definition dev_reply :: "('a, 'b) dev_state \<Rightarrow> nat \<Rightarrow> (('a, 'b) device \<times> effect list \<times> 'w) outcome
    \<Rightarrow> ('a, 'b) dev_state \<times> effect list option" where
  "dev_reply s now out = (case out of Some (Ok (d, fx, _)) \<Rightarrow> ((now, d), Some fx) | _ \<Rightarrow> (s, None))"

fun dev_step ::
    "crypto \<Rightarrow> eth_crypto \<Rightarrow> (unit, 'a) net_table \<Rightarrow> (nat, 'b) net_table \<Rightarrow> ('a, 'b) dev_state \<Rightarrow> dev_event
     \<Rightarrow> ('a, 'b) dev_state \<times> effect list option" where
  "dev_step C E NP ND (now, d) (Datagrams xs) =
     (let xs = shift_all now xs in dev_reply (now, d) (last_reading now xs) (udp_handler C E NP d xs))"
| "dev_step C E NP ND (now, d) (ConnDatagrams r ip xs) =
     (let xs = shift_all now xs in
      if r < length (dv_arena d) \<and> ep_addr (p_endpoint (dv_arena d ! r)) \<noteq> None
      then dev_reply (now, d) (last_reading now xs) (conn_handler C E NP r ip d xs)
      else ((now, d), Some []))"
| "dev_step C E NP ND (now, d) (InterfacePackets xs) =
     (let xs = shift_all now xs in dev_reply (now, d) (last_reading now xs) (Some (iface_handler C NP ND d xs)))"
| "dev_step C E NP ND (now, d) (PeerTimers vs) =
     (let vs = (\<lambda>j. shift now (vs j)) in
      dev_reply (now, d) (ev_clk (vs (length (dv_peers d))) 0)
        (Some (rbind (timer_handler C vs d) (\<lambda>(d, fx). Ok (d, fx, ())))))"
| "dev_step C E NP ND (now, d) (LimiterTimer reading) = ((now, limiter_tick d reading), Some [])"

definition sample_env :: env where
  "sample_env = \<lparr>ev_ephemeral = (\<lambda>_. []), ev_clk = (\<lambda>_. 0), ev_nonce = replicate 32 0, ev_now = 0, ev_settle = (\<lambda>_. Err (Http [])),
     ev_os = \<lparr>os_shutdown = True, os_connect = (\<lambda>_ _ _. Ok ()), os_bind = Ok\<rparr>, ev_new_event = True\<rparr>"

text \<open>Datagrams are as long as a datagram can be, and none carries one of the last 1024 counters of a session;
  packets of the interface fit its MTU, which leaves room for the headers.\<close>

fun dev_adm :: "dev_event \<Rightarrow> bool" where
  "dev_adm (Datagrams xs) \<longleftrightarrow> (\<forall>(v, _, packet) \<in> set xs. env_adm v \<and> regular_datagram packet)"
| "dev_adm (ConnDatagrams r ip xs) \<longleftrightarrow> (\<forall>(v, packet) \<in> set xs. env_adm v \<and> regular_datagram packet)"
| "dev_adm (InterfacePackets xs) \<longleftrightarrow> (\<forall>(v, src) \<in> set xs. env_adm v \<and> length src \<le> MAX_INNER)"
| "dev_adm (PeerTimers vs) \<longleftrightarrow> (\<forall>j. env_adm (vs j) \<and> fin (vs j) \<le> ev_clk (vs (Suc j)) 0)"
| "dev_adm (LimiterTimer reading) \<longleftrightarrow> True"

fun state_safe :: "crypto \<Rightarrow> eth_crypto \<Rightarrow> (nat, 'b) net_table \<Rightarrow> ('a, 'b) dev_state \<Rightarrow> bool" where
  "state_safe C E ND (now, d) \<longleftrightarrow> aead_correct C \<and> eth_correct E \<and> dev_safe E ND MAX_INNER now d"

section \<open>Peers\<close>

lemma clk_between:
  assumes "env_ok now v" and "k \<le> 1000"
  shows "now \<le> ev_clk v k" "ev_clk v k \<le> fin v"
proof -
  have "mono (ev_clk v)" "now \<le> ev_clk v 0" using assms(1) by (simp_all add: env_ok_def env_adm_def)
  then show "now \<le> ev_clk v k" "ev_clk v k \<le> fin v"
    using assms(2) monoD [of "ev_clk v" 0 k] monoD [of "ev_clk v" k 1000] by (auto simp: fin_def)
qed

lemma now_le_fin: "env_ok now v \<Longrightarrow> now \<le> fin v"
  using clk_between [of now v 0] by simp

lemma peer_safe_later: "peer_safe m now p \<Longrightarrow> now \<le> now' \<Longrightarrow> peer_safe m now' p"
  by (auto simp: peer_safe_def intro: tunn_ok_later)

lemma peer_safe_tunnel [simp]:
  "peer_safe m now (p\<lparr>p_tunnel := t\<rparr>) \<longleftrightarrow> tunn_ok m now t \<and> (ep_conn (p_endpoint p) \<longrightarrow> ep_addr (p_endpoint p) \<noteq> None)"
  "peer_safe m now (p\<lparr>p_quota := q\<rparr>) \<longleftrightarrow> peer_safe m now p"
  "peer_safe m now (credit_peer n p) \<longleftrightarrow> peer_safe m now p"
  by (simp_all add: peer_safe_def credit_peer_def)

lemma sound_Ok [simp]: "sound m now (Ok (p, x)) \<longleftrightarrow> peer_safe m now p"
  by (simp add: sound_def)

lemma sound_not_Panic [simp]: "\<not> sound m now Panic" "\<not> sound m now (Err e)"
  by (simp_all add: sound_def)

lemma sound_rbind: "sound m now r \<Longrightarrow> (\<And>p x. peer_safe m now p \<Longrightarrow> sound m now (f (p, x))) \<Longrightarrow> sound m now (rbind r f)"
  by (auto simp: sound_def)

section \<open>Payment handlers\<close>

lemma send_signal_sound:
  assumes "env_ok now v" and p: "peer_safe m now p" and len: "length packet \<le> 480" "480 \<le> m"
  shows "sound m (fin v) (send_signal C v p packet addr)"
proof -
  have "settled m (fin v) (encapsulate C (p_tunnel p) packet MAX_PAYMENT_PACKET_SIZE (ev_ephemeral v 1) (\<lambda>k. ev_clk v (2 + k)))"
    by (rule encapsulate_fits [where clk = "\<lambda>k. ev_clk v (2 + k)" and now = now])
      (use p len clk_between [OF assms(1), of 2] in \<open>simp_all add: peer_safe_def MAX_PAYMENT_PACKET_SIZE_def\<close>)
  then show ?thesis using p
    by (auto simp: send_signal_def settled_def peer_safe_def split: prod.splits tunn_result.splits)
qed

lemma built_signal:
  assumes "length payload \<le> 452"
  obtains packet where "build_signal_packet src dst payload = Ok packet" "length packet \<le> 480"
proof (rule that [of "signal_layout src dst payload"])
  show "build_signal_packet src dst payload = Ok (signal_layout src dst payload)" "length (signal_layout src dst payload) \<le> 480"
    using assms build_signal_packet_layout [of payload src dst] signal_layout_read(1) [of payload src dst] by simp_all
qed

lemma send_payment_required_sound:
  assumes v: "env_ok now v" and p: "peer_safe m now p" and m: "480 \<le> m" and E: "eth_correct E" and d: "payment_ok E d"
  shows "sound m (fin v) (send_payment_required C NP v d p addr)"
proof (cases "dv_wallet d")
  case (Some w)
  have "length (ethereum_address w) = 20" using length_ethereum_address [OF E] d Some by (simp add: payment_ok_def)
  then have len: "length (required_encode \<lparr>pr_amount_usdc = amount_per_quota (dv_config d), pr_nonce = ev_nonce v,
      pr_recipient = ethereum_address w, pr_deadline = ev_now v + 300, pr_chain_id = cfg_chain_id (dv_config d),
      pr_usdc_contract = cfg_usdc_contract (dv_config d)\<rparr>) \<le> 452"
    using v d by (simp add: required_encode_def env_ok_def env_adm_def payment_ok_def)
  show ?thesis
  proof (cases "first_ipv4 NP p")
    case (Some ip)
    obtain packet where "build_signal_packet PAYMENT_GATEWAY_IP ip (required_encode \<lparr>pr_amount_usdc = amount_per_quota (dv_config d),
        pr_nonce = ev_nonce v, pr_recipient = ethereum_address w, pr_deadline = ev_now v + 300,
        pr_chain_id = cfg_chain_id (dv_config d), pr_usdc_contract = cfg_usdc_contract (dv_config d)\<rparr>) = (Ok packet :: bytes opt)"
        "length packet \<le> 480"
      by (rule built_signal [OF len])
    then show ?thesis
      using send_signal_sound [OF v p _ m] \<open>dv_wallet d = Some w\<close> Some by (simp add: send_payment_required_def Let_def)
  qed (use \<open>dv_wallet d = Some w\<close> peer_safe_later [OF p now_le_fin [OF v]] in \<open>simp add: send_payment_required_def\<close>)
qed (use peer_safe_later [OF p now_le_fin [OF v]] in \<open>simp add: send_payment_required_def\<close>)

lemma send_payment_accepted_sound:
  assumes v: "env_ok now v" and p: "peer_safe m now p" and m: "480 \<le> m"
  shows "sound m (fin v) (send_payment_accepted C NP v d p addr)"
proof (cases "first_ipv4 NP p")
  case (Some ip)
  have len: "length (accepted_encode \<lparr>pa_new_quota_bytes = quota_bytes (dv_config d)\<rparr>) \<le> 452" by (simp add: accepted_encode_def)
  obtain packet where "build_signal_packet PAYMENT_GATEWAY_IP ip
      (accepted_encode \<lparr>pa_new_quota_bytes = quota_bytes (dv_config d)\<rparr>) = (Ok packet :: bytes opt)" "length packet \<le> 480"
    by (rule built_signal [OF len])
  then show ?thesis using send_signal_sound [OF v p _ m] Some by (simp add: send_payment_accepted_def)
qed (use peer_safe_later [OF p now_le_fin [OF v]] in \<open>simp add: send_payment_accepted_def\<close>)

lemma handle_payment_submit_sound:
  assumes v: "env_ok now v" and p: "peer_safe m now p" and m: "480 \<le> m"
  shows "sound m (fin v) (handle_payment_submit C E NP v d p payload addr)"
proof -
  have later: "peer_safe m (fin v) q" if "peer_safe m now q" for q :: "'a peer"
    using that peer_safe_later now_le_fin [OF v] by blast
  have "submit_decode payload \<noteq> Panic" by (rule submit_codec.dec_total)
  moreover have "ev_settle v req \<noteq> Panic" for req using v by (simp add: env_ok_def env_adm_def)
  ultimately show ?thesis
    using p later
    by (auto simp: handle_payment_submit_def check_and_record_nonce_def Let_def split: option.split rust.split
        intro!: send_payment_accepted_sound [OF v _ m])
qed

lemma handle_payment_signal_client_sound:
  assumes v: "env_ok now v" and p: "peer_safe m now p" and m: "480 \<le> m" and E: "eth_correct E" and d: "payment_ok E d"
  shows "sound m (fin v) (handle_payment_signal_client C E NP v d p payload addr)"
proof -
  have later: "peer_safe m (fin v) p" using p peer_safe_later now_le_fin [OF v] by blast
  have total: "required_decode payload \<noteq> Panic" "accepted_decode payload \<noteq> Panic"
    by (rule required_codec.dec_total, rule accepted_codec.dec_total)
  have answer: "sound m (fin v) (rbind (sign_submit E (dv_config d) w (ev_now v) req) (\<lambda>submit.
      case first_ipv4 NP p of None \<Rightarrow> Ok (p, []) | Some client_ip \<Rightarrow>
        rbind (build_signal_packet client_ip PAYMENT_GATEWAY_IP (submit_encode submit)) (\<lambda>packet. send_signal C v p packet addr)))"
    if w: "dv_wallet d = Some w" and req: "required_decode payload = Ok req" for w req
  proof -
    have wallet: "wf_wallet E w" using d w by (simp add: payment_ok_def)
    define auth where "auth = \<lparr>auth_from = ethereum_address w, auth_to = pr_recipient req, auth_value = pr_amount_usdc req,
        auth_valid_after = 0, auth_valid_before = ev_now v + 345600, auth_nonce = pr_nonce req\<rparr>"
    obtain sv r s where sig: "sign_digest E w (compute_eip712_digest E (gateway_domain (dv_config d)) auth) = Ok (sv, r, s)"
        "length r = 32" "length s = 32"
      by (rule sign_digest_recovers [OF E wallet])
    then obtain submit where submit: "sign_submit E (dv_config d) w (ev_now v) req = Ok submit" "ps_r submit = r" "ps_s submit = s"
        "ps_from submit = ethereum_address w" "ps_to submit = pr_recipient req" "ps_nonce submit = pr_nonce req"
      by (simp add: sign_submit_def auth_def [symmetric] Let_def)
    have "wf_required req" using required_decode_accepts [OF req] by simp
    then have len: "length (submit_encode submit) \<le> 452"
      using submit sig length_ethereum_address [OF E wallet] by (simp add: submit_encode_def wf_required_def)
    show ?thesis
    proof (cases "first_ipv4 NP p")
      case (Some ip)
      obtain packet where "build_signal_packet ip PAYMENT_GATEWAY_IP (submit_encode submit) = (Ok packet :: bytes opt)" "length packet \<le> 480"
        by (rule built_signal [OF len])
      then show ?thesis using send_signal_sound [OF v p _ m] Some submit(1) by simp
    qed (use later submit(1) in simp)
  qed
  show ?thesis
    using later total answer
    by (cases payload) (auto simp: handle_payment_signal_client_def index_def split: rust.split option.split)
qed

section \<open>Packets out of a tunnel\<close>

lemma extract_total: "extract_signal_payload packet \<noteq> Panic"
  by (cases "length packet < 20") (auto simp: extract_signal_payload_def index_def range_def Let_def not_less)

lemma payment_signal_sound:
  assumes v: "env_ok now v" and p: "peer_safe m now p" and m: "480 \<le> m" and E: "eth_correct E" and d: "payment_ok E d"
  shows "sound m (fin v) (payment_signal C E NP v d p packet (Some addr))"
proof -
  have later: "peer_safe m (fin v) p" using p peer_safe_later now_le_fin [OF v] by blast
  have "extract_signal_payload packet \<noteq> Panic" by (rule extract_total)
  then show ?thesis
    using later handle_payment_submit_sound [OF v p m, where addr = addr]
      handle_payment_signal_client_sound [OF v p m E d, where addr = addr]
    by (auto simp: payment_signal_def with_addr_def split: rust.split option.split)
qed

lemma tunnel_v4_sound:
  assumes v: "env_ok now v" and p: "peer_safe m now p" and m: "480 \<le> m" and E: "eth_correct E" and d: "payment_ok E d"
  shows "sound m (fin v) (tunnel_v4 C E NP v d p packet src (Some addr))"
proof -
  have later: "peer_safe m (fin v) q" if "peer_safe m now q" for q :: "'a peer"
    using that peer_safe_later now_le_fin [OF v] by blast
  have signal: "sound m (fin v) (rbind (payment_signal C E NP v d p packet (Some addr)) (\<lambda>(p, fx). Ok (p, fx, True)))"
    by (rule sound_rbind [OF payment_signal_sound [OF assms]]) simp
  have request: "sound m (fin v) (rbind (send_payment_required C NP v d q addr) (\<lambda>(p, fx). Ok (p, fx, True)))"
    if "peer_safe m now q" for q :: "'a peer"
    by (rule sound_rbind [OF send_payment_required_sound [OF v that m E d]]) simp
  show ?thesis
    using signal request later p
    by (auto simp: tunnel_v4_def with_addr_def Let_def split: bool.split option.split prod.split)
qed

lemma tunnel_v4_keeps:
  "tunnel_v4 C E NP v d p packet src addr = Ok (p', fx, False) \<Longrightarrow> p_tunnel p' = p_tunnel p \<and> p_endpoint p' = p_endpoint p"
  by (auto simp: tunnel_v4_def with_addr_def Let_def rbind_eq_Ok split: if_splits bool.splits option.splits prod.splits)

lemma tunnel_v6_safe: "peer_safe m now p \<Longrightarrow> peer_safe m now (fst (tunnel_v6 NP d p packet src))"
  by (auto simp: tunnel_v6_def Let_def split: bool.split option.split prod.split)

text \<open>Each round of the flushing loop shortens the queue or starts the one handshake that can be started, so
  the fuel suffices.\<close>

definition pending :: "tunn \<Rightarrow> nat" where
  "pending t = length (packet_queue t) + (if is_in_progress (tn_handshake t) then 0 else 1)"

lemma format_initiation_in_progress:
  "format_handshake_initiation C hs e t0 t1 n = (hs', Ok m) \<Longrightarrow> is_in_progress hs'"
  by (auto simp: format_handshake_initiation_def append_mac1_and_mac2_def is_in_progress_def Let_def case_prod_beta split: if_splits)

lemma tunn_initiation_pending:
  assumes "tunn_format_handshake_initiation C t n False e clk = (t', Ok (WriteToNetwork packet))"
  shows "is_in_progress (tn_handshake t')" "\<not> is_in_progress (tn_handshake t)" "packet_queue t' = packet_queue t"
  using assms format_initiation_in_progress
  by (auto simp: tunn_format_handshake_initiation_def Let_def split: if_splits prod.splits rust.splits)

lemma send_queued_pending:
  assumes "send_queued_packet C t n e clk = (t', Ok (WriteToNetwork packet))" and "length (packet_queue t) \<le> MAX_QUEUE_DEPTH"
  shows "pending t' < pending t \<and> length (packet_queue t') \<le> length (packet_queue t)"
proof (cases "packet_queue t")
  case Nil
  then show ?thesis using assms(1) by (simp add: send_queued_packet_def dequeue_packet_def)
next
  case (Cons p q)
  let ?t = "t\<lparr>packet_queue := q\<rparr>"
  have enc: "encapsulate C ?t p n e clk = (t', Ok (WriteToNetwork packet))"
    using assms(1) Cons by (auto simp: send_queued_packet_def dequeue_packet_def split: prod.splits rust.splits tunn_result.splits)
  show ?thesis
  proof (cases "sessions t ! (current t mod N_SESSIONS)")
    case None
    then have init: "tunn_format_handshake_initiation C (queue_packet ?t p) n False e clk = (t', Ok (WriteToNetwork packet))"
      using enc by (simp add: encapsulate_def)
    have "length q < MAX_QUEUE_DEPTH" using assms(2) Cons by simp
    then show ?thesis
      using tunn_initiation_pending [OF init] Cons by (simp add: pending_def queue_packet_def)
  next
    case (Some s)
    then have "packet_queue t' = q" "tn_handshake t' = tn_handshake t"
      using enc by (auto simp: encapsulate_def Let_def split: prod.splits rust.splits)
    then show ?thesis using Cons by (simp add: pending_def)
  qed
qed

lemma flush_safe:
  assumes v: "env_ok now v" and m: "m + 148 \<le> MAX_UDP_SIZE"
  shows "tunn_ok m now' t \<Longrightarrow> now' \<le> ev_clk v (2 + 3 * j) \<Longrightarrow> pending t < fuel \<Longrightarrow> j + fuel \<le> 300
    \<Longrightarrow> \<exists>t' packets. flush fuel C v j rl t = Some (Ok (t', packets)) \<and> tunn_ok m (fin v) t'"
proof (induction fuel arbitrary: t j now')
  case (Suc fuel)
  let ?clk = "\<lambda>k. ev_clk v (2 + 3 * j + k)"
  have reading: "?clk 0 \<le> fin v" "?clk 0 \<le> ev_clk v (2 + 3 * Suc j)"
    using clk_between(2) [OF v, of "2 + 3 * j"] Suc.prems(4) v monoD [of "ev_clk v" "2 + 3 * j" "2 + 3 * Suc j"]
    by (auto simp: env_ok_def env_adm_def)
  obtain t' r where step: "send_queued_packet C t MAX_UDP_SIZE (ev_ephemeral v (2 + j)) ?clk = (t', Ok r)"
      and ok: "tunn_ok m (?clk 0) t'"
    using send_queued_settled [where clk = ?clk and now' = "?clk 0", OF Suc.prems(1) m, of C "ev_ephemeral v (2 + j)"] Suc.prems(2)
    by (auto simp: settled_def) (metis prod.collapse)
  have dec: "decapsulate C rl t None [] MAX_UDP_SIZE (ev_ephemeral v (2 + j)) ?clk = Some (rl, t', Ok r)"
    using step by (simp add: decapsulate_def)
  show ?case
  proof (cases r)
    case (WriteToNetwork packet)
    have "pending t' < pending t"
      using send_queued_pending [where clk = ?clk, OF step [unfolded WriteToNetwork]] Suc.prems(1) by (simp add: tunn_ok_def)
    then obtain t'' packets where "flush fuel C v (Suc j) rl t' = Some (Ok (t'', packets))" "tunn_ok m (fin v) t''"
      using Suc.IH [OF ok reading(2)] Suc.prems(3,4) by auto
    then show ?thesis using dec WriteToNetwork by (simp add: then_do_def)
  qed (use dec tunn_ok_later [OF ok reading(1)] in \<open>simp_all\<close>)
qed simp

lemma flush_peer_safe:
  assumes v: "env_ok now v" and m: "m + 148 \<le> MAX_UDP_SIZE" and p: "peer_safe m (ev_clk v 2) p"
  shows "\<exists>p' sent. flush_peer C v d p send = Some (Ok (p', sent)) \<and> peer_safe m (fin v) p'"
proof -
  have len: "length (packet_queue (p_tunnel p)) \<le> 256" using p by (simp add: peer_safe_def tunn_ok_def MAX_QUEUE_DEPTH_def)
  have fuel: "pending (p_tunnel p) < length (packet_queue (p_tunnel p)) + 3" by (simp add: pending_def)
  have ok: "tunn_ok m (ev_clk v 2) (p_tunnel p)" using p by (simp add: peer_safe_def)
  obtain t' packets where "flush (length (packet_queue (p_tunnel p)) + 3) C v 0 (dv_limiters d ! p_limiter p) (p_tunnel p)
      = Some (Ok (t', packets))" "tunn_ok m (fin v) t'"
    using flush_safe [OF v m ok _ fuel, of 0 C "dv_limiters d ! p_limiter p"] len by auto
  then show ?thesis using p by (simp add: flush_peer_def then_do_def peer_safe_def)
qed

section \<open>The device\<close>

text \<open>Updates that keep a device serving.\<close>

lemma dev_safeD:
  assumes "dev_safe E ND m now d"
  shows "payment_ok E d" "r < length (dv_arena d) \<Longrightarrow> peer_safe m now (dv_arena d ! r)"
    "map_of (dv_peers d) k = Some r \<Longrightarrow> r < length (dv_arena d)" "map_of (dv_by_idx d) i = Some r \<Longrightarrow> r < length (dv_arena d)"
  using assms by (force simp: dev_safe_def dest: map_of_SomeD)+

lemma dev_safe_later: "dev_safe E ND m now d \<Longrightarrow> now \<le> now' \<Longrightarrow> dev_safe E ND m now' d"
  by (auto simp: dev_safe_def intro: peer_safe_later)

lemma dev_safe_limiter [simp]: "dev_safe E ND m now (store_limiter d i rl) \<longleftrightarrow> dev_safe E ND m now d"
  by (simp add: dev_safe_def store_limiter_def payment_ok_def)

lemma dev_safe_store: "dev_safe E ND m now d \<Longrightarrow> peer_safe m now p \<Longrightarrow> dev_safe E ND m now (store_peer d r p)"
  using set_update_subset_insert [of "dv_arena d" r p] by (auto simp: dev_safe_def store_peer_def payment_ok_def)

lemma store_limiter_sel [simp]:
  "dv_arena (store_limiter d i rl) = dv_arena d" "dv_peers (store_limiter d i rl) = dv_peers d"
  "dv_by_idx (store_limiter d i rl) = dv_by_idx d" "payment_ok E (store_limiter d i rl) = payment_ok E d"
  by (simp_all add: store_limiter_def payment_ok_def)

text \<open>A handled item: the handler returned, the device serves at the last reading of the item's clock.\<close>

definition handled :: "eth_crypto \<Rightarrow> (nat, 'b) net_table \<Rightarrow> nat \<Rightarrow> nat \<Rightarrow> (('a, 'b) device \<times> 'x) outcome \<Rightarrow> bool" where
  "handled E ND m now out \<longleftrightarrow> (\<exists>d x. out = Some (Ok (d, x)) \<and> dev_safe E ND m now d)"

lemma handled_Ok [simp]: "handled E ND m now (Some (Ok (d, x))) \<longleftrightarrow> dev_safe E ND m now d"
  by (simp add: handled_def)

lemma set_endpoint_safe:
  "os_shutdown os \<Longrightarrow> peer_safe m now p \<Longrightarrow> \<exists>p'. set_endpoint os p addr = Ok p' \<and> peer_safe m now p' \<and> ep_addr (p_endpoint p') = Some addr"
  by (auto simp: set_endpoint_def peer_safe_def)

lemma after_packet_handled:
  assumes d: "dev_safe E ND m now d" and v: "env_ok now v" and m: "m + 148 \<le> MAX_UDP_SIZE" and p: "peer_safe m (ev_clk v 2) p"
  shows "handled E ND m (fin v) (after_packet C v d r p addr b fx)"
proof -
  have later: "dev_safe E ND m (fin v) d" using dev_safe_later [OF d now_le_fin [OF v]] .
  obtain p1 sent where p1: "(if b then flush_peer C v d p (SendTo addr) else Some (Ok (p, []))) = Some (Ok (p1, sent))"
      "peer_safe m (fin v) p1"
    using flush_peer_safe [OF v m p, of C d "SendTo addr"] peer_safe_later [OF p clk_between(2) [OF v, of 2]] by (cases b) auto
  obtain p2 where p2: "set_endpoint (ev_os v) p1 addr = Ok p2" "peer_safe m (fin v) p2" "ep_addr (p_endpoint p2) = Some addr"
    using set_endpoint_safe [OF _ p1(2), of "ev_os v" addr] v unfolding env_ok_def env_adm_def by blast
  have conn: "os_connect (ev_os v) addr port mark \<noteq> Panic" for port mark using v unfolding env_ok_def env_adm_def by blast
  have evt: "ev_new_event v" using v by (simp add: env_ok_def env_adm_def)
  show ?thesis
  proof (cases "connect_endpoint (ev_os v) p2 (dv_listen_port d) (dv_fwmark d)")
    case (Ok p3)
    then have "peer_safe m (fin v) p3" using p2(2,3)
      by (auto simp: connect_endpoint_def peer_safe_def rbind_eq_Ok split: if_splits)
    then show ?thesis using p1 p2 Ok evt dev_safe_store [OF later] by (simp add: after_packet_def then_do_def)
  next
    case (Err e)
    then show ?thesis using p1 p2 dev_safe_store [OF later p2(2)] by (simp add: after_packet_def then_do_def)
  next
    case Panic
    then show ?thesis using p2(3) conn [of "dv_listen_port d" "dv_fwmark d"]
      by (cases "os_connect (ev_os v) addr (dv_listen_port d) (dv_fwmark d)") (auto simp: connect_endpoint_def split: if_splits)
  qed
qed

lemma find_peer_total:
  assumes "aead_correct C" and "parse_incoming_packet packet = Ok parsed"
  shows "find_peer C d sk pk parsed \<noteq> Panic"
proof (cases parsed)
  case (HandshakeInit p)
  have len: "length (hi_encrypted_static p) = 32 + 16" using parse_init_canonical [of packet p] assms(2) HandshakeInit by auto
  have "parse_handshake_anon C sk pk p \<noteq> Panic"
    unfolding parse_handshake_anon_def Let_def by (rule rbind_not_Panic [OF open_no_panic [OF assms(1) len]]) simp
  then show ?thesis by (cases "parse_handshake_anon C sk pk p") (auto simp: find_peer_def HandshakeInit split: option.split)
qed (auto simp: find_peer_def Let_def split: option.split)

lemma find_peer_live: "dev_safe E ND m now d \<Longrightarrow> find_peer C d sk pk parsed = Ok r \<Longrightarrow> r < length (dv_arena d)"
  by (auto simp: find_peer_def Let_def rbind_eq_Ok dest: dev_safeD(3,4) split: packet.splits option.splits)

lemma udp_packet_handled:
  assumes C: "aead_correct C" and E: "eth_correct E" and d: "dev_safe E ND m now d" and v: "env_ok now v"
    and m: "480 \<le> m" "m + 148 \<le> MAX_UDP_SIZE" and packet: "regular_datagram packet"
  shows "handled E ND m (fin v) (udp_packet C E NP sk pk limiter v d addr packet)"
proof -
  obtain rl verified where ver: "verify_packet C (dv_limiters d ! limiter) (Some (fst addr)) packet (ev_clk v 0) MAX_UDP_SIZE = (rl, verified)"
    by fastforce
  let ?d = "store_limiter d limiter rl"
  have d1: "dev_safe E ND m now ?d" and d2: "dev_safe E ND m (fin v) ?d" using d dev_safe_later [OF d now_le_fin [OF v]] by simp_all
  show ?thesis
  proof (cases verified)
    case Panic
    then show ?thesis using verify_packet_effect [OF ver] by simp
  next
    case (Err e)
    then show ?thesis using d2 ver by (cases e) (simp_all add: udp_packet_def)
  next
    case (Ok parsed)
    have parse: "parse_incoming_packet packet = Ok parsed" using verify_packet_effect [OF ver] Ok by simp
    show ?thesis
    proof (cases "find_peer C ?d sk pk parsed")
      case Panic
      then show ?thesis using find_peer_total [OF C parse] by blast
    next
      case (Err e)
      then show ?thesis using d2 ver Ok by (simp add: udp_packet_def)
    next
      case (Ok r)
      define p where "p = dv_arena d ! r"
      have "r < length (dv_arena d)" using find_peer_live [OF d1 Ok] by simp
      then have p: "peer_safe m now p" using dev_safeD(2) [OF d] by (simp add: p_def)
      have tun: "tunn_ok m (ev_clk v 2) (p_tunnel p)" using p clk_between [OF v, of 2] tunn_ok_later by (auto simp: peer_safe_def)
      obtain t res where h: "handle_verified_packet C (p_tunnel p) parsed MAX_UDP_SIZE (ev_ephemeral v 0) (ev_clk v 1) = Some (t, Ok res)"
          and t: "tunn_ok m (ev_clk v 2) t" "tunn_ok m now t"
      proof -
        have len: "length packet \<le> MAX_UDP_SIZE" "148 \<le> MAX_UDP_SIZE" "\<And>q. parsed = PacketData q \<Longrightarrow> regular_counter (pd_counter q)"
          using packet parse by (auto simp: regular_datagram_def MAX_UDP_SIZE_def)
        have now: "tunn_ok m now (p_tunnel p)" using p by (simp add: peer_safe_def)
        obtain x where x: "handle_verified_packet C (p_tunnel p) parsed MAX_UDP_SIZE (ev_ephemeral v 0) (ev_clk v 1) = Some x" "settled m now x"
          using verified_fine [OF C now parse len] by blast
        then show thesis using that tunn_ok_later [of m now "fst x" "ev_clk v 2"] clk_between [OF v, of 2]
          by (cases x) (auto simp: settled_def)
      qed
      let ?p = "p\<lparr>p_tunnel := t\<rparr>"
      have safe: "peer_safe m (ev_clk v 2) ?p" "peer_safe m now ?p" "peer_safe m (fin v) ?p"
        using p t clk_between(2) [OF v, of 2] by (auto simp: peer_safe_def intro: tunn_ok_later)
      note step = udp_packet_def ver Let_def \<open>verified = Ok parsed\<close> Ok p_def [symmetric] h [unfolded One_nat_def] then_do_def
      note after = after_packet_handled [OF d1 v m(2)]
      show ?thesis
      proof (cases res)
        case (WriteToTunnelV4 inner src)
        obtain p' fx skip where v4: "tunnel_v4 C E NP v ?d ?p inner src (Some addr) = Ok (p', fx, skip)" "peer_safe m (fin v) p'"
          using tunnel_v4_sound [OF v safe(2) m(1) E, of ?d C NP inner src addr] dev_safeD(1) [OF d1] by (auto simp: sound_def)
        show ?thesis
        proof (cases skip)
          case True
          then show ?thesis using v4 dev_safe_store [OF d2] WriteToTunnelV4 by (simp add: step)
        next
          case False
          then have "peer_safe m (ev_clk v 2) p'"
            using tunnel_v4_keeps [of C E NP v ?d ?p inner src "Some addr" p' fx] v4(1) safe(1) by (simp add: peer_safe_def)
          then show ?thesis using v4(1) False after WriteToTunnelV4 by (simp add: step)
        qed
      next
        case (WriteToTunnelV6 inner src)
        obtain p' fx skip where v6: "tunnel_v6 NP ?d ?p inner src = (p', fx, skip)" by (metis prod_cases3)
        then have "peer_safe m (ev_clk v 2) p'" "peer_safe m (fin v) p'"
          using tunnel_v6_safe [OF safe(1), of NP ?d inner src] tunnel_v6_safe [OF safe(3), of NP ?d inner src] by simp_all
        then show ?thesis using v6 after dev_safe_store [OF d2] WriteToTunnelV6 by (simp add: step)
      qed (use safe after dev_safe_store [OF d2] in \<open>simp_all add: step\<close>)
    qed
  qed
qed

text \<open>On the connected socket of a peer with an endpoint.\<close>

lemma conn_packet_handled:
  assumes C: "aead_correct C" and E: "eth_correct E" and d: "dev_safe E ND m now d" and v: "env_ok now v"
    and m: "480 \<le> m" "m + 148 \<le> MAX_UDP_SIZE" and packet: "regular_datagram packet"
    and r: "r < length (dv_arena d)" "ep_addr (p_endpoint (dv_arena d ! r)) = Some addr"
  shows "handled E ND m (fin v) (conn_packet C E NP r ip v d packet)"
proof -
  define p where "p = dv_arena d ! r"
  have p: "peer_safe m now p" using dev_safeD(2) [OF d r(1)] by (simp add: p_def)
  have len: "length packet \<le> MAX_UDP_SIZE" "\<And>q. parse_incoming_packet packet = Ok (PacketData q) \<Longrightarrow> regular_counter (pd_counter q)"
    using packet by (auto simp: regular_datagram_def)
  have start: "now \<le> ev_clk v 0" using clk_between(1) [OF v] by simp
  have now: "tunn_ok m now (p_tunnel p)" using p by (simp add: peer_safe_def)
  obtain rl t res where dec: "decapsulate C (dv_limiters d ! p_limiter p) (p_tunnel p) (Some ip) packet MAX_UDP_SIZE (ev_ephemeral v 0) (ev_clk v)
      = Some (rl, t, Ok res)" and t: "tunn_ok m (ev_clk v 0) t"
    using decapsulate_settled [where clk = "ev_clk v" and now' = "ev_clk v 0" and addr = "Some ip" and e = "ev_ephemeral v 0"
        and rl = "dv_limiters d ! p_limiter p", OF C now len(1) m(2) start order_refl len(2)]
    by (auto simp: settled_def)
  let ?d = "store_limiter d (p_limiter p) rl" and ?p = "p\<lparr>p_tunnel := t\<rparr>"
  have v0: "env_ok (ev_clk v 0) v" using v by (simp add: env_ok_def)
  have safe: "peer_safe m (ev_clk v 0) ?p" "peer_safe m (ev_clk v 2) ?p" "peer_safe m (fin v) ?p"
    using p t clk_between [OF v0, of 2] by (auto simp: peer_safe_def intro: tunn_ok_later)
  have d2: "dev_safe E ND m (fin v) ?d" using dev_safe_later [OF d now_le_fin [OF v]] by simp
  note step = conn_packet_def Let_def p_def [symmetric] dec then_do_def
  show ?thesis
  proof (cases res)
    case (WriteToTunnelV4 inner src)
    have "ep_addr (p_endpoint ?p) = Some addr" using r(2) by (simp add: p_def)
    moreover obtain p' fx skip where "tunnel_v4 C E NP v ?d ?p inner src (Some addr) = Ok (p', fx, skip)" "peer_safe m (fin v) p'"
      using tunnel_v4_sound [OF v0 safe(1) m(1) E, of ?d C NP inner src addr] dev_safeD(1) [OF d2] by (auto simp: sound_def)
    ultimately show ?thesis using dev_safe_store [OF d2] WriteToTunnelV4 by (simp add: step)
  next
    case (WriteToTunnelV6 inner src)
    then show ?thesis using tunnel_v6_safe [OF safe(3), of NP ?d inner src] dev_safe_store [OF d2]
      by (auto simp: step split: prod.split)
  next
    case (WriteToNetwork out)
    obtain p' sent where "flush_peer C v ?d ?p (SendConn r) = Some (Ok (p', sent))" "peer_safe m (fin v) p'"
      using flush_peer_safe [OF v m(2) safe(2), of C ?d "SendConn r"] by blast
    then show ?thesis using dev_safe_store [OF d2] WriteToNetwork by (simp add: step)
  qed (use safe dev_safe_store [OF d2] in \<open>simp_all add: step\<close>)
qed

text \<open>Handling packets changes only the tunnel and the quota of a peer.\<close>

lemma touched_refl [simp]: "touched p p"
  by (cases p) (auto simp: touched_def)

lemma touched_trans: "touched p q \<Longrightarrow> touched q r \<Longrightarrow> touched p r"
  by (clarsimp simp: touched_def) (rule exI, rule exI, rule refl)

lemma touched_update [simp]: "touched p (p\<lparr>p_tunnel := t\<rparr>)" "touched p (p\<lparr>p_quota := x\<rparr>)" "touched p (credit_peer n p)"
  "touched (p\<lparr>p_tunnel := t\<rparr>) q \<longleftrightarrow> touched p q" "touched (p\<lparr>p_quota := x\<rparr>) q \<longleftrightarrow> touched p q"
  "touched (credit_peer n p) q \<longleftrightarrow> touched p q"
  by (cases p; auto simp: touched_def credit_peer_def)+

lemma send_signal_touched: "send_signal C v p packet addr = Ok (p', fx) \<Longrightarrow> touched p p'"
  by (auto simp: send_signal_def split: prod.splits rust.splits tunn_result.splits)

lemma payment_touched:
  "send_payment_required C NP v d p addr = Ok (p', fx) \<Longrightarrow> touched p p'"
  "send_payment_accepted C NP v d p addr = Ok (p', fx) \<Longrightarrow> touched p p'"
  by (auto simp: send_payment_required_def send_payment_accepted_def rbind_eq_Ok Let_def
      dest: send_signal_touched split: option.splits)

lemma submit_touched: "handle_payment_submit C E NP v d p payload addr = Ok (p', fx) \<Longrightarrow> touched p p'"
  by (auto simp: handle_payment_submit_def Let_def dest!: payment_touched
      split: option.splits rust.splits if_splits prod.splits)

lemma client_touched: "handle_payment_signal_client C E NP v d p payload addr = Ok (p', fx) \<Longrightarrow> touched p p'"
  by (auto simp: handle_payment_signal_client_def rbind_eq_Ok dest!: send_signal_touched
      split: option.splits rust.splits if_splits)

lemma tunnel_v4_touched: "tunnel_v4 C E NP v d p packet src addr = Ok (p', x) \<Longrightarrow> touched p p'"
  by (auto simp: tunnel_v4_def payment_signal_def with_addr_def rbind_eq_Ok Let_def
      dest!: payment_touched submit_touched client_touched
      split: option.splits rust.splits if_splits prod.splits bool.splits)

lemma tunnel_v6_touched: "tunnel_v6 NP d p packet src = (p', x) \<Longrightarrow> touched p p'"
  by (auto simp: tunnel_v6_def Let_def split: option.splits if_splits prod.splits bool.splits)

lemma flush_peer_touched: "flush_peer C v d p send = Some (Ok (p', sent)) \<Longrightarrow> touched p p'"
  by (auto simp: flush_peer_def then_do_def split: option.splits rust.splits prod.splits)

lemma conn_packet_touched:
  assumes "conn_packet C E NP r ip v d packet = Some (Ok (d', y))" and "r < length (dv_arena d)"
  shows "\<exists>p. dv_arena d' = (dv_arena d)[r := p] \<and> touched (dv_arena d ! r) p"
  using assms(1)
  by (auto simp: conn_packet_def then_do_def store_peer_def Let_def
      dest!: tunnel_v4_touched tunnel_v6_touched flush_peer_touched
      split: option.splits rust.splits prod.splits tunn_result.splits)

lemma conn_packet_keeps:
  assumes "conn_packet C E NP r ip v d packet = Some (Ok (d', y))" and "r < length (dv_arena d)"
  shows "length (dv_arena d') = length (dv_arena d) \<and> p_endpoint (dv_arena d' ! r) = p_endpoint (dv_arena d ! r)"
  using conn_packet_touched [OF assms] assms(2) by (auto simp: touched_def)

lemma timer_peer_keeps: "timer_peer C v d r = Ok (d', fx) \<Longrightarrow> length (dv_arena d') = length (dv_arena d)"
  by (auto simp: timer_peer_def store_peer_def Let_def rbind_eq_Ok
      split: option.splits rust.splits prod.splits tunn_result.splits wireguard_error.splits)

text \<open>Sealing never yields a packet for the interface.\<close>

definition outward :: "tunn_result \<Rightarrow> bool" where
  "outward r \<longleftrightarrow> (case r of WriteToTunnelV4 _ _ \<Rightarrow> False | WriteToTunnelV6 _ _ \<Rightarrow> False | _ \<Rightarrow> True)"

lemma initiation_outward: "tunn_format_handshake_initiation C t n b e clk = (t', Ok r) \<Longrightarrow> outward r"
  by (auto simp: tunn_format_handshake_initiation_def outward_def Let_def split: if_splits prod.splits rust.splits)

lemma encapsulate_outward: "encapsulate C t src n e clk = (t', Ok r) \<Longrightarrow> outward r"
  by (auto simp: encapsulate_def Let_def outward_def [of "WriteToNetwork x" for x] dest: initiation_outward
      split: option.splits prod.splits rust.splits)

lemma update_timers_outward: "update_timers C rl t n e clk = (rl', t', Ok r) \<Longrightarrow> outward r"
  by (auto simp: update_timers_def Let_def outward_def [of Done] outward_def [of "TErr x" for x] dest: initiation_outward encapsulate_outward
      split: if_splits prod.splits rust.splits)

lemma iface_packet_handled:
  assumes E: "eth_correct E" and d: "dev_safe E ND m now d" and v: "env_ok now v"
    and m: "480 \<le> m" "m + 148 \<le> MAX_UDP_SIZE" and src: "length src \<le> m"
  shows "handled E ND m (fin v) (Some (iface_packet C NP ND v d src))"
proof (cases "dst_address src")
  case (Ok a)
  have d2: "dev_safe E ND m (fin v) d" using dev_safe_later [OF d now_le_fin [OF v]] .
  show ?thesis
  proof (cases "allowed_find ND (dv_by_ip d) a")
    case (Some r)
    define p where "p = dv_arena d ! r"
    have "r < length (dv_arena d)" using d Some unfolding dev_safe_def by blast
    then have p: "peer_safe m now p" using dev_safeD(2) [OF d] by (simp add: p_def)
    have sent: "handled E ND m (fin v) (Some (iface_send C v d r src q))" if q: "peer_safe m now q" for q
    proof -
      have ok: "tunn_ok m now (p_tunnel q)" using q by (simp add: peer_safe_def)
      obtain t res where enc: "encapsulate C (p_tunnel q) src MAX_UDP_SIZE (ev_ephemeral v 0) (ev_clk v) = (t, Ok res)" "tunn_ok m (fin v) t"
        using encapsulate_settled [where clk = "ev_clk v", OF ok src m(2) clk_between [OF v, of 0], of C "ev_ephemeral v 0"]
        by (auto simp: settled_def) (metis prod.collapse)
      then show ?thesis
        using encapsulate_outward [OF enc(1)] dev_safe_store [OF d2, of "q\<lparr>p_tunnel := t\<rparr>"] q
        by (auto simp: iface_send_def outward_def peer_safe_def Let_def split: tunn_result.splits)
    qed
    have asked: "handled E ND m (fin v) (Some (rbind (send_payment_required C NP v d q addr) (\<lambda>(p, fx). Ok (store_peer d r p, fx))))"
      if "peer_safe m now q" for q and addr
      using send_payment_required_sound [OF v that m(1) E dev_safeD(1) [OF d], of C NP addr] dev_safe_store [OF d2]
      by (auto simp: sound_def)
    have stored: "dev_safe E ND m (fin v) (store_peer d r q)" if "peer_safe m now q" for q
      using dev_safe_store [OF d2 peer_safe_later [OF that now_le_fin [OF v]]] .
    show ?thesis
      using p sent asked d2 stored
      by (auto simp: iface_packet_def Ok Some p_def [symmetric] Let_def split: bool.split option.split prod.split)
  qed (use Ok d2 in \<open>simp add: iface_packet_def\<close>)
qed (use dev_safe_later [OF d now_le_fin [OF v]] dst_address_total [of src] in \<open>simp_all add: iface_packet_def\<close>)

lemma timer_peer_handled:
  assumes d: "dev_safe E ND m now d" and v: "env_ok now v" and m: "m + 148 \<le> MAX_UDP_SIZE" and r: "r < length (dv_arena d)"
  shows "handled E ND m (fin v) (Some (timer_peer C v d r))"
proof -
  define p where "p = dv_arena d ! r"
  have p: "peer_safe m now p" using dev_safeD(2) [OF d r] by (simp add: p_def)
  have d2: "dev_safe E ND m (fin v) (store_limiter d i rl)" for i rl using dev_safe_later [OF d now_le_fin [OF v]] by simp
  have ok: "tunn_ok m now (p_tunnel p)" using p by (simp add: peer_safe_def)
  have clk: "now \<le> ev_clk v 0" "mono (ev_clk v)" "os_shutdown (ev_os v)" using v by (simp_all add: env_ok_def env_adm_def)
  obtain rl t res where up: "update_timers C (dv_limiters d ! p_limiter p) (p_tunnel p) MAX_UDP_SIZE (ev_ephemeral v 0) (ev_clk v) = (rl, t, Ok res)"
    and t: "tunn_ok m (ev_clk v 7) t"
    using update_timers_settled [where clk = "ev_clk v" and e = "ev_ephemeral v 0" and rl = "dv_limiters d ! p_limiter p", OF ok m clk(1,2), of C]
    by (cases "update_timers C (dv_limiters d ! p_limiter p) (p_tunnel p) MAX_UDP_SIZE (ev_ephemeral v 0) (ev_clk v)") (auto simp: settled_def)
  have safe: "peer_safe m (fin v) (p\<lparr>p_tunnel := t\<rparr>)"
    using p tunn_ok_later [OF t clk_between(2) [OF v, of 7]] by (simp add: peer_safe_def)
  have closed: "\<exists>q. shutdown_endpoint (ev_os v) (p\<lparr>p_tunnel := t\<rparr>) = Ok q \<and> peer_safe m (fin v) q"
    using safe clk(3) by (auto simp: shutdown_endpoint_def peer_safe_def)
  show ?thesis
  proof (cases "ep_addr (p_endpoint p)")
    case None
    then show ?thesis using dev_safe_later [OF d now_le_fin [OF v]] by (simp add: timer_peer_def p_def [symmetric] Let_def)
  next
    case (Some addr)
    then show ?thesis
      using update_timers_outward [where clk = "ev_clk v", OF up] safe closed dev_safe_store [OF d2]
      by (auto simp: timer_peer_def p_def [symmetric] Let_def up outward_def split: tunn_result.splits wireguard_error.splits)
  qed
qed

section \<open>Handlers\<close>

fun chain :: "('x \<Rightarrow> bool) \<Rightarrow> nat \<Rightarrow> (env \<times> 'x) list \<Rightarrow> bool" where
  "chain P now [] \<longleftrightarrow> True"
| "chain P now ((v, x) # xs) \<longleftrightarrow> env_ok now v \<and> P x \<and> chain P (fin v) xs"

lemma shift_env_ok: "env_adm v \<Longrightarrow> env_ok now (shift now v)"
  by (simp add: env_ok_def env_adm_def shift_def mono_def)

lemma chain_shift: "(\<forall>(v, x) \<in> set xs. env_adm v \<and> P x) \<Longrightarrow> chain P now (shift_all now xs)"
  by (induction now xs rule: shift_all.induct) (auto simp: shift_env_ok)

lemma chain_later: "chain P now xs \<Longrightarrow> now \<le> last_reading now xs"
  by (induction now xs rule: last_reading.induct) (auto dest: now_le_fin)

lemma handled_later: "handled E ND m now out \<Longrightarrow> now \<le> now' \<Longrightarrow> handled E ND m now' out"
  by (auto simp: handled_def intro: dev_safe_later)

lemma handledE:
  assumes "handled E ND m now out"
  obtains d x where "out = Some (Ok (d, x))" "dev_safe E ND m now d"
  using assms by (auto simp: handled_def)

lemma udp_loop_handled:
  assumes C: "aead_correct C" and E: "eth_correct E" and m: "480 \<le> m" "m + 148 \<le> MAX_UDP_SIZE"
  shows "dev_safe E ND m now d \<Longrightarrow> chain (\<lambda>(_, packet). regular_datagram packet) now xs
    \<Longrightarrow> handled E ND m (last_reading now xs) (udp_loop C E NP sk pk limiter iter d xs)"
proof (induction xs arbitrary: now d iter)
  case (Cons x xs)
  obtain v addr packet where x: "x = (v, addr, packet)" by (cases x)
  have v: "env_ok now v" "regular_datagram packet" and rest: "chain (\<lambda>(_, packet). regular_datagram packet) (fin v) xs"
    using Cons.prems(2) by (simp_all add: x)
  obtain d' y where one: "udp_packet C E NP sk pk limiter v d addr packet = Some (Ok (d', y))" "dev_safe E ND m (fin v) d'"
    by (rule handledE [OF udp_packet_handled [OF C E Cons.prems(1) v(1) m v(2)]])
  obtain fx counted where y: "y = (fx, counted)" by (cases y)
  obtain d'' z where more: "udp_loop C E NP sk pk limiter (if counted then iter - 1 else iter) d' xs = Some (Ok (d'', z))"
      "dev_safe E ND m (last_reading (fin v) xs) d''"
    by (rule handledE [OF Cons.IH [OF one(2) rest]])
  show ?case
    using one more dev_safe_later [OF one(2) chain_later [OF rest]] by (auto simp: x y then_do_def Let_def split: prod.split)
qed simp

lemma conn_loop_handled:
  assumes C: "aead_correct C" and E: "eth_correct E" and m: "480 \<le> m" "m + 148 \<le> MAX_UDP_SIZE"
  shows "dev_safe E ND m now d \<Longrightarrow> r < length (dv_arena d) \<Longrightarrow> ep_addr (p_endpoint (dv_arena d ! r)) \<noteq> None
    \<Longrightarrow> chain regular_datagram now xs
    \<Longrightarrow> handled E ND m (last_reading now xs) (conn_loop C E NP r ip iter d xs)"
proof (induction xs arbitrary: now d iter)
  case (Cons x xs)
  obtain v packet where x: "x = (v, packet)" by (cases x)
  obtain addr where addr: "ep_addr (p_endpoint (dv_arena d ! r)) = Some addr" using Cons.prems(3) by blast
  have v: "env_ok now v" "regular_datagram packet" and rest: "chain regular_datagram (fin v) xs"
    using Cons.prems(4) by (simp_all add: x)
  obtain d' y where one: "conn_packet C E NP r ip v d packet = Some (Ok (d', y))" "dev_safe E ND m (fin v) d'"
    by (rule handledE [OF conn_packet_handled [OF C E Cons.prems(1) v(1) m v(2) Cons.prems(2) addr]])
  obtain fx counted where y: "y = (fx, counted)" by (cases y)
  have keeps: "length (dv_arena d') = length (dv_arena d)" "ep_addr (p_endpoint (dv_arena d' ! r)) = Some addr"
    using conn_packet_keeps [OF one(1) Cons.prems(2)] addr by simp_all
  obtain d'' z where more: "conn_loop C E NP r ip (if counted then iter - 1 else iter) d' xs = Some (Ok (d'', z))"
      "dev_safe E ND m (last_reading (fin v) xs) d''"
    using handledE [OF Cons.IH [OF one(2) _ _ rest]] keeps Cons.prems(2) by (metis option.distinct(1))
  show ?case
    using one more dev_safe_later [OF one(2) chain_later [OF rest]] by (auto simp: x y then_do_def Let_def split: prod.split)
qed simp

lemma iface_loop_handled:
  assumes E: "eth_correct E" and m: "480 \<le> m" "m + 148 \<le> MAX_UDP_SIZE"
  shows "dev_safe E ND m now d \<Longrightarrow> chain (\<lambda>src. length src \<le> m) now xs
    \<Longrightarrow> handled E ND m (last_reading now xs) (Some (iface_loop C NP ND iter d xs))"
proof (induction xs arbitrary: now d iter)
  case (Cons x xs)
  obtain v src where x: "x = (v, src)" by (cases x)
  have v: "env_ok now v" "length src \<le> m" and rest: "chain (\<lambda>src. length src \<le> m) (fin v) xs"
    using Cons.prems(2) by (simp_all add: x)
  obtain d' fx where one: "iface_packet C NP ND v d src = Ok (d', fx)" "dev_safe E ND m (fin v) d'"
    using handledE [OF iface_packet_handled [OF E Cons.prems(1) v(1) m v(2), of C NP]] by blast
  show ?case
  proof (cases iter)
    case 0
    then show ?thesis
      using dev_safe_later [OF Cons.prems(1) chain_later [OF Cons.prems(2)]] by simp
  next
    case (Suc k)
    obtain d'' z where "iface_loop C NP ND k d' xs = Ok (d'', z)" "dev_safe E ND m (last_reading (fin v) xs) d''"
      using handledE [OF Cons.IH [OF one(2) rest, of k]] by blast
    then show ?thesis using one by (auto simp: x Suc split: prod.split)
  qed
qed simp

lemma timer_loop_handled:
  assumes m: "m + 148 \<le> MAX_UDP_SIZE" and vs: "\<And>j. env_adm (vs j)" "\<And>j. fin (vs j) \<le> ev_clk (vs (Suc j)) 0"
  shows "dev_safe E ND m (ev_clk (vs j) 0) d \<Longrightarrow> \<forall>r \<in> set rs. r < length (dv_arena d)
    \<Longrightarrow> handled E ND m (ev_clk (vs (j + length rs)) 0) (Some (timer_loop C vs j d rs))"
proof (induction rs arbitrary: d j)
  case (Cons r rs)
  have v: "env_ok (ev_clk (vs j) 0) (vs j)" using vs(1) by (simp add: env_ok_def)
  obtain d' fx where one: "timer_peer C (vs j) d r = Ok (d', fx)" "dev_safe E ND m (fin (vs j)) d'"
    using handledE [OF timer_peer_handled [OF Cons.prems(1) v m, of r C]] Cons.prems(2) by auto
  have next_ok: "dev_safe E ND m (ev_clk (vs (Suc j)) 0) d'" using dev_safe_later [OF one(2) vs(2)] .
  have "length (dv_arena d') = length (dv_arena d)" using timer_peer_keeps [OF one(1)] .
  then have "\<forall>r \<in> set rs. r < length (dv_arena d')" using Cons.prems(2) by simp
  from handledE [OF Cons.IH [OF next_ok this]] obtain d'' fx' where
    "timer_loop C vs (Suc j) d' rs = Ok (d'', fx')" "dev_safe E ND m (ev_clk (vs (Suc j + length rs)) 0) d''" by blast
  then show ?case using one by simp
qed simp

section \<open>Runs of the device\<close>

lemma MAX_INNER_fits: "480 \<le> MAX_INNER" "MAX_INNER + 148 \<le> MAX_UDP_SIZE"
  by (simp_all add: MAX_INNER_def MAX_UDP_SIZE_def)

lemma dev_reply_safe:
  "aead_correct C \<Longrightarrow> eth_correct E \<Longrightarrow> handled E ND MAX_INNER now out
   \<Longrightarrow> state_safe C E ND (fst (dev_reply s now out)) \<and> snd (dev_reply s now out) \<noteq> None"
  by (auto simp: handled_def dev_reply_def split: prod.split)

lemma dev_step_safe:
  assumes safe: "state_safe C E ND s" and adm: "dev_adm x"
  shows "state_safe C E ND (fst (dev_step C E NP ND s x)) \<and> snd (dev_step C E NP ND s x) \<noteq> None"
proof -
  obtain now d where s: "s = (now, d)" by (cases s)
  have C: "aead_correct C" and E: "eth_correct E" and d: "dev_safe E ND MAX_INNER now d" using safe by (simp_all add: s)
  note fits = MAX_INNER_fits
  have refs: "\<forall>r \<in> set (map snd (dv_peers d)). r < length (dv_arena d)" "dv_udp d" using d by (auto simp: dev_safe_def)
  show ?thesis
  proof (cases x)
    case (Datagrams xs)
    have chain: "chain (\<lambda>(_, packet). regular_datagram packet) now (shift_all now xs)"
      by (rule chain_shift) (use adm Datagrams in auto)
    obtain sk pk limiter where "dv_key_pair d = Some (sk, pk)" "dv_rate_limiter d = Some limiter" using d by (auto simp: dev_safe_def)
    then have "handled E ND MAX_INNER (last_reading now (shift_all now xs)) (udp_handler C E NP d (shift_all now xs))"
      using udp_loop_handled [OF C E fits d chain] by (simp add: udp_handler_def)
    from dev_reply_safe [OF C E this, of "(now, d)"] show ?thesis by (simp add: s Datagrams Let_def)
  next
    case (ConnDatagrams r ip xs)
    have chain: "chain regular_datagram now (shift_all now xs)"
      by (rule chain_shift) (use adm ConnDatagrams in auto)
    show ?thesis
    proof (cases "r < length (dv_arena d) \<and> ep_addr (p_endpoint (dv_arena d ! r)) \<noteq> None")
      case True
      then have "handled E ND MAX_INNER (last_reading now (shift_all now xs)) (conn_handler C E NP r ip d (shift_all now xs))"
        using conn_loop_handled [OF C E fits d _ _ chain] by (simp add: conn_handler_def)
      from dev_reply_safe [OF C E this, of "(now, d)"] show ?thesis using True by (simp add: s ConnDatagrams Let_def)
    qed (use safe in \<open>auto simp: s ConnDatagrams Let_def\<close>)
  next
    case (InterfacePackets xs)
    have chain: "chain (\<lambda>src. length src \<le> MAX_INNER) now (shift_all now xs)"
      by (rule chain_shift) (use adm InterfacePackets in auto)
    then have "handled E ND MAX_INNER (last_reading now (shift_all now xs)) (Some (iface_handler C NP ND d (shift_all now xs)))"
      using iface_loop_handled [OF E fits d chain, of C NP MAX_ITR] refs(2) by (simp add: iface_handler_def)
    from dev_reply_safe [OF C E this, of "(now, d)"] show ?thesis by (simp add: s InterfacePackets Let_def)
  next
    case (PeerTimers vs)
    let ?vs = "\<lambda>j. shift now (vs j)"
    have vs: "env_adm (?vs j)" "fin (?vs j) \<le> ev_clk (?vs (Suc j)) 0" for j
      using adm by (auto simp: PeerTimers shift_def env_adm_def fin_def mono_def)
    have "dev_safe E ND MAX_INNER (ev_clk (?vs 0) 0) d" by (rule dev_safe_later [OF d]) (simp add: shift_def)
    then have "handled E ND MAX_INNER (ev_clk (?vs (length (dv_peers d))) 0) (Some (timer_loop C ?vs 0 d (map snd (dv_peers d))))"
      using timer_loop_handled [where vs = ?vs and j = 0, OF fits(2) vs _ refs(1)] by simp
    then have "handled E ND MAX_INNER (ev_clk (?vs (length (dv_peers d))) 0)
        (Some (rbind (timer_handler C ?vs d) (\<lambda>(d, fx). Ok (d, fx, ()))))"
      using refs(2) by (auto simp: timer_handler_def handled_def)
    from dev_reply_safe [OF C E this, of "(now, d)"] show ?thesis by (simp add: s PeerTimers Let_def)
  next
    case (LimiterTimer n)
    then show ?thesis using C E d by (simp add: s limiter_tick_def split: option.split)
  qed
qed

interpretation device_machine: safe_machine "dev_step C E NP ND" dev_adm "state_safe C E ND" "\<lambda>r. r \<noteq> None"
  for C E and NP :: "(unit, 'a) net_table" and ND :: "(nat, 'b) net_table"
  by unfold_locales (use dev_step_safe in blast)+

section \<open>Configured devices\<close>

text \<open>What configuration calls keep besides the consistency of the tables.\<close>

definition arena_refs :: "('a, 'b) device \<Rightarrow> nat set" where
  "arena_refs d = snd ` set (dv_peers d) \<union> snd ` set (dv_by_idx d)"

definition prepared :: "eth_crypto \<Rightarrow> nat \<Rightarrow> nat \<Rightarrow> payment_config \<Rightarrow> ('a, 'b) device \<Rightarrow> bool" where
  "prepared E m now cfg d \<longleftrightarrow> dv_config d = cfg \<and> (\<forall>w. dv_wallet d = Some w \<longrightarrow> wf_wallet E w)
     \<and> (dv_key_pair d \<noteq> None \<longrightarrow> dv_rate_limiter d \<noteq> None) \<and> (\<forall>p \<in> set (dv_arena d). peer_safe m now p)
     \<and> arena_refs d \<subseteq> {..< length (dv_arena d)}"

lemma set_alist_update: "snd ` set (AList.update k v xs) \<subseteq> insert v (snd ` set xs)"
  by (induction xs) auto

lemma set_alist_delete: "snd ` set (AList.delete k xs) \<subseteq> snd ` set xs"
  by (auto simp: AList.delete_eq)

lemma shutdown_endpoint_safe: "shutdown_endpoint os p = Ok q \<Longrightarrow> peer_safe m now p \<Longrightarrow> peer_safe m now q"
  by (auto simp: shutdown_endpoint_def peer_safe_def split: if_splits)

lemma set_update_all: "\<forall>p \<in> set xs. P p \<Longrightarrow> (P (xs ! r) \<Longrightarrow> P q) \<Longrightarrow> \<forall>p \<in> set (xs[r := q]). P p"
  by (cases "r < length xs") (auto simp: list_update_beyond dest: set_update_subset_insert [THEN subsetD])

lemma shutdown_all_safe:
  "shutdown_all os rs arena = Ok arena' \<Longrightarrow> \<forall>p \<in> set arena. peer_safe m now p
   \<Longrightarrow> (\<forall>p \<in> set arena'. peer_safe m now p) \<and> length arena' = length arena"
proof (induction rs arbitrary: arena)
  case (Cons r rs)
  then obtain p where p: "shutdown_endpoint os (arena ! r) = Ok p" "shutdown_all os rs (arena[r := p]) = Ok arena'"
    by (auto simp: rbind_eq_Ok)
  have "\<forall>q \<in> set (arena[r := p]). peer_safe m now q"
    by (rule set_update_all [OF Cons.prems(2)]) (rule shutdown_endpoint_safe [OF p(1)])
  then show ?case using Cons.IH [OF p(2)] by simp
qed simp

lemma set_static_private_ok:
  "tunn_set_static_private C t sk pk rlo a b clk = Ok (t', rl) \<Longrightarrow> tunn_ok m now t \<Longrightarrow> tunn_ok m now t'"
  by (auto simp: tunn_set_static_private_def Let_def rbind_eq_Ok tunn_ok_def sessions_ok_def session_ok_def timers_ok_def)

lemma rekey_all_safe:
  "rekey_all C sk pk lim rl rs arena = Ok arena' \<Longrightarrow> \<forall>p \<in> set arena. peer_safe m now p
   \<Longrightarrow> (\<forall>p \<in> set arena'. peer_safe m now p) \<and> length arena' = length arena"
proof (induction rs arbitrary: arena)
  case (Cons r rs)
  then obtain t rl' where p: "tunn_set_static_private C (p_tunnel (arena ! r)) sk pk (Some rl) [] [] (\<lambda>_. 0) = Ok (t, rl')"
    "rekey_all C sk pk lim rl rs (arena[r := (arena ! r)\<lparr>p_tunnel := t, p_limiter := lim\<rparr>]) = Ok arena'"
    by (cases "tunn_set_static_private C (p_tunnel (arena ! r)) sk pk (Some rl) [] [] (\<lambda>_. 0)") auto
  have "\<forall>q \<in> set (arena[r := (arena ! r)\<lparr>p_tunnel := t, p_limiter := lim\<rparr>]). peer_safe m now q"
    by (rule set_update_all [OF Cons.prems(2)]) (simp add: peer_safe_def set_static_private_ok [OF p(1)])
  then show ?case using Cons.IH [OF p(2)] by simp
qed simp

lemma remove_peer_prepared:
  assumes "prepared E m now cfg d" and "remove_peer ND os d k = Ok d'"
  shows "prepared E m now cfg d'"
proof (cases "map_of (dv_peers d) k")
  case (Some r)
  then obtain p where p: "shutdown_endpoint os (dv_arena d ! r) = Ok p"
    and d': "dv_peers d' = AList.delete k (dv_peers d)" "dv_by_idx d' = AList.delete (p_index p) (dv_by_idx d)"
      "dv_arena d' = (dv_arena d)[r := p]" "dv_config d' = dv_config d" "dv_wallet d' = dv_wallet d"
      "dv_key_pair d' = dv_key_pair d" "dv_rate_limiter d' = dv_rate_limiter d"
    using assms(2) by (auto simp: remove_peer_def rbind_eq_Ok Let_def)
  have "\<forall>q \<in> set ((dv_arena d)[r := p]). peer_safe m now q"
    by (rule set_update_all) (use assms(1) in \<open>auto simp: prepared_def intro: shutdown_endpoint_safe [OF p]\<close>)
  moreover have "arena_refs d' \<subseteq> arena_refs d" unfolding arena_refs_def d' by (intro Un_mono set_alist_delete)
  ultimately show ?thesis using assms(1) by (auto simp: prepared_def d')
qed (use assms in \<open>auto simp: remove_peer_def\<close>)

lemma mgmt_prepared:
  assumes pre: "prepared E m now cfg d" and step: "mgmt C E NP ND d x = Ok d'"
  shows "prepared E m now cfg d'"
proof (cases x)
  case (UpdatePeer os pk rm rp addr ips ka psk rs rk st clk)
  show ?thesis
  proof (cases rm)
    case True
    then have "remove_peer ND os d pk = Ok d'" using step UpdatePeer by (simp add: update_peer_def)
    then show ?thesis using remove_peer_prepared [OF pre] by blast
  next
    case False
    then have up: "update_peer C NP ND os d pk False rp addr ips ka psk rs rk st clk = Ok d'" using step UpdatePeer by simp
    show ?thesis
    proof (rule update_peer_Ok [OF up], goal_cases)
      case (1 l idx sk pub t rl p tp tn)
      have "tunn_ok m now t" using tunn_ok_new [of m now C sk pk psk ka idx None rs rk st clk] by (simp add: 1(4))
      then have "peer_safe m now p" by (simp add: peer_safe_def 1(7))
      moreover have "arena_refs d' \<subseteq> insert (length (dv_arena d)) (arena_refs d)"
        using set_alist_update [of pk "length (dv_arena d)" "dv_peers d"] set_alist_update [of idx "length (dv_arena d)" "dv_by_idx d"]
        by (auto simp: arena_refs_def 1(8))
      ultimately show ?case using pre by (auto simp: prepared_def 1(8) simp del: split_paired_Ex)
    qed
  qed
next
  case (SetKey T sk rs rk clk nonce unix)
  then obtain reqs where key: "set_key C E T d sk rs rk clk nonce unix = Ok (d', reqs)" using step by (auto simp: rbind_eq_Ok)
  show ?thesis
  proof (cases "Some (pubkey C sk) = map_option snd (dv_key_pair d)")
    case True
    then show ?thesis using key pre by (simp add: set_key_def)
  next
    case False
    then obtain rl arena w where new: "rekey_all C sk (pubkey C sk) (length (dv_limiters d)) rl (map snd (dv_peers d)) (dv_arena d) = Ok arena"
      "from_wireguard_key E sk = Ok w" "dv_arena d' = arena" "dv_wallet d' = Some w" "dv_config d' = dv_config d" "dv_rate_limiter d' \<noteq> None"
      "arena_refs d' = arena_refs d"
      using key by (auto simp: set_key_def Let_def rbind_eq_Ok arena_refs_def split: if_splits prod.splits rust.splits)
    have "(\<forall>p \<in> set arena. peer_safe m now p) \<and> length arena = length (dv_arena d)"
      using pre by (intro rekey_all_safe [OF new(1)]) (simp add: prepared_def)
    then show ?thesis using pre from_wireguard_key_wf [OF new(2)] by (simp add: prepared_def new)
  qed
next
  case (OpenListenSocket os port)
  show ?thesis
  proof (cases "shutdown_all os (map snd (dv_peers d)) (dv_arena d)")
    case (Ok arena)
    have "(\<forall>p \<in> set arena. peer_safe m now p) \<and> length arena = length (dv_arena d)"
      using pre by (intro shutdown_all_safe [OF Ok]) (simp add: prepared_def)
    moreover have "d' = d\<lparr>dv_arena := arena, dv_udp := False\<rparr>
        \<or> (\<exists>port. d' = d\<lparr>dv_arena := arena, dv_udp := True, dv_listen_port := port\<rparr>)"
      using step Ok OpenListenSocket by (cases "os_bind os port") (auto simp: open_listen_socket_def)
    ultimately show ?thesis using pre by (elim disjE exE) (simp_all add: prepared_def arena_refs_def)
  qed (use step OpenListenSocket pre in \<open>auto simp: open_listen_socket_def\<close>)
qed (use step pre in \<open>auto simp: prepared_def clear_peers_def arena_refs_def\<close>)

definition prepared_inv :: "eth_crypto \<Rightarrow> nat \<Rightarrow> nat \<Rightarrow> payment_config \<Rightarrow> (unit, ('a, 'b) device) rust \<Rightarrow> bool" where
  "prepared_inv E m now cfg s \<longleftrightarrow> (\<forall>d. s = Ok d \<longrightarrow> prepared E m now cfg d)"

interpretation config_machine: invariant_machine "mgmt_step C E NP ND" "\<lambda>_. True" "prepared_inv E m now cfg"
  for C E and NP :: "(unit, 'a) net_table" and ND :: "(nat, 'b) net_table" and m now cfg
  by unfold_locales (auto simp: prepared_inv_def mgmt_step_def rbind_eq_Ok dest: mgmt_prepared)

lemma configured:
  assumes tab: "tables_ok NP ND EP ED contains trunc" and lfsr: "lfsr_default rnd = Some (l, rnd')"
    and conf: "fst (run (mgmt_step C E NP ND) (Ok (device_new ND l uc mtu cfg)) config) = Ok d"
  shows "prepared E m now cfg d" and "\<forall>a r. allowed_find ND (dv_by_ip d) a = Some r \<longrightarrow> r < length (dv_arena d)"
proof -
  obtain n where ok: "dev_ok EP ED n d" using mgmt_run_ok [OF tab lfsr conf] by blast
  have "prepared_inv E m now cfg (Ok (device_new ND l uc mtu cfg))"
    by (simp add: prepared_inv_def prepared_def device_new_def arena_refs_def)
  then show "prepared E m now cfg d"
    using config_machine.inv_run [of E m now cfg "Ok (device_new ND l uc mtu cfg)" config C NP ND] conf
    by (simp add: prepared_inv_def list_all_iff)
  have "r < length (dv_arena d)" if found: "allowed_find ND (dv_by_ip d) a = Some r" for a r
  proof -
    have nd: "net_table_ok ND ED contains trunc" using tab by (simp add: tables_ok_def)
    obtain net where "ED (dv_by_ip d) net = Some r" by (rule find_entry [OF nd found])
    then show ?thesis using dev_okD(2,4) [OF ok] by blast
  qed
  then show "\<forall>a r. allowed_find ND (dv_by_ip d) a = Some r \<longrightarrow> r < length (dv_arena d)" by blast
qed

lemma configured_serves:
  assumes "tables_ok NP ND EP ED contains trunc" and "lfsr_default rnd = Some (l, rnd')"
    and "fst (run (mgmt_step C E NP ND) (Ok (device_new ND l uc mtu cfg)) config) = Ok d"
    and "dv_key_pair d \<noteq> None" and "dv_udp d" and "length (cfg_usdc_contract cfg) = 20"
  shows "dev_safe E ND m now d"
  using configured(1) [OF assms(1-3), where m = m and now = now] configured(2) [OF assms(1-3)] assms(4-6) by (auto simp: dev_safe_def prepared_def payment_ok_def arena_refs_def)



end
