(* ===== verification/Device_Metering.thy ===== *)
theory Device_Metering
  imports Device_Safety
begin

text \<open>
  What a server forwards is paid for. The bytes written to the interface in any run of a server are bounded by the
  free allowances of its peers and the payments it accepted: authorizations signed by their payers, made out to
  the server, of at least the price, settled when a settlement service is configured, and none counted
  twice for one peer.
\<close>

section \<open>Definitions\<close>

definition written :: "effect list \<Rightarrow> nat" where
  "written fx = (\<Sum>e \<leftarrow> fx. case e of WriteTun packet \<Rightarrow> length packet | _ \<Rightarrow> 0)"

definition allowance :: "'a peer \<Rightarrow> nat" where
  "allowance p = (case p_quota p of None \<Rightarrow> 0 | Some q \<Rightarrow> unat (remaining_bytes q))"

definition nonces :: "'a peer \<Rightarrow> bytes set" where
  "nonces p = (case p_quota p of None \<Rightarrow> {} | Some q \<Rightarrow> used_nonces q)"

text \<open>A payment the server may accept. \<open>S\<close> holds of the requests that the settlement service has settled.\<close>

definition valid_payment :: "eth_crypto \<Rightarrow> (settle_request \<Rightarrow> bool) \<Rightarrow> ('a, 'b) device \<Rightarrow> payment_submit \<Rightarrow> bool" where
  "valid_payment E S d submit \<longleftrightarrow>
     (\<exists>wallet. dv_wallet d = Some wallet \<and> ps_to submit = ethereum_address wallet
        \<and> (dv_settlement d \<noteq> None \<longrightarrow> S (build_settle_request E (dv_config d) submit (ethereum_address wallet))))
     \<and> amount_per_quota (dv_config d) \<le> ps_value submit
     \<and> verify_authorization E (gateway_domain (dv_config d)) (submit_authorization submit) = Some (ps_from submit)"

definition env_honest :: "(settle_request \<Rightarrow> bool) \<Rightarrow> env \<Rightarrow> bool" where
  "env_honest S v \<longleftrightarrow> (\<forall>request resp. ev_settle v request = Ok resp \<and> rs_success resp \<longrightarrow> S request)"

text \<open>One peer over a packet: what was written is covered by what left its allowance and by payments with
  nonces the peer had not used.\<close>

definition pays_for ::
    "eth_crypto \<Rightarrow> (settle_request \<Rightarrow> bool) \<Rightarrow> ('a, 'b) device \<Rightarrow> 'a peer \<Rightarrow> effect list \<Rightarrow> 'a peer \<Rightarrow> payment_submit list \<Rightarrow> bool" where
  "pays_for E S d p fx p' paid \<longleftrightarrow>
     p_quota p' \<noteq> None \<and> nonces p \<subseteq> nonces p' \<and> distinct (map ps_nonce paid)
     \<and> (\<forall>submit \<in> set paid. valid_payment E S d submit \<and> ps_nonce submit \<in> nonces p' - nonces p)
     \<and> allowance p' + written fx \<le> allowance p + unat (quota_bytes (dv_config d)) * length paid"

text \<open>A device over a packet, a handler call or a run.\<close>

definition balance :: "('a, 'b) device \<Rightarrow> nat" where
  "balance d = (\<Sum>p \<leftarrow> dv_arena d. allowance p)"

definition live :: "(nat, 'b) net_table \<Rightarrow> ('a, 'b) device \<Rightarrow> bool" where
  "live ND d \<longleftrightarrow> is_server (dv_config d) \<and> (\<forall>p \<in> set (dv_arena d). p_quota p \<noteq> None)
     \<and> arena_refs d \<subseteq> {..< length (dv_arena d)}
     \<and> (\<forall>a r. allowed_find ND (dv_by_ip d) a = Some r \<longrightarrow> r < length (dv_arena d))"

definition same_tables :: "('a, 'b) device \<Rightarrow> ('a, 'b) device \<Rightarrow> bool" where
  "same_tables d d' \<longleftrightarrow> dv_config d' = dv_config d \<and> dv_wallet d' = dv_wallet d \<and> dv_settlement d' = dv_settlement d
     \<and> dv_peers d' = dv_peers d \<and> dv_by_idx d' = dv_by_idx d \<and> dv_by_ip d' = dv_by_ip d
     \<and> length (dv_arena d') = length (dv_arena d)"

definition covered ::
    "eth_crypto \<Rightarrow> (settle_request \<Rightarrow> bool) \<Rightarrow> (nat, 'b) net_table \<Rightarrow> ('a, 'b) device \<Rightarrow> effect list \<Rightarrow> ('a, 'b) device
     \<Rightarrow> (nat \<times> payment_submit) list \<Rightarrow> bool" where
  "covered E S ND d fx d' paid \<longleftrightarrow> live ND d' \<and> same_tables d d'
     \<and> (\<forall>r < length (dv_arena d). nonces (dv_arena d ! r) \<subseteq> nonces (dv_arena d' ! r))
     \<and> distinct (map (\<lambda>(r, submit). (r, ps_nonce submit)) paid)
     \<and> (\<forall>(r, submit) \<in> set paid. r < length (dv_arena d) \<and> valid_payment E S d submit
          \<and> ps_nonce submit \<in> nonces (dv_arena d' ! r) - nonces (dv_arena d ! r))
     \<and> balance d' + written fx \<le> balance d + unat (quota_bytes (dv_config d)) * length paid"

fun dev_honest :: "(settle_request \<Rightarrow> bool) \<Rightarrow> dev_event \<Rightarrow> bool" where
  "dev_honest S (Datagrams xs) \<longleftrightarrow> list_all (\<lambda>(v, _). env_honest S v) xs"
| "dev_honest S (ConnDatagrams r ip xs) \<longleftrightarrow> list_all (\<lambda>(v, _). env_honest S v) xs"
| "dev_honest S _ \<longleftrightarrow> True"

definition all_effects :: "effect list option list \<Rightarrow> effect list" where
  "all_effects rs = concat (map (\<lambda>r. case r of None \<Rightarrow> [] | Some fx \<Rightarrow> fx) rs)"

text \<open>Configured peers have their free allowance.\<close>

definition unspent :: "(unit, ('a, 'b) device) rust \<Rightarrow> bool" where
  "unspent s \<longleftrightarrow> (\<forall>d. s = Ok d \<longrightarrow> (\<forall>p \<in> set (dv_arena d). p_quota p = Some (new_quota DEFAULT_QUOTA_BYTES)))"

section \<open>Configured devices\<close>

lemma shutdown_all_quota:
  "shutdown_all os rs arena = Ok arena' \<Longrightarrow> \<forall>p \<in> set arena. p_quota p = Q \<Longrightarrow> \<forall>p \<in> set arena'. p_quota p = Q"
proof (induction rs arbitrary: arena)
  case (Cons r rs)
  then obtain p where p: "shutdown_endpoint os (arena ! r) = Ok p" "shutdown_all os rs (arena[r := p]) = Ok arena'"
    by (auto simp: rbind_eq_Ok)
  have "\<forall>q \<in> set (arena[r := p]). p_quota q = Q"
    by (rule set_update_all [OF Cons.prems(2)]) (use p(1) in \<open>auto simp: shutdown_endpoint_def split: if_splits\<close>)
  then show ?case using Cons.IH [OF p(2)] by blast
qed simp

lemma rekey_all_quota:
  "rekey_all C sk pk lim rl rs arena = Ok arena' \<Longrightarrow> \<forall>p \<in> set arena. p_quota p = Q \<Longrightarrow> \<forall>p \<in> set arena'. p_quota p = Q"
proof (induction rs arbitrary: arena)
  case (Cons r rs)
  then obtain t where p: "rekey_all C sk pk lim rl rs (arena[r := (arena ! r)\<lparr>p_tunnel := t, p_limiter := lim\<rparr>]) = Ok arena'"
    by (auto simp: rbind_eq_Ok)
  have "\<forall>q \<in> set (arena[r := (arena ! r)\<lparr>p_tunnel := t, p_limiter := lim\<rparr>]). p_quota q = Q"
    by (rule set_update_all [OF Cons.prems(2)]) simp
  then show ?case using Cons.IH [OF p] by blast
qed simp

lemma mgmt_quota:
  assumes all: "\<forall>p \<in> set (dv_arena d). p_quota p = Some (new_quota DEFAULT_QUOTA_BYTES)" and step: "mgmt C E NP ND d x = Ok d'"
  shows "\<forall>p \<in> set (dv_arena d'). p_quota p = Some (new_quota DEFAULT_QUOTA_BYTES)"
proof (cases x)
  case (UpdatePeer os pk rm rp addr ips ka psk rs rk st clk)
  show ?thesis
  proof (cases rm)
    case True
    then have rem: "remove_peer ND os d pk = Ok d'" using step UpdatePeer by (simp add: update_peer_def)
    show ?thesis
    proof (cases "map_of (dv_peers d) pk")
      case (Some r)
      then obtain p where p: "shutdown_endpoint os (dv_arena d ! r) = Ok p" "dv_arena d' = (dv_arena d)[r := p]"
        using rem by (auto simp: remove_peer_def rbind_eq_Ok Let_def)
      show ?thesis unfolding p(2)
        by (rule set_update_all [OF all]) (use p(1) in \<open>auto simp: shutdown_endpoint_def split: if_splits\<close>)
    qed (use rem all in \<open>simp add: remove_peer_def\<close>)
  next
    case False
    then have up: "update_peer C NP ND os d pk False rp addr ips ka psk rs rk st clk = Ok d'" using step UpdatePeer by simp
    show ?thesis by (rule update_peer_Ok [OF up]) (use all in auto)
  qed
next
  case (SetKey T sk rs rk clk nonce unix)
  then obtain reqs where key: "set_key C E T d sk rs rk clk nonce unix = Ok (d', reqs)" using step by (auto simp: rbind_eq_Ok)
  then show ?thesis using all
    by (auto simp: set_key_def Let_def rbind_eq_Ok dest: rekey_all_quota split: if_splits prod.splits rust.splits)
next
  case (OpenListenSocket os port)
  show ?thesis
  proof (cases "shutdown_all os (map snd (dv_peers d)) (dv_arena d)")
    case (Ok arena)
    have "dv_arena d' = arena" using step Ok OpenListenSocket by (cases "os_bind os port") (auto simp: open_listen_socket_def)
    then show ?thesis using shutdown_all_quota [OF Ok all] by simp
  qed (use step OpenListenSocket all in \<open>auto simp: open_listen_socket_def\<close>)
qed (use step all in \<open>auto simp: clear_peers_def\<close>)

interpretation allowance_machine: invariant_machine "mgmt_step C E NP ND" "\<lambda>_. True" unspent
  for C E and NP :: "(unit, 'a) net_table" and ND :: "(nat, 'b) net_table"
  by unfold_locales (auto simp: unspent_def mgmt_step_def rbind_eq_Ok dest: mgmt_quota [rotated])

lemma configured_live:
  assumes tab: "tables_ok NP ND EP ED contains trunc" and lfsr: "lfsr_default rnd = Some (l, rnd')"
    and conf: "fst (run (mgmt_step C E NP ND) (Ok (device_new ND l uc mtu cfg)) config) = Ok d" and server: "is_server cfg"
  shows "live ND d" and "balance d = unat DEFAULT_QUOTA_BYTES * length (dv_arena d)" and "dv_config d = cfg"
proof -
  have "unspent (Ok (device_new ND l uc mtu cfg))" by (simp add: unspent_def device_new_def)
  then have quota: "\<forall>p \<in> set (dv_arena d). p_quota p = Some (new_quota DEFAULT_QUOTA_BYTES)"
    using allowance_machine.inv_run [of "Ok (device_new ND l uc mtu cfg)" config C E NP ND] conf by (simp add: unspent_def list_all_iff)
  note ready = configured(1) [OF tab lfsr conf, where m = 0 and now = 0] configured(2) [OF tab lfsr conf]
  show "dv_config d = cfg" using ready(1) by (simp add: prepared_def)
  show "live ND d" using quota ready server by (auto simp: live_def prepared_def)
  have "map allowance (dv_arena d) = map (\<lambda>_. unat DEFAULT_QUOTA_BYTES) (dv_arena d)" using quota by (simp add: allowance_def)
  then show "balance d = unat DEFAULT_QUOTA_BYTES * length (dv_arena d)" unfolding balance_def by (simp only: sum_list_triv) simp
qed

section \<open>One peer\<close>

lemma written_simps [simp]: "written [] = 0" "written (WriteTun b # fx) = length b + written fx" "written (SendTo a b # fx) = written fx"
    "written (SendConn r b # fx) = written fx" "written (RegisterConn r ip # fx) = written fx" "written (fx @ fx') = written fx + written fx'"
  by (simp_all add: written_def)

lemma written_sent [simp]: "written (map (SendTo addr) bs) = 0" "written (map (SendConn r) bs) = 0"
  by (induction bs) simp_all

lemma pays_same: "p_quota p' = p_quota p \<Longrightarrow> p_quota p \<noteq> None \<Longrightarrow> written fx = 0 \<Longrightarrow> pays_for E S d p fx p' []"
  by (simp add: pays_for_def nonces_def allowance_def)

lemma pays_tunnel [simp]: "pays_for E S d (p\<lparr>p_tunnel := t\<rparr>) fx p' paid \<longleftrightarrow> pays_for E S d p fx p' paid"
  by (simp add: pays_for_def nonces_def allowance_def)

lemma pays_quota: "p_quota p2 = p_quota p1 \<Longrightarrow> pays_for E S d p fx p1 paid \<Longrightarrow> written fx' = written fx \<Longrightarrow> pays_for E S d p fx' p2 paid"
  by (simp add: pays_for_def nonces_def allowance_def)

lemma send_signal_quiet: "send_signal C v p packet addr = Ok (p', fx) \<Longrightarrow> p_quota p' = p_quota p \<and> written fx = 0"
  by (auto simp: send_signal_def split: prod.splits rust.splits tunn_result.splits)

lemma send_required_quiet: "send_payment_required C NP v d p addr = Ok (p', fx) \<Longrightarrow> p_quota p' = p_quota p \<and> written fx = 0"
  by (auto simp: send_payment_required_def Let_def rbind_eq_Ok dest: send_signal_quiet split: option.splits)

lemma send_accepted_quiet: "send_payment_accepted C NP v d p addr = Ok (p', fx) \<Longrightarrow> p_quota p' = p_quota p \<and> written fx = 0"
  by (auto simp: send_payment_accepted_def Let_def rbind_eq_Ok dest: send_signal_quiet split: option.splits)

lemma client_quiet: "handle_payment_signal_client C E NP v d p payload addr = Ok (p', fx) \<Longrightarrow> p_quota p' = p_quota p \<and> written fx = 0"
  by (auto simp: handle_payment_signal_client_def rbind_eq_Ok dest!: send_signal_quiet split: option.splits rust.splits if_splits)

text \<open>A submitted payment in full: nothing changes, or its nonce is recorded, or it is also accepted and credited.\<close>

lemma submit_cases:
  assumes "handle_payment_submit C E NP v d p payload addr = Ok (p', fx)" and q: "p_quota p = Some q"
  obtains (ignored) "p' = p" "fx = []"
  | (recorded) submit where "submit_decode payload = Ok submit" "p' = p\<lparr>p_quota := Some (fst (check_and_record_nonce q (ps_nonce submit)))\<rparr>" "fx = []"
  | (credited) wallet submit where "submit_decode payload = Ok submit" "dv_wallet d = Some wallet" "ps_to submit = ethereum_address wallet"
      "amount_per_quota (dv_config d) \<le> ps_value submit" "ps_nonce submit \<notin> used_nonces q"
      "verify_authorization E (gateway_domain (dv_config d)) (submit_authorization submit) = Some (ps_from submit)"
      "dv_settlement d \<noteq> None \<longrightarrow> (\<exists>resp. ev_settle v (build_settle_request E (dv_config d) submit (ethereum_address wallet)) = Ok resp \<and> rs_success resp)"
      "send_payment_accepted C NP v d (p\<lparr>p_quota := Some (credit (fst (check_and_record_nonce q (ps_nonce submit))) (quota_bytes (dv_config d)))\<rparr>) addr = Ok (p', fx)"
proof (cases "dv_wallet d")
  case None
  then show thesis using assms ignored by (simp add: handle_payment_submit_def)
next
  case wallet: (Some wallet)
  show thesis
  proof (cases "submit_decode payload")
    case (Ok submit)
    show thesis
    proof (cases "ps_to submit \<noteq> ethereum_address wallet \<or> ps_value submit < amount_per_quota (dv_config d)")
      case True
      then show thesis using assms ignored wallet Ok by (simp add: handle_payment_submit_def split: if_splits)
    next
      case False
      then have "ps_to submit = ethereum_address wallet" "\<not> ps_value submit < amount_per_quota (dv_config d)"
        "amount_per_quota (dv_config d) \<le> ps_value submit" by auto
      note checks = assms wallet Ok this
      show thesis
      proof (cases "ps_nonce submit \<notin> used_nonces q
          \<and> verify_authorization E (gateway_domain (dv_config d)) (submit_authorization submit) = Some (ps_from submit)
          \<and> (dv_settlement d \<noteq> None \<longrightarrow> (\<exists>resp. ev_settle v (build_settle_request E (dv_config d) submit (ethereum_address wallet)) = Ok resp \<and> rs_success resp))")
        case True
        then show thesis using checks
          by (intro credited [of submit wallet]) (auto simp: handle_payment_submit_def check_and_record_nonce_def credit_peer_def Let_def split: option.splits)
      next
        case False
        then show thesis using checks
          by (intro recorded [of submit]) (auto simp: handle_payment_submit_def check_and_record_nonce_def Let_def split: option.splits rust.splits if_splits)
      qed
    qed
  qed (use assms wallet ignored in \<open>auto simp: handle_payment_submit_def\<close>)
qed

lemma submit_pays:
  assumes res: "handle_payment_submit C E NP v d p payload addr = Ok (p', fx)" and q: "p_quota p = Some q" and S: "env_honest S v"
  shows "\<exists>paid. pays_for E S d p fx p' paid"
  using res q
proof (cases rule: submit_cases)
  case ignored
  then show ?thesis using q by (metis pays_same option.distinct(1) written_simps(1))
next
  case (recorded submit)
  then have "pays_for E S d p fx p' []" by (auto simp: pays_for_def nonces_def allowance_def q check_and_record_nonce_def)
  then show ?thesis ..
next
  case (credited wallet submit)
  let ?p = "p\<lparr>p_quota := Some (credit (fst (check_and_record_nonce q (ps_nonce submit))) (quota_bytes (dv_config d)))\<rparr>"
  have "valid_payment E S d submit" using credited S by (auto simp: valid_payment_def env_honest_def)
  moreover have "unat (remaining_bytes q + quota_bytes (dv_config d)) \<le> unat (remaining_bytes q) + unat (quota_bytes (dv_config d))"
    by (simp add: unat_word_ariths)
  ultimately have "pays_for E S d p [] ?p [submit]" using credited(5)
    by (simp add: pays_for_def nonces_def allowance_def q check_and_record_nonce_def credit_def subset_insertI)
  then have "pays_for E S d p fx p' [submit]"
    by (rule pays_quota [rotated]) (simp_all add: send_accepted_quiet [OF credited(8)])
  then show ?thesis ..
qed

lemma signal_pays:
  assumes "payment_signal C E NP v d p packet reply_addr = Ok (p', fx)" and q: "p_quota p = Some q" and S: "env_honest S v"
  shows "\<exists>paid. pays_for E S d p fx p' paid"
proof -
  have "\<exists>paid. pays_for E S d p fx p' paid" if "p_quota p' = p_quota p \<and> written fx = 0"
    using pays_same [of p' p fx] q that by blast
  then show ?thesis
    using assms(1) submit_pays [OF _ q S, of C E NP d]
    by (auto simp: payment_signal_def with_addr_def dest!: client_quiet split: rust.splits option.splits if_splits)
qed

lemma consume_pays:
  assumes "p_quota p = Some q" and "consume q (of_nat (length packet)) = (q', enough)" and "length packet < 2 ^ 64"
  shows "pays_for E S d p (if enough then [WriteTun packet] else []) (p\<lparr>p_quota := Some q'\<rparr>) []"
proof -
  have "unat (of_nat (length packet) :: u64) = length packet" using assms(3) by (simp add: unat_of_nat take_bit_nat_def)
  then show ?thesis
    using assms quota_step_pays [of q "Consume (of_nat (length packet))"]
    by (cases enough) (auto simp: pays_for_def nonces_def allowance_def consume_def Let_def split: if_splits)
qed

lemma tunnel_v4_pays:
  assumes v4: "tunnel_v4 C E NP v d p packet src reply_addr = Ok (p', fx, skip)" and q: "p_quota p = Some q"
    and S: "env_honest S v" and server: "is_server (dv_config d)" and len: "length packet < 2 ^ 64"
  shows "\<exists>paid. pays_for E S d p fx p' paid"
proof (cases "is_payment_signal packet")
  case True
  then show ?thesis using v4 signal_pays [OF _ q S] by (auto simp: tunnel_v4_def rbind_eq_Ok)
next
  case False
  obtain q' enough where con: "consume q (of_nat (length packet)) = (q', enough)" by fastforce
  note pays = consume_pays [OF q con len, of E S d]
  have "pays_for E S d p fx p' []"
  proof (cases "is_allowed_ip NP p (V4 src) \<and> \<not> is_blocked q")
    case allowed: True
    show ?thesis
    proof (cases enough)
      case True
      then show ?thesis using v4 pays allowed False server con by (simp add: tunnel_v4_def q)
    next
      case no: False
      then obtain addr fx' where "send_payment_required C NP v d (p\<lparr>p_quota := Some q'\<rparr>) addr = Ok (p', fx')" "fx = fx'"
        using v4 allowed False server con by (auto simp: tunnel_v4_def q with_addr_def rbind_eq_Ok Let_def split: option.splits)
      then show ?thesis using send_required_quiet pays_quota [OF _ pays] no by fastforce
    qed
  next
    case no: False
    then have "p' = p" "fx = []" using v4 False server by (auto simp: tunnel_v4_def q split: if_splits)
    then show ?thesis using pays_same [of p p "[]"] q by simp
  qed
  then show ?thesis ..
qed

lemma tunnel_v6_pays:
  assumes v6: "tunnel_v6 NP d p packet src = (p', fx, skip)" and q: "p_quota p = Some q"
    and server: "is_server (dv_config d)" and len: "length packet < 2 ^ 64"
  shows "pays_for E S d p fx p' []"
proof -
  obtain q' enough where con: "consume q (of_nat (length packet)) = (q', enough)" by fastforce
  show ?thesis
    using v6 consume_pays [OF q con len, of E S d] server pays_same [of p p "[]" E S d]
    by (cases enough) (auto simp: tunnel_v6_def q con Let_def split: if_splits)
qed

text \<open>A packet for the interface is as long as its header says.\<close>

definition bounded_result :: "tunn_result \<Rightarrow> bool" where
  "bounded_result r \<longleftrightarrow> (case r of WriteToTunnelV4 b _ \<Rightarrow> length b < 2 ^ 64 | WriteToTunnelV6 b _ \<Rightarrow> length b < 2 ^ 64 | _ \<Rightarrow> True)"

lemma validate_bounded: "validate_decapsulated_packet t packet = (t', Ok r) \<Longrightarrow> bounded_result r"
proof -
  have "unat w + 40 < 2 ^ 64" "unat w < 2 ^ 64" for w :: u16
  proof -
    have "unat w < 2 ^ 16" by (rule order_less_le_trans [OF unsigned_less]) simp
    then show "unat w + 40 < 2 ^ 64" "unat w < 2 ^ 64" by simp_all
  qed
  then show "validate_decapsulated_packet t packet = (t', Ok r) \<Longrightarrow> bounded_result r"
    by (auto simp: validate_decapsulated_packet_def bounded_result_def Let_def range_def index_def rbind_eq_Ok rbind_eq_Err IPV6_MIN_HEADER_SIZE_def
        split: if_splits rust.splits ip_addr.splits prod.splits)
qed

lemma or_error_Ok: "or_error r = Ok x \<longleftrightarrow> r = Ok x \<or> (\<exists>e. r = Err e \<and> x = TErr e)"
  by (cases r) auto

lemma verified_bounded:
  assumes "handle_verified_packet C t packet n e now = Some (t', Ok r)"
  shows "bounded_result r"
proof (cases packet)
  case (PacketData p)
  then show ?thesis using assms
    by (auto simp: handle_verified_packet_def handle_data_def Let_def bounded_result_def [of "TErr x" for x] or_error_Ok
        dest: validate_bounded split: option.splits prod.splits rust.splits)
qed (use assms in \<open>auto simp: handle_verified_packet_def handle_handshake_init_def handle_handshake_response_def handle_cookie_reply_def
      or_error_Ok bounded_result_def Let_def split: option.splits prod.splits rust.splits\<close>)

lemma outward_bounded: "outward r \<Longrightarrow> bounded_result r"
  by (cases r) (simp_all add: outward_def bounded_result_def)

lemma send_queued_outward: "send_queued_packet C t n e clk = (t', Ok r) \<Longrightarrow> outward r"
  by (auto simp: send_queued_packet_def outward_def [of Done] dest: encapsulate_outward split: option.splits prod.splits rust.splits tunn_result.splits)

lemma decapsulate_bounded:
  assumes "decapsulate C rl t ip packet n e clk = Some (rl', t', Ok r)"
  shows "bounded_result r"
proof (cases "packet = []")
  case True
  then show ?thesis using assms by (auto simp: decapsulate_def intro: outward_bounded send_queued_outward)
next
  case False
  then show ?thesis using assms
    by (auto simp: decapsulate_def bounded_result_def [of "WriteToNetwork x" for x] bounded_result_def [of "TErr x" for x] dest: verified_bounded
        split: prod.splits rust.splits tunn_result.splits if_splits)
qed

section \<open>One packet of the device\<close>

lemma covered_quiet: "live ND d' \<Longrightarrow> same_tables d d' \<Longrightarrow> dv_arena d' = dv_arena d \<Longrightarrow> written fx = 0 \<Longrightarrow> covered E S ND d fx d' []"
  by (simp add: covered_def balance_def)

lemma same_tables_trans: "same_tables d d1 \<Longrightarrow> same_tables d1 d2 \<Longrightarrow> same_tables d d2"
  by (simp add: same_tables_def)

lemma valid_payment_same: "same_tables d d1 \<Longrightarrow> valid_payment E S d1 s \<longleftrightarrow> valid_payment E S d s"
  by (simp add: same_tables_def valid_payment_def)

lemma covered_trans:
  assumes a: "covered E S ND d fx d1 paid" and b: "covered E S ND d1 fx' d2 paid'"
  shows "covered E S ND d (fx @ fx') d2 (paid @ paid')"
proof -
  have tab: "same_tables d d1" using a by (simp add: covered_def)
  have disj: "x \<notin> set paid'" if "x \<in> set paid" "fst y = fst x" "ps_nonce (snd y) = ps_nonce (snd x)" "y \<in> set paid'" for x y
    using a b that by (fastforce simp: covered_def)
  have "(\<lambda>(r, s). (r, ps_nonce s)) ` set paid \<inter> (\<lambda>(r, s). (r, ps_nonce s)) ` set paid' = {}"
    using a b by (fastforce simp: covered_def)
  moreover have "r < length (dv_arena d) \<and> valid_payment E S d s \<and> ps_nonce s \<in> nonces (dv_arena d2 ! r) - nonces (dv_arena d ! r)"
    if "(r, s) \<in> set paid \<union> set paid'" for r s
    using a b that valid_payment_same [OF tab] tab by (fastforce simp: covered_def same_tables_def)
  moreover have "balance d2 + written (fx @ fx') \<le> balance d + unat (quota_bytes (dv_config d)) * length (paid @ paid')"
    using a b tab by (simp add: covered_def same_tables_def algebra_simps)
  moreover have "nonces (dv_arena d ! r) \<subseteq> nonces (dv_arena d2 ! r)" if "r < length (dv_arena d)" for r
    using a b tab that by (fastforce simp: covered_def same_tables_def)
  ultimately show ?thesis using a b same_tables_trans [OF tab] by (auto simp: covered_def)
qed

lemma covered_Nil: "live ND d \<Longrightarrow> covered E S ND d [] d []"
  by (rule covered_quiet) (simp_all add: same_tables_def)

lemma covered_idle: "live ND d \<Longrightarrow> \<exists>paid. covered E S ND d [] d paid"
  using covered_Nil by blast

lemma live_limiter [simp]: "live ND (store_limiter d i rl) \<longleftrightarrow> live ND d"
  by (simp add: live_def store_limiter_def arena_refs_def)

lemma covered_limiter [simp]: "covered E S ND (store_limiter d i rl) fx d' paid \<longleftrightarrow> covered E S ND d fx d' paid"
  by (simp add: covered_def store_limiter_def same_tables_def valid_payment_def balance_def)

lemma pays_limiter [simp]: "pays_for E S (store_limiter d i rl) p fx p' paid \<longleftrightarrow> pays_for E S d p fx p' paid"
  by (simp add: pays_for_def store_limiter_def valid_payment_def)

lemma live_quota: "live ND d \<Longrightarrow> r < length (dv_arena d) \<Longrightarrow> \<exists>q. p_quota (dv_arena d ! r) = Some q"
  using nth_mem by (fastforce simp: live_def)

lemma sum_allowance_update:
  "r < length ps \<Longrightarrow> sum_list (map allowance (ps[r := p])) + allowance (ps ! r) = sum_list (map allowance ps) + allowance p"
  by (induction ps arbitrary: r) (auto split: nat.splits)

lemma covered_store:
  assumes d: "live ND d" and r: "r < length (dv_arena d)" and pays: "pays_for E S d (dv_arena d ! r) fx p paid"
  shows "covered E S ND d fx (store_peer d r p) (map (Pair r) paid)"
proof -
  have "live ND (store_peer d r p)"
    using d pays set_update_subset_insert [of "dv_arena d" r p] by (auto simp: live_def store_peer_def arena_refs_def pays_for_def)
  moreover have "balance (store_peer d r p) + written fx \<le> balance d + unat (quota_bytes (dv_config d)) * length paid"
    using pays sum_allowance_update [OF r, of p] by (simp add: balance_def store_peer_def pays_for_def)
  moreover have "distinct (map (\<lambda>x. (r, ps_nonce x)) paid)"
    using pays by (auto simp: pays_for_def distinct_map inj_on_def)
  ultimately show ?thesis using pays r
    by (auto simp: covered_def same_tables_def store_peer_def pays_for_def nth_list_update comp_def)
qed

lemma covered_peer:
  assumes "live ND d" and "r < length (dv_arena d)" and "\<exists>paid. pays_for E S d (dv_arena d ! r) fx p paid"
  shows "\<exists>paid. covered E S ND d fx (store_peer d r p) paid"
  using assms covered_store by blast

lemma flush_peer_quota:
  "flush_peer C v d p send = Some (Ok (p', sent)) \<Longrightarrow> p_quota p' = p_quota p \<and> (\<exists>packets. sent = map send packets)"
  by (auto simp: flush_peer_def then_do_def split: option.splits rust.splits prod.splits)

lemma after_packet_quota:
  assumes "after_packet C v d r p addr fl fx = Some (Ok (d', fx', counted))"
  shows "\<exists>p'. d' = store_peer d r p' \<and> p_quota p' = p_quota p \<and> written fx' = written fx"
proof -
  have endpoint: "p_quota q' = p_quota q" if "set_endpoint os q addr = Ok q'" for os q q'
    using that by (auto simp: set_endpoint_def shutdown_endpoint_def Let_def rbind_eq_Ok split: if_splits)
  have connect: "p_quota q' = p_quota q" if "connect_endpoint os q port mark = Ok q'" for os q q' port mark
    using that by (auto simp: connect_endpoint_def rbind_eq_Ok Let_def split: option.splits if_splits)
  obtain q sent where q: "(if fl then flush_peer C v d p (SendTo addr) else Some (Ok (p, []))) = Some (Ok (q, sent))"
    using assms by (auto simp: after_packet_def then_do_def split: option.splits rust.splits)
  then have "p_quota q = p_quota p \<and> written sent = 0"
    by (auto split: if_splits dest!: flush_peer_quota)
  then show ?thesis
    using assms unfolding after_packet_def q
    by (auto simp: then_do_def split: option.splits rust.splits if_splits dest!: endpoint connect)
qed

lemma pays_exists_quota:
  "p_quota p2 = p_quota p1 \<Longrightarrow> \<exists>paid. pays_for E S d p fx p1 paid \<Longrightarrow> written fx' = written fx \<Longrightarrow> \<exists>paid. pays_for E S d p fx' p2 paid"
  using pays_quota by blast

lemma map_of_ref: "map_of xs k = Some r \<Longrightarrow> r \<in> snd ` set xs"
  by (drule map_of_SomeD) (rule image_eqI [where x = "(k, r)"], simp_all)

lemma get_Ok: "(case m of None \<Rightarrow> Err () | Some r \<Rightarrow> Ok r) = Ok x \<longleftrightarrow> m = Some x"
  by (cases m) simp_all

lemma find_peer_ref: "find_peer C d sk pk parsed = Ok r \<Longrightarrow> r \<in> arena_refs d"
  by (auto simp: find_peer_def arena_refs_def Let_def rbind_eq_Ok get_Ok dest: map_of_ref split: packet.splits)

lemma udp_packet_covered:
  assumes d: "live ND d" and S: "env_honest S v" and udp: "udp_packet C E NP sk pk limiter v d addr packet = Some (Ok (d', fx, counted))"
  shows "\<exists>paid. covered E S ND d fx d' paid"
proof -
  obtain rl verified where ver: "verify_packet C (dv_limiters d ! limiter) (Some (fst addr)) packet (ev_clk v 0) MAX_UDP_SIZE = (rl, verified)"
    by fastforce
  let ?d = "store_limiter d limiter rl"
  have quiet: ?thesis if "d' = ?d" "written fx = 0"
    by (rule exI, rule covered_quiet) (use d in \<open>simp_all add: that same_tables_def store_limiter_def live_def arena_refs_def\<close>)
  show ?thesis
  proof (cases "\<exists>parsed r. verified = Ok parsed \<and> find_peer C ?d sk pk parsed = Ok r")
    case False
    then show ?thesis using udp quiet ver by (auto simp: udp_packet_def Let_def split: rust.splits tunn_result.splits)
  next
    case True
    then obtain parsed r where found: "verified = Ok parsed" "find_peer C ?d sk pk parsed = Ok r" by blast
    define p where "p = dv_arena d ! r"
    have arena: "dv_arena ?d = dv_arena d" by simp
    have r: "r < length (dv_arena d)"
      using find_peer_ref [OF found(2)] d by (auto simp: live_def arena_refs_def store_limiter_def)
    obtain q where q: "p_quota p = Some q" using live_quota [OF d r] by (auto simp: p_def)
    have store: ?thesis if "\<exists>paid. pays_for E S d p fx p' paid" "d' = store_peer ?d r p'" for p'
      using covered_peer [of ND ?d r E S fx p'] that d r by (simp add: p_def)
    have after: ?thesis if "after_packet C v ?d r p' addr fl fx0 = Some (Ok (d', fx, c))" "\<exists>paid. pays_for E S d p fx0 p' paid" for p' fl fx0 c
      using after_packet_quota [OF that(1)] that(2) store pays_exists_quota by blast
    have same: "\<exists>paid. pays_for E S d p fx0 (p\<lparr>p_tunnel := t\<rparr>) paid" if "written fx0 = 0" for t fx0
      using pays_same [of "p\<lparr>p_tunnel := t\<rparr>" p fx0] q that by auto
    have quota: "p_quota (p\<lparr>p_tunnel := t\<rparr>) = Some q" "is_server (dv_config ?d)" for t
      using q d by (simp_all add: live_def store_limiter_def)
    obtain t res where hv: "handle_verified_packet C (p_tunnel p) parsed MAX_UDP_SIZE (ev_ephemeral v 0) (ev_clk v 1) = Some (t, res)"
      using udp found ver by (auto simp: udp_packet_def Let_def p_def split: option.splits)
    note unfolded = udp [unfolded udp_packet_def Let_def ver found(1) prod.case rust.case, unfolded found(2) rust.case arena p_def [symmetric] hv option.case prod.case]
    show ?thesis
    proof (cases res)
      case (Ok out)
      have len: "bounded_result out" using verified_bounded hv Ok by simp
      show ?thesis
      proof (cases out)
        case (WriteToTunnelV4 inner src)
        obtain p' fx1 skip where v4: "tunnel_v4 C E NP v ?d (p\<lparr>p_tunnel := t\<rparr>) inner src (Some addr) = Ok (p', fx1, skip)"
          and rest: "(if skip then Some (Ok (store_peer ?d r p', fx1, False)) else after_packet C v ?d r p' addr False fx1) = Some (Ok (d', fx, counted))"
          using unfolded by (auto simp: Ok WriteToTunnelV4 then_do_def split: rust.splits)
        have "\<exists>paid. pays_for E S d p fx1 p' paid"
          using tunnel_v4_pays [OF v4 quota(1) S quota(2)] len by (simp add: WriteToTunnelV4 bounded_result_def)
        then show ?thesis using rest store [of p'] after [of p' False fx1 counted] by (cases skip) auto
      next
        case (WriteToTunnelV6 inner src)
        obtain p' fx1 skip where v6: "tunnel_v6 NP ?d (p\<lparr>p_tunnel := t\<rparr>) inner src = (p', fx1, skip)"
          and rest: "(if skip then Some (Ok (store_peer ?d r p', fx1, False)) else after_packet C v ?d r p' addr False fx1) = Some (Ok (d', fx, counted))"
          using unfolded by (auto simp: Ok WriteToTunnelV6 split: prod.splits)
        have "pays_for E S d p fx1 p' []"
          using tunnel_v6_pays [OF v6 quota(1) quota(2), of E S] len by (simp add: WriteToTunnelV6 bounded_result_def)
        then show ?thesis using rest store [of p'] after [of p' False fx1 counted] by (cases skip) auto
      qed (use unfolded Ok same store after in auto)
    qed (use unfolded same store in auto)
  qed
qed

lemma conn_packet_covered:
  assumes d: "live ND d" and S: "env_honest S v" and r: "r < length (dv_arena d)"
    and conn: "conn_packet C E NP r ip v d packet = Some (Ok (d', fx, counted))"
  shows "\<exists>paid. covered E S ND d fx d' paid"
proof -
  define p where "p = dv_arena d ! r"
  obtain q where q: "p_quota p = Some q" using live_quota [OF d r] by (auto simp: p_def)
  obtain rl t res where dec: "decapsulate C (dv_limiters d ! p_limiter p) (p_tunnel p) (Some ip) packet MAX_UDP_SIZE
      (ev_ephemeral v 0) (ev_clk v) = Some (rl, t, res)"
    using conn by (auto simp: conn_packet_def Let_def p_def split: option.splits)
  let ?d = "store_limiter d (p_limiter p) rl"
  have store: ?thesis if "\<exists>paid. pays_for E S d p fx p' paid" "d' = store_peer ?d r p'" for p'
    using covered_peer [of ND ?d r E S fx p'] that d r by (simp add: p_def)
  have same: "\<exists>paid. pays_for E S d p fx0 p' paid" if "written fx0 = 0" "p_quota p' = p_quota p" for p' fx0
    using pays_same [of p' p fx0] q that by auto
  have quota: "p_quota (p\<lparr>p_tunnel := t\<rparr>) = Some q" "is_server (dv_config ?d)" for t
    using q d by (simp_all add: live_def store_limiter_def)
  note unfolded = conn [unfolded conn_packet_def Let_def, folded p_def, unfolded dec option.case prod.case]
  show ?thesis
  proof (cases res)
    case (Ok out)
    have len: "bounded_result out" using decapsulate_bounded dec Ok by simp
    show ?thesis
    proof (cases out)
      case (WriteToTunnelV4 inner src)
      obtain p' where v4: "tunnel_v4 C E NP v ?d (p\<lparr>p_tunnel := t\<rparr>) inner src (ep_addr (p_endpoint (p\<lparr>p_tunnel := t\<rparr>))) = Ok (p', fx, \<not> counted)"
        and "d' = store_peer ?d r p'"
        using unfolded by (auto simp: Ok WriteToTunnelV4 then_do_def split: rust.splits)
      then show ?thesis
        using store tunnel_v4_pays [OF v4 quota(1) S quota(2)] len by (simp add: WriteToTunnelV4 bounded_result_def)
    next
      case (WriteToTunnelV6 inner src)
      obtain p' where v6: "tunnel_v6 NP ?d (p\<lparr>p_tunnel := t\<rparr>) inner src = (p', fx, \<not> counted)" and "d' = store_peer ?d r p'"
        using unfolded by (auto simp: Ok WriteToTunnelV6 split: prod.splits)
      moreover have "pays_for E S d p fx p' []"
        using tunnel_v6_pays [OF v6 quota(1) quota(2), of E S] len by (simp add: WriteToTunnelV6 bounded_result_def)
      ultimately show ?thesis using store by blast
    next
      case (WriteToNetwork out)
      then obtain p' sent where "flush_peer C v ?d (p\<lparr>p_tunnel := t\<rparr>) (SendConn r) = Some (Ok (p', sent))"
          "d' = store_peer ?d r p'" "fx = SendConn r out # sent"
        using unfolded Ok by (auto simp: then_do_def split: option.splits rust.splits)
      then show ?thesis by (intro store [of p'] same) (auto dest!: flush_peer_quota)
    qed (use unfolded Ok same store in auto)
  qed (use unfolded same store in auto)
qed

lemma iface_packet_covered:
  assumes d: "live ND d" and iface: "iface_packet C NP ND v d src = Ok (d', fx)"
  shows "\<exists>paid. covered E S ND d fx d' paid"
proof (cases "\<exists>a r. dst_address src = Ok a \<and> allowed_find ND (dv_by_ip d) a = Some r")
  case False
  then have "d' = d" "fx = []" using iface by (auto simp: iface_packet_def split: rust.splits option.splits)
  then show ?thesis using covered_Nil [OF d] by blast
next
  case True
  then obtain a r where a: "dst_address src = Ok a" "allowed_find ND (dv_by_ip d) a = Some r" by blast
  have r: "r < length (dv_arena d)" using d a unfolding live_def by blast
  define p where "p = dv_arena d ! r"
  obtain q where q: "p_quota p = Some q" using live_quota [OF d r] by (auto simp: p_def)
  have server: "is_server (dv_config d)" using d by (simp add: live_def)
  obtain q' enough where con: "consume q (of_nat (length src)) = (q', enough)" by fastforce
  have less: "allowance (p\<lparr>p_quota := Some q'\<rparr>) \<le> allowance p" "used_nonces q' = used_nonces q"
    using con quota_step_pays [of q "Consume (of_nat (length src))"] by (auto simp: allowance_def q consume_def Let_def split: if_splits)
  have store: ?thesis if "d' = store_peer d r p'" "p_quota p' = Some q'" "written fx = 0" for p'
  proof -
    have "pays_for E S d p fx p' []" using that less by (simp add: pays_for_def nonces_def allowance_def q)
    then show ?thesis unfolding that(1) p_def by (intro covered_peer [OF d r]) blast
  qed
  have sent: ?thesis if "iface_send C v d r src (p\<lparr>p_quota := Some q'\<rparr>) = Ok (d', fx)"
  proof -
    obtain t res where enc: "encapsulate C (p_tunnel p) src MAX_UDP_SIZE (ev_ephemeral v 0) (ev_clk v) = (t, res)" by fastforce
    have "d' = store_peer d r (p\<lparr>p_quota := Some q', p_tunnel := t\<rparr>) \<and> written fx = 0"
      using that by (auto simp: iface_send_def send_to_endpoint_def Let_def enc split: rust.splits tunn_result.splits option.splits if_splits)
    then show ?thesis by (intro store [of "p\<lparr>p_quota := Some q', p_tunnel := t\<rparr>"]) simp_all
  qed
  note unfolded = iface [unfolded iface_packet_def a rust.case option.case Let_def, folded p_def, unfolded q, simplified server]
  show ?thesis
  proof (cases "is_blocked q")
    case True
    then show ?thesis using unfolded covered_Nil [OF d] by auto
  next
    case False
    show ?thesis
    proof (cases "enough \<or> ep_addr (p_endpoint p) = None")
      case True
      then show ?thesis using unfolded False sent store [of "p\<lparr>p_quota := Some q'\<rparr>"] by (cases enough) (auto simp: con)
    next
      case no: False
      then obtain addr p' where "send_payment_required C NP v d (p\<lparr>p_quota := Some q'\<rparr>) addr = Ok (p', fx)" "d' = store_peer d r p'"
        using unfolded False by (auto simp: con rbind_eq_Ok)
      then show ?thesis by (intro store [of p']) (auto dest!: send_required_quiet)
    qed
  qed
qed

lemma timer_peer_covered:
  assumes d: "live ND d" and r: "r < length (dv_arena d)" and timer: "timer_peer C v d r = Ok (d', fx)"
  shows "\<exists>paid. covered E S ND d fx d' paid"
proof -
  define p where "p = dv_arena d ! r"
  obtain q where q: "p_quota p = Some q" using live_quota [OF d r] by (auto simp: p_def)
  show ?thesis
  proof (cases "ep_addr (p_endpoint p)")
    case None
    then have "d' = d" "fx = []" using timer by (simp_all add: timer_peer_def p_def Let_def)
    then show ?thesis using covered_Nil [OF d] by blast
  next
    case (Some addr)
    obtain rl t res where up: "update_timers C (dv_limiters d ! p_limiter p) (p_tunnel p) MAX_UDP_SIZE (ev_ephemeral v 0) (ev_clk v) = (rl, t, res)"
      by (metis prod.collapse)
    let ?d = "store_limiter d (p_limiter p) rl"
    have stored: ?thesis if "d' = store_peer ?d r p'" "p_quota p' = p_quota p" "written fx = 0" for p'
      using covered_peer [of ND ?d r E S fx p'] d r pays_same [of p' p fx E S d] q that by (auto simp: p_def)
    note unfolded = timer [unfolded timer_peer_def Let_def, folded p_def, unfolded Some option.case up prod.case]
    show ?thesis
    proof (cases "res = Ok (TErr ConnectionExpired)")
      case True
      then obtain p' where "shutdown_endpoint (ev_os v) (p\<lparr>p_tunnel := t\<rparr>) = Ok p'" "d' = store_peer ?d r p'" "fx = []"
        using unfolded by (auto simp: rbind_eq_Ok)
      then show ?thesis by (intro stored [of p']) (auto simp: shutdown_endpoint_def split: if_splits)
    next
      case False
      then have "d' = store_peer ?d r (p\<lparr>p_tunnel := t\<rparr>) \<and> written fx = 0"
        using unfolded by (auto split: rust.splits tunn_result.splits wireguard_error.splits)
      then show ?thesis by (intro stored [of "p\<lparr>p_tunnel := t\<rparr>"]) simp_all
    qed
  qed
qed

section \<open>Handler calls and runs\<close>

lemma covered_chain:
  assumes "\<exists>paid. covered E S ND d fx d1 paid" and "live ND d1 \<Longrightarrow> \<exists>paid. covered E S ND d1 fx' d2 paid"
  shows "\<exists>paid. covered E S ND d (fx @ fx') d2 paid"
  using assms covered_trans by (metis covered_def)

lemma covered_live: "\<exists>paid. covered E S ND d fx d' paid \<Longrightarrow> live ND d'"
  by (auto simp: covered_def)

lemma udp_loop_covered:
  "live ND d \<Longrightarrow> list_all (\<lambda>(v, _). env_honest S v) xs \<Longrightarrow> udp_loop C E NP sk pk limiter iter d xs = Some (Ok (d', fx, rest))
   \<Longrightarrow> \<exists>paid. covered E S ND d fx d' paid"
proof (induction xs arbitrary: d iter fx)
  case (Cons x xs)
  obtain v addr packet where x: "x = (v, addr, packet)" by (cases x)
  obtain d1 fx1 counted where one: "udp_packet C E NP sk pk limiter v d addr packet = Some (Ok (d1, fx1, counted))"
    using Cons.prems(3) by (auto simp: x then_do_def split: option.splits rust.splits)
  have first: "\<exists>paid. covered E S ND d fx1 d1 paid" using udp_packet_covered [OF Cons.prems(1) _ one] Cons.prems(2) by (simp add: x)
  show ?case
  proof (cases "counted \<and> iter - 1 = 0")
    case True
    then show ?thesis using Cons.prems(3) first one by (simp add: x then_do_def)
  next
    case False
    then obtain fx2 where "udp_loop C E NP sk pk limiter (if counted then iter - 1 else iter) d1 xs = Some (Ok (d', fx2, rest))" "fx = fx1 @ fx2"
      using Cons.prems(3) one by (auto simp: x then_do_def Let_def split: option.splits rust.splits if_splits)
    then show ?thesis using covered_chain [OF first] Cons.IH Cons.prems(2) by (simp add: x)
  qed
qed (auto intro: covered_idle)

lemma conn_loop_covered:
  "live ND d \<Longrightarrow> r < length (dv_arena d) \<Longrightarrow> list_all (\<lambda>(v, _). env_honest S v) xs
   \<Longrightarrow> conn_loop C E NP r ip iter d xs = Some (Ok (d', fx, rest)) \<Longrightarrow> \<exists>paid. covered E S ND d fx d' paid"
proof (induction xs arbitrary: d iter fx)
  case (Cons x xs)
  obtain v packet where x: "x = (v, packet)" by (cases x)
  obtain d1 fx1 counted where one: "conn_packet C E NP r ip v d packet = Some (Ok (d1, fx1, counted))"
    using Cons.prems(4) by (auto simp: x then_do_def split: option.splits rust.splits)
  have first: "\<exists>paid. covered E S ND d fx1 d1 paid" using conn_packet_covered [OF Cons.prems(1) _ Cons.prems(2) one] Cons.prems(3) by (simp add: x)
  have r: "r < length (dv_arena d1)" using conn_packet_keeps [OF one Cons.prems(2)] Cons.prems(2) by simp
  show ?case
  proof (cases "counted \<and> iter - 1 = 0")
    case True
    then show ?thesis using Cons.prems(4) first one by (simp add: x then_do_def)
  next
    case False
    then obtain fx2 where "conn_loop C E NP r ip (if counted then iter - 1 else iter) d1 xs = Some (Ok (d', fx2, rest))" "fx = fx1 @ fx2"
      using Cons.prems(4) one by (auto simp: x then_do_def Let_def split: option.splits rust.splits if_splits)
    then show ?thesis using covered_chain [OF first] Cons.IH [OF _ r] Cons.prems(3) by (simp add: x)
  qed
qed (auto intro: covered_idle)

lemma iface_loop_covered:
  "live ND d \<Longrightarrow> iface_loop C NP ND iter d xs = Ok (d', fx, rest) \<Longrightarrow> \<exists>paid. covered E S ND d fx d' paid"
proof (induction C NP ND iter d xs arbitrary: fx rule: iface_loop.induct)
  case (1 C NP ND iter d v src waiting)
  then obtain d1 fx1 fx2 where one: "iface_packet C NP ND v d src = Ok (d1, fx1)"
      and two: "iface_loop C NP ND iter d1 waiting = Ok (d', fx2, rest)" "fx = fx1 @ fx2"
    by (auto simp: rbind_eq_Ok)
  show ?case unfolding two(2)
    by (rule covered_chain [OF iface_packet_covered [OF 1(2) one]]) (use 1(1) one two in auto)
qed (auto intro: covered_idle)

lemma timer_loop_covered:
  "live ND d \<Longrightarrow> \<forall>r \<in> set rs. r < length (dv_arena d) \<Longrightarrow> timer_loop C vs j d rs = Ok (d', fx) \<Longrightarrow> \<exists>paid. covered E S ND d fx d' paid"
proof (induction rs arbitrary: d j fx)
  case (Cons r rs)
  then obtain d1 fx1 fx2 where one: "timer_peer C (vs j) d r = Ok (d1, fx1)"
      and two: "timer_loop C vs (Suc j) d1 rs = Ok (d', fx2)" "fx = fx1 @ fx2"
    by (auto simp: rbind_eq_Ok)
  have "length (dv_arena d1) = length (dv_arena d)" using timer_peer_keeps [OF one] .
  then show ?case unfolding two(2)
    using Cons.prems(2) by (intro covered_chain [OF timer_peer_covered [OF Cons.prems(1) _ one]] Cons.IH [OF _ _ two(1)]) auto
qed (auto intro: covered_idle)

lemma shift_all_honest: "list_all (\<lambda>(v, _). env_honest S v) (shift_all now xs) \<longleftrightarrow> list_all (\<lambda>(v, _). env_honest S v) xs"
  by (induction now xs rule: shift_all.induct) (auto simp: shift_def env_honest_def)

lemma dev_reply_covered:
  assumes "live ND d" and "\<And>d' fx w. out = Some (Ok (d', fx, w)) \<Longrightarrow> \<exists>paid. covered E S ND d fx d' paid"
  shows "\<exists>paid. covered E S ND d (all_effects [snd (dev_reply (now, d) now' out)]) (snd (fst (dev_reply (now, d) now' out))) paid"
  using assms covered_idle [of ND d]
  by (auto simp: dev_reply_def all_effects_def split: option.splits rust.splits)

lemma dev_step_covered:
  assumes d: "live ND d" and S: "dev_honest S x"
  shows "\<exists>paid. covered E S ND d (all_effects [snd (dev_step C E NP ND (now, d) x)]) (snd (fst (dev_step C E NP ND (now, d) x))) paid"
proof (cases x)
  case (Datagrams xs)
  have honest: "list_all (\<lambda>(v, _). env_honest S v) (shift_all now xs)" using S by (simp add: Datagrams shift_all_honest)
  show ?thesis unfolding Datagrams dev_step.simps Let_def
    by (rule dev_reply_covered [OF d]) (auto simp: udp_handler_def intro: udp_loop_covered [OF d honest] split: option.splits)
next
  case (ConnDatagrams r ip xs)
  show ?thesis
  proof (cases "r < length (dv_arena d) \<and> ep_addr (p_endpoint (dv_arena d ! r)) \<noteq> None")
    case True
    have honest: "list_all (\<lambda>(v, _). env_honest S v) (shift_all now xs)" using S by (simp add: ConnDatagrams shift_all_honest)
    show ?thesis unfolding ConnDatagrams dev_step.simps Let_def if_P [OF True]
      by (rule dev_reply_covered [OF d]) (auto simp: conn_handler_def intro: conn_loop_covered [OF d _ honest] True [THEN conjunct1])
  next
    case False
    show ?thesis unfolding ConnDatagrams dev_step.simps Let_def if_not_P [OF False]
      using covered_idle [OF d] by (simp add: all_effects_def)
  qed
next
  case (InterfacePackets xs)
  show ?thesis unfolding InterfacePackets dev_step.simps Let_def
    by (rule dev_reply_covered [OF d]) (auto simp: iface_handler_def intro: iface_loop_covered [OF d] split: if_splits)
next
  case (PeerTimers vs)
  have refs: "\<forall>r \<in> set (map snd (dv_peers d)). r < length (dv_arena d)" using d by (auto simp: live_def arena_refs_def)
  show ?thesis unfolding PeerTimers dev_step.simps Let_def
    by (rule dev_reply_covered [OF d])
      (auto simp: timer_handler_def rbind_eq_Ok intro: timer_loop_covered [OF d refs] covered_idle [OF d] split: if_splits)
next
  case (LimiterTimer now)
  have "covered E S ND d [] (limiter_tick d now) []"
    by (rule covered_quiet) (use d in \<open>auto simp: limiter_tick_def live_def same_tables_def store_limiter_def arena_refs_def split: option.splits\<close>)
  then show ?thesis unfolding LimiterTimer by (auto simp: all_effects_def)
qed

lemma run_Cons_effects:
  "all_effects (snd (run step s (x # xs))) = all_effects [snd (step s x)] @ all_effects (snd (run step (fst (step s x)) xs))"
  "fst (run step s (x # xs)) = fst (run step (fst (step s x)) xs)"
  by (simp_all add: run_Cons all_effects_def)

lemma run_covered:
  "live ND (snd s) \<Longrightarrow> list_all (dev_honest S) events
   \<Longrightarrow> \<exists>paid. covered E S ND (snd s) (all_effects (snd (run (dev_step C E NP ND) s events))) (snd (fst (run (dev_step C E NP ND) s events))) paid"
proof (induction events arbitrary: s)
  case (Cons x xs)
  have first: "\<exists>paid. covered E S ND (snd s) (all_effects [snd (dev_step C E NP ND s x)]) (snd (fst (dev_step C E NP ND s x))) paid"
    using dev_step_covered [OF Cons.prems(1), of S x] Cons.prems(2) by (cases s) simp
  show ?case unfolding run_Cons_effects
    by (rule covered_chain [OF first], rule Cons.IH) (use Cons.prems(2) in simp_all)
qed (auto simp: all_effects_def intro: covered_idle)

text \<open>C3. Nothing is forwarded unpaid. On a server, after any configuration and over any run of datagrams, interface packets
  and timers, whatever they contain and whatever the surroundings are, the bytes that the handler calls which
  return write to the interface are at most the free allowance of each peer and one quota for each accepted
  payment. An accepted payment is an authorization whose signature recovers to its payer, made out to the
  server's wallet, of at least the price, and settled if a settlement service is configured; no peer has two with the
  same nonce.\<close>

theorem forwarded_bytes_paid:
  assumes "tables_ok NP ND EP ED contains trunc" and "lfsr_default rnd = Some (l, rnd')"
    and "fst (run (mgmt_step C E NP ND) (Ok (device_new ND l uc mtu cfg)) config) = Ok d"
    and "is_server cfg" and "list_all (dev_honest S) events"
    and "run (dev_step C E NP ND) (now, d) events = (s, rs)"
  shows "\<exists>paid. distinct (map (\<lambda>(r, submit). (r, ps_nonce submit)) paid)
    \<and> (\<forall>(r, submit) \<in> set paid. r < length (dv_arena d) \<and> valid_payment E S d submit)
    \<and> written (all_effects rs) \<le> unat DEFAULT_QUOTA_BYTES * length (dv_arena d) + unat (quota_bytes cfg) * length paid"
proof -
  have d: "live ND d" "balance d = unat DEFAULT_QUOTA_BYTES * length (dv_arena d)" "dv_config d = cfg"
    using configured_live [OF assms(1-4)] by simp_all
  obtain paid where "covered E S ND d (all_effects rs) (snd s) paid"
    using run_covered [of ND "(now, d)" S events E C NP] d(1) assms(5,6) by auto
  then have "distinct (map (\<lambda>(r, submit). (r, ps_nonce submit)) paid)"
    "\<forall>(r, submit) \<in> set paid. r < length (dv_arena d) \<and> valid_payment E S d submit"
    "written (all_effects rs) \<le> balance d + unat (quota_bytes (dv_config d)) * length paid"
    by (auto simp: covered_def)
  then show ?thesis unfolding d(2,3) by blast
qed

theorem forwarded_bytes_paid_witness:
  "\<exists>d s rs paid. fst (run (mgmt_step toy_crypto toy_eth list_table list_table)
       (Ok (device_new list_table \<lparr>initial = 5, lfsr = 5, mask = 7\<rparr> True 1420 sample_config))
       (sample_ops @ [OpenListenSocket (ev_os sample_env) 51820])) = Ok d
     \<and> run (dev_step toy_crypto toy_eth list_table list_table) (0, d)
         [Datagrams [(sample_env, (V4 1, 2), [1, 2, 3])], InterfacePackets [(sample_env, replicate 20 0x45)]] = (s, rs)
     \<and> distinct (map (\<lambda>(r :: nat, submit :: payment_submit). (r, ps_nonce submit)) paid)
     \<and> written (all_effects rs) \<le> unat DEFAULT_QUOTA_BYTES * length (dv_arena d) + unat (quota_bytes sample_config) * length paid"
proof -
  let ?conf = "fst (run (mgmt_step toy_crypto toy_eth list_table list_table)
       (Ok (device_new list_table \<lparr>initial = 5, lfsr = 5, mask = 7\<rparr> True 1420 sample_config))
       (sample_ops @ [OpenListenSocket (ev_os sample_env) 51820]))"
  let ?events = "[Datagrams [(sample_env, (V4 1, 2), [1, 2, 3])], InterfacePackets [(sample_env, replicate 20 0x45)]]"
  have "case ?conf of Ok d \<Rightarrow> True | _ \<Rightarrow> False" by code_simp
  then obtain d where d: "?conf = Ok d" by (auto split: rust.splits)
  have seeded: "lfsr_default [5, 7] = Some (\<lparr>initial = 5, lfsr = 5, mask = 7\<rparr>, [])" by code_simp
  have server: "is_server sample_config" by code_simp
  have honest: "list_all (dev_honest (\<lambda>_. False)) ?events" by (simp add: env_honest_def sample_env_def)
  obtain s rs where run: "run (dev_step toy_crypto toy_eth list_table list_table) (0, d) ?events = (s, rs)" by (metis prod.collapse)
  show ?thesis
    using forwarded_bytes_paid [OF list_tables_ok seeded d server honest run] d run by blast
qed

end
