(* ===== verification/Payment_Exchange.thy ===== *)
theory Payment_Exchange
  imports Device_Metering
begin

text \<open>
  A payment from the exhausted quota to the credit, over the wire: the server's request travels through the tunnel to the
  client, the client's signed answer travels back and is credited, and the acceptance reaches the client. The
  two ends are whole devices; every message goes through sealing, the datagram handler, the tunnel and the
  payment handlers.
\<close>

section \<open>Definitions\<close>

text \<open>Tunnels whose current sessions are the two ends of one session. No counter from the next one on has been
  received, and the next \<open>k\<close> counters are regular.\<close>

definition receives :: "nat \<Rightarrow> session \<Rightarrow> session \<Rightarrow> bool" where
  "receives k a b \<longleftrightarrow> unat (sending_key_counter a) + k < 2 ^ 64 - 1024
     \<and> (\<exists>w. window_rel (receiving_key_counter b) w \<and> w_next w \<le> unat (sending_key_counter a))"

definition current_session :: "tunn \<Rightarrow> session \<Rightarrow> bool" where
  "current_session t s \<longleftrightarrow> length (sessions t) = N_SESSIONS \<and> current t mod N_SESSIONS = local_index s mod N_SESSIONS
     \<and> sessions t ! (local_index s mod N_SESSIONS) = Some s"

definition linked :: "nat \<Rightarrow> tunn \<Rightarrow> tunn \<Rightarrow> bool" where
  "linked k a b \<longleftrightarrow> (\<exists>s s'. current_session a s \<and> current_session b s' \<and> sessions_match s s' \<and> receives k s s' \<and> receives k s' s)"

text \<open>The device finds peer \<open>r\<close> by the index of its current session.\<close>

definition indexed :: "(u32 \<times> nat) list \<Rightarrow> nat \<Rightarrow> tunn \<Rightarrow> bool" where
  "indexed by_idx r t \<longleftrightarrow> (\<forall>s. current_session t s \<longrightarrow> map_of by_idx (drop_bit 8 (receiving_index s)) = Some r)"

text \<open>The payment a server accepts from a message, if any: made out to it, of at least the price, with a nonce the
  peer has not used, signed by its payer, and settled when there is a settlement service.\<close>

definition accepts :: "eth_crypto \<Rightarrow> env \<Rightarrow> ('a, 'b) device \<Rightarrow> quota \<Rightarrow> bytes \<Rightarrow> payment_submit option" where
  "accepts E v d q payload =
     (case (dv_wallet d, submit_decode payload) of
        (Some w, Ok s) \<Rightarrow>
          if ps_to s = ethereum_address w \<and> amount_per_quota (dv_config d) \<le> ps_value s \<and> ps_nonce s \<notin> used_nonces q
             \<and> verify_authorization E (gateway_domain (dv_config d)) (submit_authorization s) = Some (ps_from s)
             \<and> (dv_settlement d = None
                \<or> (case ev_settle v (build_settle_request E (dv_config d) s (ethereum_address w)) of Ok resp \<Rightarrow> rs_success resp | _ \<Rightarrow> False))
          then Some s else None
      | _ \<Rightarrow> None)"

text \<open>A device that is its own counterpart: one peer, with a session whose two ends look alike.\<close>

definition sample_end :: "((ip_network \<times> unit) list, (ip_network \<times> nat) list) device" where
  "sample_end = (device_new list_table \<lparr>initial = 5, lfsr = 5, mask = 7\<rparr> True 1420 sample_config)
     \<lparr>dv_wallet := Some \<lparr>signing_key = replicate 32 9, ethereum_address = replicate 20 9\<rparr>,
      dv_arena := [\<lparr>p_tunnel = (fst (tunn_new toy_crypto (replicate 32 1) (replicate 32 2) None None 3 None [] [] 0 (\<lambda>_. 0)))
                      \<lparr>sessions := (replicate 8 None)[1 := Some (session_new 0x301 0x301 (replicate 32 7) (replicate 32 7))], current := 1\<rparr>,
                    p_limiter = 0, p_index = 3, p_endpoint = \<lparr>ep_addr = Some (V4 1, 2), ep_conn = False\<rparr>,
                    p_allowed = [((V4 0x0a000002, 32), ())], p_preshared_key = None, p_quota = Some (new_quota 10)\<rparr>],
      dv_by_idx := [(3, 0)], dv_by_ip := [((V4 0x0a000002, 32), 0)]\<rparr>"

definition sample_settled :: env where
  "sample_settled = sample_env\<lparr>ev_settle := (\<lambda>_. Ok \<lparr>rs_success = True, rs_payer = None, rs_transaction = None, rs_network = None,
     rs_error_reason = None, rs_error_message = None, rs_message = None, rs_error = None\<rparr>)\<rparr>"

definition sample_download :: bytes where
  "sample_download = [0x45, 0, 0, 20, 0, 0, 0, 0, 64, 17, 0, 0, 1, 2, 3, 4, 10, 0, 0, 2]"

section \<open>Linked tunnels\<close>

lemma linked_sym: "linked k a b \<Longrightarrow> linked k b a"
  unfolding linked_def sessions_match_def by metis

lemma current_session_unique: "current_session t s \<Longrightarrow> current_session t s' \<Longrightarrow> s = s'"
  by (simp add: current_session_def)

lemma receives_weaken: "receives (Suc k) a b \<Longrightarrow> receives k a b"
  by (auto simp: receives_def)

lemma receives_cong:
  "sending_key_counter a' = sending_key_counter a \<Longrightarrow> receiving_key_counter b' = receiving_key_counter b \<Longrightarrow> receives k a' b' = receives k a b"
  by (simp add: receives_def)

lemma validate_current: "current (fst (validate_decapsulated_packet t packet)) = current t"
  by (simp add: validate_decapsulated_packet_def Let_def split: rust.split prod.split ip_addr.split)

lemma handle_data_current:
  assumes "handle_verified_packet C t (PacketData p) n e now = Some (t', r)"
  shows "current t' = current t \<or> current t' = unat (pd_receiver_idx p)"
proof -
  have set: "current (set_current_session u i) \<in> {current u, i}" for u i by (simp add: set_current_session_def Let_def)
  obtain s where s: "sessions t ! (unat (pd_receiver_idx p) mod N_SESSIONS) = Some s \<or> t' = t"
    using assms by (cases "sessions t ! (unat (pd_receiver_idx p) mod N_SESSIONS)") (auto simp: handle_verified_packet_def handle_data_def Let_def)
  show ?thesis
  proof (cases "t' = t")
    case False
    then obtain s' out where out: "receive_packet_data C s p n = Some (s', out)"
      using assms s by (auto simp: handle_verified_packet_def handle_data_def Let_def split: option.splits)
    show ?thesis
    proof (cases out)
      case (Ok inner)
      let ?t = "t\<lparr>sessions := (sessions t)[unat (pd_receiver_idx p) mod N_SESSIONS := Some s']\<rparr>"
      have "t' = fst (validate_decapsulated_packet (timer_tick (set_current_session ?t (unat (pd_receiver_idx p))) TimeLastPacketReceived) inner)"
        using assms s False out Ok by (auto simp: handle_verified_packet_def handle_data_def Let_def)
      then show ?thesis using set [of ?t "unat (pd_receiver_idx p)"] by (simp add: validate_current)
    qed (use assms s False out in \<open>auto simp: handle_verified_packet_def handle_data_def Let_def\<close>)
  qed simp
qed

lemma current_session_update:
  assumes "current_session t s" and "sessions t' = (sessions t)[local_index s mod N_SESSIONS := Some s']"
    and "local_index s' = local_index s" and "current t' mod N_SESSIONS = local_index s mod N_SESSIONS"
  shows "current_session t' s'"
  using assms by (simp add: current_session_def N_SESSIONS_def)

lemma indexed_update:
  "current_session t s \<Longrightarrow> current_session t' s' \<Longrightarrow> receiving_index s' = receiving_index s \<Longrightarrow> indexed d r t \<Longrightarrow> indexed d r t'"
  unfolding indexed_def by (metis current_session_unique)

text \<open>What one end seals arrives at the other, and they stay linked.\<close>

lemma linked_deliver:
  assumes C: "aead_correct C" and link: "linked (Suc k) a b" and src: "write_to_tunnel src = Some res"
    and n: "length src + 32 \<le> n" "length src + 32 \<le> m" and b: "indexed by_idx r b"
  obtains a' b' pd where
    "encapsulate C a src n e clk = (a', Ok (WriteToNetwork (packet_wire (PacketData pd) [])))"
    "parse_incoming_packet (packet_wire (PacketData pd) []) = Ok (PacketData pd)"
    "\<And>e' now. handle_verified_packet C b (PacketData pd) m e' now = Some (b', Ok res)"
    "map_of by_idx (drop_bit 8 (pd_receiver_idx pd)) = Some r"
    "linked k a' b'" "indexed by_idx r b'" "\<And>dev i. indexed dev i a \<Longrightarrow> indexed dev i a'"
proof -
  obtain s s' where s: "current_session a s" "current_session b s'" "sessions_match s s'" "receives (Suc k) s s'" "receives (Suc k) s' s"
    using link by (auto simp: linked_def)
  obtain w where w: "window_rel (receiving_key_counter s') w" "w_next w \<le> unat (sending_key_counter s)"
    and room: "unat (sending_key_counter s) + Suc k < 2 ^ 64 - 1024" using s(4) by (auto simp: receives_def)
  have slot: "sessions a ! (current a mod N_SESSIONS) = Some s" "sessions b ! (local_index s' mod N_SESSIONS) = Some s'"
    using s(1,2) by (simp_all add: current_session_def)
  obtain a' where a': "encapsulate C a src n e clk = (a', Ok (WriteToNetwork (packet_wire (PacketData (sealed C s src)) [])))"
      "sessions a' = (sessions a)[current a mod N_SESSIONS := Some (s\<lparr>sending_key_counter := sending_key_counter s + 1\<rparr>)]" "current a' = current a"
    by (rule encapsulate_sealed [OF slot(1) C n(1)])
  have ctr: "regular_counter (sending_key_counter s)" "w_good w (unat (sending_key_counter s))"
    using room w(2) by (simp_all add: regular_counter_def w_good_def)
  have m: "length src + 16 \<le> m" using n(2) by simp
  obtain b1 s'' where b1: "handle_verified_packet C b (PacketData (sealed C s src)) m [] 0 =
      map_option (map_prod id or_error) (Some (validate_decapsulated_packet b1 src))"
    "sessions b1 = (sessions b)[local_index s' mod N_SESSIONS := Some s'']"
    "window_rel (receiving_key_counter s'') (w_mark w (unat (sending_key_counter s)))"
    "s'' = s'\<lparr>receiving_key_counter := receiving_key_counter s''\<rparr>"
    by (rule handle_data_opens [OF C slot(2) s(3) w(1) ctr m])
  define b' where "b' = fst (validate_decapsulated_packet b1 src)"
  note val = validate_written [OF src, of b1]
  have hv: "handle_verified_packet C b (PacketData (sealed C s src)) m [] 0 = Some (b', Ok res)"
    using b1(1) val(1) by (cases "validate_decapsulated_packet b1 src") (simp add: b'_def)
  have idx: "pd_receiver_idx (sealed C s src) = receiving_index s'" using s(3) by (simp add: sealed_def sessions_match_def)
  have fields: "local_index s'' = local_index s'" "receiving_index s'' = receiving_index s'" "sending_key_counter s'' = sending_key_counter s'"
      "sessions_match (s\<lparr>sending_key_counter := sending_key_counter s + 1\<rparr>) s''"
    using s(3) by (subst b1(4), simp add: local_index_def sessions_match_def)+
  have cur: "current_session a' (s\<lparr>sending_key_counter := sending_key_counter s + 1\<rparr>)"
    using a'(2,3) s(1) by (intro current_session_update [OF s(1)]) (simp_all add: current_session_def local_index_def)
  have cur': "current_session b' s''"
    using handle_data_current [OF hv] s(2) b1(2) val(2)
    by (intro current_session_update [OF s(2)]) (auto simp: current_session_def fields b'_def idx local_index_def [of s'])
  have suc: "unat (sending_key_counter s + 1) = Suc (unat (sending_key_counter s))" using room by (simp add: unat_word_ariths)
  have "linked k a' b'"
    unfolding linked_def
  proof (intro exI conjI)
    show "receives k (s\<lparr>sending_key_counter := sending_key_counter s + 1\<rparr>) s''"
      using b1(3) w(2) room ctr(2) by (auto simp: receives_def suc w_mark_def intro!: exI [of _ "w_mark w (unat (sending_key_counter s))"])
    show "receives k s'' (s\<lparr>sending_key_counter := sending_key_counter s + 1\<rparr>)"
      using receives_weaken [OF s(5)] by (simp add: receives_def fields)
  qed (fact cur cur' fields(4))+
  moreover have "map_of by_idx (drop_bit 8 (pd_receiver_idx (sealed C s src))) = Some r" using b s(2) by (simp add: indexed_def idx)
  moreover have "handle_verified_packet C b (PacketData (sealed C s src)) m e' now = Some (b', Ok res)" for e' now
    using hv by (simp add: handle_verified_packet_def)
  ultimately show thesis
    using indexed_update [OF s(2) cur' fields(2) b] indexed_update [OF s(1) cur]
    by (intro that [OF a'(1) format_packet_data_sealed(2) [OF C n(1)]]) auto
qed

section \<open>Signals through tunnels\<close>

lemma signal_written:
  assumes "length payload \<le> 65507"
  shows "write_to_tunnel (signal_layout src dst payload) = Some (WriteToTunnelV4 (signal_layout src dst payload) src)"
proof -
  obtain a b c d where src: "octets src = [a, b, c, d]" using four_bytes [of "octets src"] by auto
  obtain l1 l2 where len: "be_bytes 2 (of_nat (28 + length payload) :: u16) = [l1, l2]"
    using two_bytes [of "be_bytes 2 (of_nat (28 + length payload) :: u16)"] by auto
  have "unat (from_be [l1, l2] :: u16) = 28 + length payload"
    using from_be_be_bytes [of 2 "of_nat (28 + length payload) :: u16"] assms len unfolding unat_of_nat by (simp del: of_nat_add add: unat_of_nat)
  moreover have "from_be [a, b, c, d] = src" using ipv4_new_octets [OF src] by (simp add: ipv4_new_def)
  moreover obtain rest where "signal_layout src dst payload = [0x45, 0, l1, l2, 0, 0, 0x40, 0, 64, 17] @ take 2 rest @ [a, b, c, d] @ drop 2 rest" "2 \<le> length rest"
    by (rule that [of "be_bytes 2 (ip_checksum (ip_front (length payload) @ [0, 0] @ octets src @ octets dst)) @ octets dst
        @ be_bytes 2 PAYMENT_PORT @ be_bytes 2 PAYMENT_PORT @ be_bytes 2 (of_nat (8 + length payload) :: u16) @ [0, 0] @ payload"])
      (simp_all add: signal_layout_def ip_front_def Let_def src len del: of_nat_add)
  ultimately show ?thesis
    using signal_layout_read(1) [OF assms, of src dst]
    by (simp add: write_to_tunnel_def version_nibble)
qed

lemma udp_signal:
  assumes "parse_incoming_packet w = Ok (PacketData pd)"
    and "\<And>e now. handle_verified_packet C (p_tunnel (dv_arena d ! r)) (PacketData pd) MAX_UDP_SIZE e now = Some (t, Ok (WriteToTunnelV4 packet src))"
    and "map_of (dv_by_idx d) (drop_bit 8 (pd_receiver_idx pd)) = Some r" and "is_payment_signal packet"
    and "payment_signal C E NP v d ((dv_arena d ! r)\<lparr>p_tunnel := t\<rparr>) packet (Some addr) = Ok (p', fx)"
  shows "udp_packet C E NP sk pk limiter v d addr w = Some (Ok (store_peer d r p', fx, False))"
proof -
  have "verify_packet C (dv_limiters d ! limiter) (Some (fst addr)) w (ev_clk v 0) MAX_UDP_SIZE = (dv_limiters d ! limiter, Ok (PacketData pd))"
    by (rule verify_unmetered [OF assms(1)]) simp
  then show ?thesis
    using assms(2-5) by (simp add: udp_packet_def find_peer_def store_limiter_def tunnel_v4_def then_do_def)
qed

text \<open>A signal sent by one end and received by the device at the other end.\<close>

lemma signal_delivered:
  assumes C: "aead_correct C" and link: "linked (Suc k) (p_tunnel p) (p_tunnel (dv_arena d ! r))" and len: "length payload \<le> 452"
    and idx: "indexed (dv_by_idx d) r (p_tunnel (dv_arena d ! r))" and gw: "src = PAYMENT_GATEWAY_IP \<or> dst = PAYMENT_GATEWAY_IP"
  obtains a b w where
    "send_signal C v p (signal_layout src dst payload) addr = Ok (p\<lparr>p_tunnel := a\<rparr>, [SendTo addr w])"
    "\<And>E NP sk pk limiter v' addr' p' fx. payment_signal C E NP v' d ((dv_arena d ! r)\<lparr>p_tunnel := b\<rparr>) (signal_layout src dst payload) (Some addr') = Ok (p', fx)
       \<Longrightarrow> udp_packet C E NP sk pk limiter v' d addr' w = Some (Ok (store_peer d r p', fx, False))"
    "linked k a b" "indexed (dv_by_idx d) r b" "\<And>dev i. indexed dev i (p_tunnel p) \<Longrightarrow> indexed dev i a"
proof -
  have len': "length payload \<le> 65507" using len by simp
  have fits: "length (signal_layout src dst payload) + 32 \<le> MAX_PAYMENT_PACKET_SIZE" "length (signal_layout src dst payload) + 32 \<le> MAX_UDP_SIZE"
    using len signal_layout_read(1) [OF len'] by (simp_all add: MAX_PAYMENT_PACKET_SIZE_def MAX_UDP_SIZE_def)
  have sig: "is_payment_signal (signal_layout src dst payload)" using gw signal_layout_read(2) [OF len'] by simp
  obtain a b pd where deliver:
    "encapsulate C (p_tunnel p) (signal_layout src dst payload) MAX_PAYMENT_PACKET_SIZE (ev_ephemeral v 1) (\<lambda>k. ev_clk v (2 + k))
       = (a, Ok (WriteToNetwork (packet_wire (PacketData pd) [])))"
    "parse_incoming_packet (packet_wire (PacketData pd) []) = Ok (PacketData pd)"
    "\<And>e' now. handle_verified_packet C (p_tunnel (dv_arena d ! r)) (PacketData pd) MAX_UDP_SIZE e' now
       = Some (b, Ok (WriteToTunnelV4 (signal_layout src dst payload) src))"
    "map_of (dv_by_idx d) (drop_bit 8 (pd_receiver_idx pd)) = Some r"
    "linked k a b" "indexed (dv_by_idx d) r b" "\<And>dev i. indexed dev i (p_tunnel p) \<Longrightarrow> indexed dev i a"
    by (rule linked_deliver [where clk = "\<lambda>k. ev_clk v (2 + k)", OF C link signal_written [OF len'] fits idx]) blast
  show thesis
    by (rule that [of a "packet_wire (PacketData pd) []" b])
      (use deliver in \<open>auto simp: send_signal_def simp del: packet_wire.simps intro!: udp_signal [OF deliver(2,3,4) sig]\<close>)
qed

lemma required_signal:
  assumes "length payload \<le> 452" and "ip \<noteq> PAYMENT_GATEWAY_IP"
  shows "payment_signal C E NP v d p (signal_layout PAYMENT_GATEWAY_IP ip payload) (Some addr) = handle_payment_signal_client C E NP v d p payload addr"
  using signal_layout_read [of payload PAYMENT_GATEWAY_IP ip] assms by (simp add: payment_signal_def with_addr_def)

lemma submit_signal:
  assumes "length payload \<le> 452"
  shows "payment_signal C E NP v d p (signal_layout ip PAYMENT_GATEWAY_IP payload) (Some addr) = handle_payment_submit C E NP v d p payload addr"
  using signal_layout_read [of payload ip PAYMENT_GATEWAY_IP] assms by (simp add: payment_signal_def with_addr_def)

section \<open>The client's answer\<close>

lemma sign_submit_valid:
  assumes E: "eth_correct E" and w: "wf_wallet E w" and req: "wf_required req"
  obtains submit where "sign_submit E cfg w now req = Ok submit" "wf_submit submit" "ps_from submit = ethereum_address w"
    "ps_to submit = pr_recipient req" "ps_value submit = pr_amount_usdc req" "ps_nonce submit = pr_nonce req"
    "verify_authorization E (gateway_domain cfg) (submit_authorization submit) = Some (ethereum_address w)"
proof -
  define auth where "auth = \<lparr>auth_from = ethereum_address w, auth_to = pr_recipient req, auth_value = pr_amount_usdc req,
      auth_valid_after = 0, auth_valid_before = now + 345600, auth_nonce = pr_nonce req\<rparr>"
  obtain v r s where sig: "sign_digest E w (compute_eip712_digest E (gateway_domain cfg) auth) = Ok (v, r, s)" "length r = 32" "length s = 32"
      "recover_address E (compute_eip712_digest E (gateway_domain cfg) auth) v r s = Some (ethereum_address w)"
    by (rule sign_digest_recovers [OF E w])
  let ?submit = "\<lparr>ps_from = ethereum_address w, ps_to = pr_recipient req, ps_value = pr_amount_usdc req,
      ps_valid_after = 0, ps_valid_before = now + 345600, ps_nonce = pr_nonce req, ps_v = v, ps_r = r, ps_s = s\<rparr>"
  have "sa_auth (submit_authorization ?submit) = auth" "auth_valid_after auth = 0" "auth_valid_before auth = now + 345600"
    by (simp_all add: submit_authorization_def auth_def)
  then show thesis
    by (intro that [of ?submit])
      (use sig req length_ethereum_address [OF E w] in
        \<open>simp_all add: sign_submit_def auth_def [symmetric] Let_def wf_submit_def wf_required_def verify_authorization_def submit_authorization_def\<close>)
qed

lemma client_answers:
  assumes w: "dv_wallet d = Some w" and req: "wf_required req" and ip: "first_ipv4 NP p = Some ip"
    and submit: "sign_submit E (dv_config d) w (ev_now v) req = Ok submit" "wf_submit submit"
  shows "handle_payment_signal_client C E NP v d p (required_encode req) addr = send_signal C v p (signal_layout ip PAYMENT_GATEWAY_IP (submit_encode submit)) addr"
proof -
  obtain body where body: "required_encode req = MSG_PAYMENT_REQUIRED # body" using required_codec.enc_shape [OF req] by auto
  have "length (submit_encode submit) \<le> 65507" using submit_codec.length_enc [OF submit(2)] by simp
  then show ?thesis
    using required_codec.dec_enc [OF req, of "[]"] w ip submit(1)
    by (simp add: handle_payment_signal_client_def body index_def build_signal_packet_layout)
qed

lemma client_acknowledges:
  "handle_payment_signal_client C E NP v d p (accepted_encode m) addr = Ok (p, [])"
proof -
  obtain body where body: "accepted_encode m = MSG_PAYMENT_ACCEPTED # body" using accepted_codec.enc_shape [OF TrueI] by auto
  have "MSG_PAYMENT_ACCEPTED \<noteq> MSG_PAYMENT_REQUIRED" by (simp add: MSG_PAYMENT_ACCEPTED_def MSG_PAYMENT_REQUIRED_def)
  then show ?thesis
    using accepted_codec.dec_enc [OF TrueI, of m "[]"] by (simp add: handle_payment_signal_client_def body index_def)
qed

lemma server_credits:
  assumes "dv_wallet d = Some w" and "p_quota p = Some q" and "wf_submit submit" and "ps_to submit = ethereum_address w"
    and "amount_per_quota (dv_config d) \<le> ps_value submit" and "ps_nonce submit \<notin> used_nonces q"
    and "verify_authorization E (gateway_domain (dv_config d)) (submit_authorization submit) = Some (ps_from submit)"
    and "\<And>request. \<exists>resp. ev_settle v request = Ok resp \<and> rs_success resp"
  shows "handle_payment_submit C E NP v d p (submit_encode submit) addr =
    send_payment_accepted C NP v d (p\<lparr>p_quota := Some (credit (fst (check_and_record_nonce q (ps_nonce submit))) (quota_bytes (dv_config d)))\<rparr>) addr"
proof -
  have dec: "submit_decode (submit_encode submit) = Ok submit" using submit_codec.dec_enc [OF assms(3), of "[]"] by simp
  have price: "\<not> ps_value submit < amount_per_quota (dv_config d)" using assms(5) by simp
  obtain resp where "ev_settle v (build_settle_request E (dv_config d) submit (ethereum_address w)) = Ok resp" "rs_success resp"
    using assms(8) by blast
  then show ?thesis
    using assms(1,2,4,6,7) price
    by (cases "dv_settlement d") (simp_all add: handle_payment_submit_def dec check_and_record_nonce_def credit_peer_def Let_def)
qed

text \<open>The request of a server whose peer used up its quota.\<close>

lemma exhausted_asks:
  assumes "dst_address src = Ok a" and "allowed_find ND (dv_by_ip d) a = Some r" and "is_server (dv_config d)"
    and "p_quota (dv_arena d ! r) = Some q" and "\<not> is_blocked q" and "remaining_bytes q < of_nat (length src)"
    and "ep_addr (p_endpoint (dv_arena d ! r)) = Some addr"
  obtains q' where "iface_packet C NP ND v d src =
      rbind (send_payment_required C NP v d ((dv_arena d ! r)\<lparr>p_quota := Some q'\<rparr>) addr) (\<lambda>(p, fx). Ok (store_peer d r p, fx))"
    "remaining_bytes q' = 0" "used_nonces q' = used_nonces q" "payment_count q' = payment_count q"
proof -
  obtain q' where q': "consume q (of_nat (length src)) = (q', False)" "remaining_bytes q' = 0" "used_nonces q' = used_nonces q" "payment_count q' = payment_count q"
    by (cases "remaining_bytes q = 0") (use assms(6) in \<open>auto simp: consume_def Let_def\<close>)
  then show thesis using assms by (intro that [of q']) (simp_all add: iface_packet_def Let_def)
qed

lemma required_sent:
  assumes "dv_wallet d = Some w" and "first_ipv4 NP p = Some ip"
    and "wf_required \<lparr>pr_amount_usdc = amount_per_quota (dv_config d), pr_nonce = ev_nonce v, pr_recipient = ethereum_address w,
       pr_deadline = ev_now v + 300, pr_chain_id = cfg_chain_id (dv_config d), pr_usdc_contract = cfg_usdc_contract (dv_config d)\<rparr>" (is "wf_required ?req")
  shows "send_payment_required C NP v d p addr = send_signal C v p (signal_layout PAYMENT_GATEWAY_IP ip (required_encode ?req)) addr"
  using required_codec.length_enc [OF assms(3)] assms(1,2) by (simp add: send_payment_required_def build_signal_packet_layout Let_def)

lemma accepted_sent:
  assumes "first_ipv4 NP p = Some ip"
  shows "send_payment_accepted C NP v d p addr = send_signal C v p
    (signal_layout PAYMENT_GATEWAY_IP ip (accepted_encode \<lparr>pa_new_quota_bytes = quota_bytes (dv_config d)\<rparr>)) addr"
  using accepted_codec.length_enc [OF TrueI] assms by (simp add: send_payment_accepted_def build_signal_packet_layout)

section \<open>The exchange\<close>

lemma first_ipv4_cong [simp]: "first_ipv4 NP (p\<lparr>p_tunnel := t\<rparr>) = first_ipv4 NP p" "first_ipv4 NP (p\<lparr>p_quota := q\<rparr>) = first_ipv4 NP p"
  by (simp_all add: first_ipv4_def allowed_ips_def)

lemma store_peer_sel [simp]:
  "dv_wallet (store_peer d r p) = dv_wallet d" "dv_config (store_peer d r p) = dv_config d" "dv_by_idx (store_peer d r p) = dv_by_idx d"
  "r < length (dv_arena d) \<Longrightarrow> dv_arena (store_peer d r p) ! r = p" "length (dv_arena (store_peer d r p)) = length (dv_arena d)"
  by (simp_all add: store_peer_def)

text \<open>The three messages on their way, each with what its receipt leads to.\<close>

lemma request_arrives:
  assumes C: "aead_correct C" and link: "linked (Suc k) (p_tunnel p) (p_tunnel (dv_arena d ! r))"
    and idx: "indexed (dv_by_idx d) r (p_tunnel (dv_arena d ! r))" and ip: "ip \<noteq> PAYMENT_GATEWAY_IP"
    and w: "dv_wallet d = Some w" and req: "wf_required req" and client_ip: "first_ipv4 NP (dv_arena d ! r) = Some client_ip"
    and submit: "sign_submit E (dv_config d) w (ev_now v') req = Ok submit" "wf_submit submit"
  obtains a b ask where
    "send_signal C v p (signal_layout PAYMENT_GATEWAY_IP ip (required_encode req)) addr = Ok (p\<lparr>p_tunnel := a\<rparr>, [SendTo addr ask])"
    "\<And>p' fx. send_signal C v' ((dv_arena d ! r)\<lparr>p_tunnel := b\<rparr>) (signal_layout client_ip PAYMENT_GATEWAY_IP (submit_encode submit)) addr' = Ok (p', fx)
       \<Longrightarrow> udp_packet C E NP sk pk limiter v' d addr' ask = Some (Ok (store_peer d r p', fx, False))"
    "linked k a b" "indexed (dv_by_idx d) r b" "\<And>m i. indexed m i (p_tunnel p) \<Longrightarrow> indexed m i a"
proof -
  have len: "length (required_encode req) \<le> 452" using required_codec.length_enc [OF req] by simp
  have same: "first_ipv4 NP ((dv_arena d ! r)\<lparr>p_tunnel := b\<rparr>) = Some client_ip" for b using client_ip by simp
  show thesis
  proof (rule signal_delivered [OF C link len idx disjI1 [OF refl], where dst = ip and v = v and addr = addr], goal_cases)
    case (1 a b ask)
    show ?case
      by (rule that [OF 1(1) _ 1(3-5)], rule 1(2)) (simp add: required_signal [OF len ip] client_answers [OF w req same submit])
  qed
qed

lemma payment_arrives:
  assumes C: "aead_correct C" and link: "linked (Suc k) (p_tunnel p) (p_tunnel (dv_arena d ! r))"
    and idx: "indexed (dv_by_idx d) r (p_tunnel (dv_arena d ! r))"
    and w: "dv_wallet d = Some w" and q: "p_quota (dv_arena d ! r) = Some q" and ip: "first_ipv4 NP (dv_arena d ! r) = Some ip"
    and submit: "wf_submit submit" "ps_to submit = ethereum_address w"
      "amount_per_quota (dv_config d) \<le> ps_value submit" "ps_nonce submit \<notin> used_nonces q"
      "verify_authorization E (gateway_domain (dv_config d)) (submit_authorization submit) = Some (ps_from submit)"
    and settles: "\<And>request. \<exists>resp. ev_settle v' request = Ok resp \<and> rs_success resp"
  obtains a b pay where
    "send_signal C v p (signal_layout client_ip PAYMENT_GATEWAY_IP (submit_encode submit)) addr = Ok (p\<lparr>p_tunnel := a\<rparr>, [SendTo addr pay])"
    "\<And>p' fx. send_signal C v' ((dv_arena d ! r)\<lparr>p_tunnel := b, p_quota := Some (credit (fst (check_and_record_nonce q (ps_nonce submit))) (quota_bytes (dv_config d)))\<rparr>)
         (signal_layout PAYMENT_GATEWAY_IP ip (accepted_encode \<lparr>pa_new_quota_bytes = quota_bytes (dv_config d)\<rparr>)) addr' = Ok (p', fx)
       \<Longrightarrow> udp_packet C E NP sk pk limiter v' d addr' pay = Some (Ok (store_peer d r p', fx, False))"
    "linked k a b" "indexed (dv_by_idx d) r b" "\<And>m i. indexed m i (p_tunnel p) \<Longrightarrow> indexed m i a"
proof -
  have len: "length (submit_encode submit) \<le> 452" using submit_codec.length_enc [OF submit(1)] by simp
  have q': "p_quota ((dv_arena d ! r)\<lparr>p_tunnel := b\<rparr>) = Some q" for b using q by simp
  have ip': "first_ipv4 NP ((dv_arena d ! r)\<lparr>p_tunnel := b, p_quota := x\<rparr>) = Some ip" for b x using ip by simp
  show thesis
  proof (rule signal_delivered [OF C link len idx disjI2 [OF refl], where src = client_ip and v = v and addr = addr], goal_cases)
    case (1 a b pay)
    show ?case
      by (rule that [OF 1(1) _ 1(3-5)], rule 1(2)) (simp add: submit_signal [OF len] server_credits [OF w q' submit settles] accepted_sent [OF ip'])
  qed
qed

lemma acceptance_arrives:
  assumes C: "aead_correct C" and link: "linked (Suc k) (p_tunnel p) (p_tunnel (dv_arena d ! r))"
    and idx: "indexed (dv_by_idx d) r (p_tunnel (dv_arena d ! r))" and ip: "ip \<noteq> PAYMENT_GATEWAY_IP"
  obtains a b accept where
    "send_signal C v p (signal_layout PAYMENT_GATEWAY_IP ip (accepted_encode m)) addr = Ok (p\<lparr>p_tunnel := a\<rparr>, [SendTo addr accept])"
    "udp_packet C E NP sk pk limiter v' d addr' accept = Some (Ok (store_peer d r ((dv_arena d ! r)\<lparr>p_tunnel := b\<rparr>), [], False))"
proof -
  have len: "length (accepted_encode m) \<le> 452" using accepted_codec.length_enc [OF TrueI] by simp
  show thesis
  proof (rule signal_delivered [OF C link len idx disjI1 [OF refl], where dst = ip and v = v and addr = addr], goal_cases)
    case (1 a b accept)
    show ?case by (rule that [OF 1(1)], rule 1(2)) (simp add: required_signal [OF len ip] client_acknowledges)
  qed
qed

lemma pay_and_accept:
  assumes C: "aead_correct C" and link: "linked 2 (p_tunnel pc) (p_tunnel (dv_arena ds ! rs))"
    and rs: "rs < length (dv_arena ds)" and rc: "rc < length (dv_arena dc)"
    and idx: "indexed (dv_by_idx ds) rs (p_tunnel (dv_arena ds ! rs))" "indexed (dv_by_idx dc) rc (p_tunnel pc)"
    and ip: "first_ipv4 NPs (dv_arena ds ! rs) = Some ip" "ip \<noteq> PAYMENT_GATEWAY_IP"
    and w: "dv_wallet ds = Some ws" and q: "p_quota (dv_arena ds ! rs) = Some q"
    and submit: "wf_submit submit" "ps_to submit = ethereum_address ws"
      "amount_per_quota (dv_config ds) \<le> ps_value submit" "ps_nonce submit \<notin> used_nonces q"
      "verify_authorization E (gateway_domain (dv_config ds)) (submit_authorization submit) = Some (ps_from submit)"
    and settles: "\<And>request. \<exists>resp. ev_settle vb request = Ok resp \<and> rs_success resp"
  obtains b pay ds2 accept dc2 where
    "send_signal C va pc (signal_layout client_ip PAYMENT_GATEWAY_IP (submit_encode submit)) server_addr = Ok (pc\<lparr>p_tunnel := b\<rparr>, [SendTo server_addr pay])"
    "udp_packet C E NPs sks pks ls vb ds client_addr pay = Some (Ok (ds2, [SendTo client_addr accept], False))"
    "udp_packet C E NPc skc pkc lc vc (store_peer dc rc (pc\<lparr>p_tunnel := b\<rparr>)) server_addr accept = Some (Ok (dc2, [], False))"
    "p_quota (dv_arena ds2 ! rs) = Some (credit (fst (check_and_record_nonce q (ps_nonce submit))) (quota_bytes (dv_config ds)))"
proof -
  let ?m = "accepted_encode \<lparr>pa_new_quota_bytes = quota_bytes (dv_config ds)\<rparr>"
  let ?q = "credit (fst (check_and_record_nonce q (ps_nonce submit))) (quota_bytes (dv_config ds))"
  have link2: "linked (Suc 1) (p_tunnel pc) (p_tunnel (dv_arena ds ! rs))" using link by (simp add: numeral_2_eq_2)
  obtain b a pay where pay:
      "send_signal C va pc (signal_layout client_ip PAYMENT_GATEWAY_IP (submit_encode submit)) server_addr = Ok (pc\<lparr>p_tunnel := b\<rparr>, [SendTo server_addr pay])"
      "\<And>p' fx. send_signal C vb ((dv_arena ds ! rs)\<lparr>p_tunnel := a, p_quota := Some ?q\<rparr>) (signal_layout PAYMENT_GATEWAY_IP ip ?m) client_addr = Ok (p', fx)
         \<Longrightarrow> udp_packet C E NPs sks pks ls vb ds client_addr pay = Some (Ok (store_peer ds rs p', fx, False))"
      "linked 1 b a" "\<And>m i. indexed m i (p_tunnel pc) \<Longrightarrow> indexed m i b"
    by (rule payment_arrives [OF C link2 idx(1) w q ip(1) submit settles, where v = va and client_ip = client_ip and addr = server_addr
          and addr' = client_addr and sk = sks and pk = pks and limiter = ls]) blast
  let ?dc = "store_peer dc rc (pc\<lparr>p_tunnel := b\<rparr>)"
  let ?ps = "(dv_arena ds ! rs)\<lparr>p_tunnel := a, p_quota := Some ?q\<rparr>"
  have client: "linked (Suc 0) (p_tunnel ?ps) (p_tunnel (dv_arena ?dc ! rc))" "indexed (dv_by_idx ?dc) rc (p_tunnel (dv_arena ?dc ! rc))"
    using linked_sym [OF pay(3)] pay(4) [OF idx(2)] rc by simp_all
  obtain a' b' accept where accept:
      "send_signal C vb ?ps (signal_layout PAYMENT_GATEWAY_IP ip ?m) client_addr = Ok (?ps\<lparr>p_tunnel := a'\<rparr>, [SendTo client_addr accept])"
      "udp_packet C E NPc skc pkc lc vc ?dc server_addr accept = Some (Ok (store_peer ?dc rc ((dv_arena ?dc ! rc)\<lparr>p_tunnel := b'\<rparr>), [], False))"
    by (rule acceptance_arrives [OF C client ip(2)])
  show thesis by (rule that [OF pay(1) pay(2) [OF accept(1)] accept(2)]) (use rs in simp)
qed

text \<open>C2. A payment goes through, end to end. A packet for a client exhausts its quota at the server. The server's datagram, handed
  to the client, makes the client send one datagram; handed to the server, it is credited: the quota is
  unblocked with one more payment and a full allowance, and the server's acceptance reaches the client. The
  two devices hold the two ends of one session, wallets of valid keys and the same signing domain; the settlement
  service settles; the random nonce was not used before.\<close>

theorem payment_exchange:
  assumes C: "aead_correct C" and E: "eth_correct E"
    and ws: "dv_wallet ds = Some ws" "wf_wallet E ws" and wc: "dv_wallet dc = Some wc" "wf_wallet E wc"
    and rs: "rs < length (dv_arena ds)" and rc: "rc < length (dv_arena dc)"
    and domain: "gateway_domain (dv_config dc) = gateway_domain (dv_config ds)" and contract: "length (cfg_usdc_contract (dv_config ds)) = 20"
    and dst: "dst_address src = Ok a" "allowed_find NDs (dv_by_ip ds) a = Some rs" and server: "is_server (dv_config ds)"
    and quota: "p_quota (dv_arena ds ! rs) = Some q" "\<not> is_blocked q" "remaining_bytes q < of_nat (length src)"
    and addr: "ep_addr (p_endpoint (dv_arena ds ! rs)) = Some client_addr"
    and ip: "first_ipv4 NPs (dv_arena ds ! rs) = Some ip" "ip \<noteq> PAYMENT_GATEWAY_IP" "first_ipv4 NPc (dv_arena dc ! rc) = Some client_ip"
    and nonce: "length (ev_nonce va) = 32" "ev_nonce va \<notin> used_nonces q"
    and settles: "\<And>request. \<exists>resp. ev_settle vc request = Ok resp \<and> rs_success resp"
    and link: "linked 3 (p_tunnel (dv_arena ds ! rs)) (p_tunnel (dv_arena dc ! rc))"
    and idx: "indexed (dv_by_idx ds) rs (p_tunnel (dv_arena ds ! rs))" "indexed (dv_by_idx dc) rc (p_tunnel (dv_arena dc ! rc))"
  shows "\<exists>ds1 ask dc1 pay ds2 accept dc2 q2.
      iface_packet C NPs NDs va ds src = Ok (ds1, [SendTo client_addr ask])
    \<and> udp_packet C E NPc skc pkc lc vb dc server_addr ask = Some (Ok (dc1, [SendTo server_addr pay], False))
    \<and> udp_packet C E NPs sks pks ls vc ds1 client_addr pay = Some (Ok (ds2, [SendTo client_addr accept], False))
    \<and> udp_packet C E NPc skc pkc lc vd dc1 server_addr accept = Some (Ok (dc2, [], False))
    \<and> p_quota (dv_arena ds2 ! rs) = Some q2 \<and> \<not> is_blocked q2 \<and> remaining_bytes q2 = quota_bytes (dv_config ds)
    \<and> payment_count q2 = payment_count q + 1"
proof -
  let ?ps = "dv_arena ds ! rs"
  let ?pc = "dv_arena dc ! rc"
  define req where "req = \<lparr>pr_amount_usdc = amount_per_quota (dv_config ds), pr_nonce = ev_nonce va, pr_recipient = ethereum_address ws,
    pr_deadline = ev_now va + 300, pr_chain_id = cfg_chain_id (dv_config ds), pr_usdc_contract = cfg_usdc_contract (dv_config ds)\<rparr>"
  have req: "wf_required req" using nonce contract length_ethereum_address [OF E ws(2)] by (simp add: wf_required_def req_def)
  obtain q' where exhausted: "iface_packet C NPs NDs va ds src =
      rbind (send_payment_required C NPs va ds (?ps\<lparr>p_quota := Some q'\<rparr>) client_addr) (\<lambda>(p, fx). Ok (store_peer ds rs p, fx))"
    and q': "remaining_bytes q' = 0" "used_nonces q' = used_nonces q" "payment_count q' = payment_count q"
    by (rule exhausted_asks [OF dst server quota addr])
  let ?ps' = "?ps\<lparr>p_quota := Some q'\<rparr>"
  obtain submit where submit: "sign_submit E (dv_config dc) wc (ev_now vb) req = Ok submit" "wf_submit submit" "ps_from submit = ethereum_address wc"
      "ps_to submit = ethereum_address ws" "ps_value submit = amount_per_quota (dv_config ds)" "ps_nonce submit = ev_nonce va"
      "verify_authorization E (gateway_domain (dv_config ds)) (submit_authorization submit) = Some (ethereum_address wc)"
    using sign_submit_valid [OF E wc(2) req, of "dv_config dc" "ev_now vb"] domain by (auto simp: req_def)
  have link1: "linked (Suc 2) (p_tunnel ?ps') (p_tunnel ?pc)" using link by (simp add: numeral_3_eq_3 numeral_2_eq_2)
  obtain a1 b1 ask where ask:
      "send_signal C va ?ps' (signal_layout PAYMENT_GATEWAY_IP ip (required_encode req)) client_addr = Ok (?ps'\<lparr>p_tunnel := a1\<rparr>, [SendTo client_addr ask])"
      "\<And>p' fx. send_signal C vb (?pc\<lparr>p_tunnel := b1\<rparr>) (signal_layout client_ip PAYMENT_GATEWAY_IP (submit_encode submit)) server_addr = Ok (p', fx)
         \<Longrightarrow> udp_packet C E NPc skc pkc lc vb dc server_addr ask = Some (Ok (store_peer dc rc p', fx, False))"
      "linked 2 a1 b1" "indexed (dv_by_idx dc) rc b1" "\<And>m i. indexed m i (p_tunnel ?ps') \<Longrightarrow> indexed m i a1"
    by (rule request_arrives [OF C link1 idx(2) ip(2) wc(1) req ip(3) submit(1,2), where v = va and addr = client_addr
          and addr' = server_addr and sk = skc and pk = pkc and limiter = lc]) blast
  define ds1 where "ds1 = store_peer ds rs (?ps'\<lparr>p_tunnel := a1\<rparr>)"
  have arena1: "dv_arena ds1 ! rs = ?ps'\<lparr>p_tunnel := a1\<rparr>" using rs by (simp add: ds1_def)
  have idx1: "indexed (dv_by_idx ds) rs a1" using ask(5) idx(1) by simp
  have asked: "iface_packet C NPs NDs va ds src = Ok (ds1, [SendTo client_addr ask])"
    using exhausted required_sent [OF ws(1) _ req [unfolded req_def], where p = ?ps' and NP = NPs and ip = ip] ip(1) ask(1)
    by (simp add: ds1_def req_def)
  obtain b pay ds2 accept dc2 where rest:
      "send_signal C vb (?pc\<lparr>p_tunnel := b1\<rparr>) (signal_layout client_ip PAYMENT_GATEWAY_IP (submit_encode submit)) server_addr
         = Ok (?pc\<lparr>p_tunnel := b1, p_tunnel := b\<rparr>, [SendTo server_addr pay])"
      "udp_packet C E NPs sks pks ls vc ds1 client_addr pay = Some (Ok (ds2, [SendTo client_addr accept], False))"
      "udp_packet C E NPc skc pkc lc vd (store_peer dc rc (?pc\<lparr>p_tunnel := b1, p_tunnel := b\<rparr>)) server_addr accept = Some (Ok (dc2, [], False))"
      "p_quota (dv_arena ds2 ! rs) = Some (credit (fst (check_and_record_nonce q' (ps_nonce submit))) (quota_bytes (dv_config ds1)))"
    by (rule pay_and_accept [where ds = ds1 and pc = "?pc\<lparr>p_tunnel := b1\<rparr>" and dc = dc and rc = rc and rs = rs and q = q' and ws = ws and submit = submit and ip = ip
          and NPs = NPs and C = C and E = E and vb = vc])
      (use C linked_sym [OF ask(3)] rs rc ask(4) idx1 ip ws(1) submit nonce(2) q' settles in \<open>simp_all add: arena1 ds1_def\<close>)
  have "dv_config ds1 = dv_config ds" by (simp add: ds1_def)
  then show ?thesis
    using asked ask(2) [OF rest(1)] rest(2-4) q' by (auto simp: credit_def check_and_record_nonce_def is_blocked_def)
qed

lemma sample_end_linked:
  shows "linked 3 (p_tunnel (dv_arena sample_end ! 0)) (p_tunnel (dv_arena sample_end ! 0))"
    and "indexed (dv_by_idx sample_end) 0 (p_tunnel (dv_arena sample_end ! 0))"
proof -
  let ?t = "p_tunnel (dv_arena sample_end ! 0)"
  let ?s = "session_new 0x301 0x301 (replicate 32 7) (replicate 32 7)"
  have cur: "current_session ?t ?s" by (simp add: sample_end_def current_session_def N_SESSIONS_def local_index_def session_new_def)
  have "sessions_match ?s ?s" by (simp add: sessions_match_def session_new_def)
  moreover have "receives 3 ?s ?s"
    by (auto simp: receives_def session_new_def intro!: exI [of _ "\<lparr>w_next = 0, w_seen = {}\<rparr>"])
  ultimately show "linked 3 ?t ?t" using cur unfolding linked_def by blast
  have "map_of (dv_by_idx sample_end) (drop_bit 8 (receiving_index ?s)) = Some 0" by (simp add: sample_end_def session_new_def)
  then show "indexed (dv_by_idx sample_end) 0 ?t" unfolding indexed_def using current_session_unique [OF cur] by metis
qed

theorem payment_exchange_witness:
  "\<exists>ds1 ask dc1 pay ds2 accept dc2 q2.
      iface_packet toy_crypto list_table list_table sample_env sample_end sample_download = Ok (ds1, [SendTo (V4 1, 2) ask])
    \<and> udp_packet toy_crypto toy_eth list_table [] [] 0 sample_env sample_end (V4 3, 4) ask = Some (Ok (dc1, [SendTo (V4 3, 4) pay], False))
    \<and> udp_packet toy_crypto toy_eth list_table [] [] 0 sample_settled ds1 (V4 1, 2) pay = Some (Ok (ds2, [SendTo (V4 1, 2) accept], False))
    \<and> udp_packet toy_crypto toy_eth list_table [] [] 0 sample_env dc1 (V4 3, 4) accept = Some (Ok (dc2, [], False))
    \<and> p_quota (dv_arena ds2 ! 0) = Some q2 \<and> \<not> is_blocked q2 \<and> remaining_bytes q2 = 10485760 \<and> payment_count q2 = 1"
proof -
  let ?w = "\<lparr>signing_key = replicate 32 9, ethereum_address = replicate 20 9\<rparr> :: payment_wallet"
  have wallet: "dv_wallet sample_end = Some ?w" "wf_wallet toy_eth ?w"
    by (simp_all add: sample_end_def wf_wallet_def compute_address_def toy_eth_def)
  have config: "dv_config sample_end = sample_config" by (simp add: sample_end_def device_new_def)
  have route: "dst_address sample_download = Ok (V4 0x0a000002)" "allowed_find list_table (dv_by_ip sample_end) (V4 0x0a000002) = Some 0"
    "first_ipv4 list_table (dv_arena sample_end ! 0) = Some 0x0a000002"
    by code_simp+
  have quota: "p_quota (dv_arena sample_end ! 0) = Some (new_quota 10)" "ep_addr (p_endpoint (dv_arena sample_end ! 0)) = Some (V4 1, 2)"
    "0 < length (dv_arena sample_end)" by (simp_all add: sample_end_def)
  have small: "remaining_bytes (new_quota 10) < of_nat (length sample_download)" "\<not> is_blocked (new_quota 10)" "(0x0a000002 :: ipv4) \<noteq> PAYMENT_GATEWAY_IP"
    by code_simp+
  have env: "length (ev_nonce sample_env) = 32" "ev_nonce sample_env \<notin> used_nonces (new_quota 10)"
      "\<And>request. \<exists>resp. ev_settle sample_settled request = Ok resp \<and> rs_success resp"
    by (simp_all add: sample_env_def sample_settled_def)
  have cfg: "length (cfg_usdc_contract (dv_config sample_end)) = 20" "is_server (dv_config sample_end)" "quota_bytes (dv_config sample_end) = 10485760"
    by (simp_all add: config sample_config_def)
  show ?thesis
    using payment_exchange [OF toy_crypto_laws(1) toy_eth_correct wallet wallet quota(3) quota(3) refl cfg(1) route(1,2) cfg(2) quota(1) small(2,1)
        quota(2) route(3) small(3) route(3) env sample_end_linked sample_end_linked(2),
        where skc = "[]" and pkc = "[]" and lc = 0 and server_addr = "(V4 3, 4)" and sks = "[]" and pks = "[]" and ls = 0 and vb = sample_env and vd = sample_env]
    unfolding cfg(3) by (simp only: new_quota_sel add_0)
qed

section \<open>Acceptance\<close>

lemma accepts_credits:
  assumes "accepts E v d q payload = Some s" and "p_quota p = Some q"
  shows "handle_payment_submit C E NP v d p payload addr = send_payment_accepted C NP v d
      (p\<lparr>p_quota := Some (credit (q\<lparr>used_nonces := insert (ps_nonce s) (used_nonces q)\<rparr>) (quota_bytes (dv_config d)))\<rparr>) addr"
proof -
  obtain w where w: "dv_wallet d = Some w" "submit_decode payload = Ok s" using assms(1) by (auto simp: accepts_def split: option.splits rust.splits if_splits)
  then have s: "ps_to s = ethereum_address w" "\<not> ps_value s < amount_per_quota (dv_config d)" "ps_nonce s \<notin> used_nonces q"
      "verify_authorization E (gateway_domain (dv_config d)) (submit_authorization s) = Some (ps_from s)"
      "dv_settlement d = None \<or> (\<exists>resp. ev_settle v (build_settle_request E (dv_config d) s (ethereum_address w)) = Ok resp \<and> rs_success resp)"
    using assms(1) by (auto simp: accepts_def split: if_splits rust.splits)
  then show ?thesis
    using w assms(2) by (cases "dv_settlement d") (auto simp: handle_payment_submit_def check_and_record_nonce_def credit_peer_def Let_def)
qed

text \<open>C33. A message credits the quota exactly when it is an acceptable payment. Then one quota is added, the peer is
  unblocked, the payment is counted and its nonce is used up. Any other message, valid or not, leaves
  the allowance, the blocking and the counts as they are and is not answered.\<close>

theorem submit_credited_exactly:
  assumes "handle_payment_submit C E NP v d p payload addr = Ok (p', fx)" and "p_quota p = Some q"
  shows "\<exists>q'. p_quota p' = Some q' \<and>
    (case accepts E v d q payload of
       Some s \<Rightarrow> q' = \<lparr>remaining_bytes = remaining_bytes q + quota_bytes (dv_config d), blocked = False, total_consumed = total_consumed q,
                     payment_count = payment_count q + 1, used_nonces = insert (ps_nonce s) (used_nonces q)\<rparr>
     | None \<Rightarrow> remaining_bytes q' = remaining_bytes q \<and> blocked q' = blocked q \<and> total_consumed q' = total_consumed q
         \<and> payment_count q' = payment_count q \<and> fx = [])"
proof (cases "accepts E v d q payload")
  case (Some s)
  then show ?thesis using assms(1) send_accepted_quiet by (fastforce simp: accepts_credits [OF Some assms(2)] credit_def)
next
  case None
  show ?thesis using assms
  proof (cases rule: submit_cases)
    case (credited w s)
    then show ?thesis using None by (auto simp: accepts_def)
  qed (use None assms(2) in \<open>auto simp: check_and_record_nonce_def\<close>)
qed

theorem submit_credited_exactly_witness:
  "\<exists>p' fx q'. handle_payment_submit toy_crypto toy_eth list_table sample_env sample_end (dv_arena sample_end ! 0) [] (V4 1, 2) = Ok (p', fx)
    \<and> p_quota p' = Some q' \<and> remaining_bytes q' = 10 \<and> fx = []"
proof -
  have quota: "p_quota (dv_arena sample_end ! 0) = Some (new_quota 10)" by (simp add: sample_end_def)
  have none: "accepts toy_eth sample_env sample_end (new_quota 10) [] = None"
    using submit_codec.dec_short [of "[]"] by (simp add: accepts_def split: option.split)
  have res: "handle_payment_submit toy_crypto toy_eth list_table sample_env sample_end (dv_arena sample_end ! 0) [] (V4 1, 2) = Ok (dv_arena sample_end ! 0, [])"
    using submit_codec.dec_short [of "[]"] by (simp add: handle_payment_submit_def split: option.split)
  show ?thesis using submit_credited_exactly [OF res quota] none res by auto
qed

text \<open>C34. A failed settlement strands the peer. When a blocked peer's valid payment meets a settlement service that fails
  once, its nonce is used up all the same: the peer stays blocked, sending the same payment again is ignored even
  if the service now settles, and no packet of the peer and no packet for it makes the server ask again.\<close>

theorem failed_settlement_strands_peer:
  assumes "dv_wallet d = Some w" and "submit_decode payload = Ok s" and "ps_to s = ethereum_address w"
    and "amount_per_quota (dv_config d) \<le> ps_value s" and "p_quota p = Some q" and "is_blocked q"
    and "verify_authorization E (gateway_domain (dv_config d)) (submit_authorization s) = Some (ps_from s)"
    and "dv_settlement d = Some url" and "ev_settle v (build_settle_request E (dv_config d) s (ethereum_address w)) = Err e"
    and "is_server (dv_config d)"
  shows "\<exists>p' q'. handle_payment_submit C E NP v d p payload addr = Ok (p', []) \<and> p_quota p' = Some q' \<and> is_blocked q'
    \<and> (\<forall>v' addr'. handle_payment_submit C E NP v' d p' payload addr' = Ok (p', []))
    \<and> (\<forall>v' packet src addr'. \<not> is_payment_signal packet \<longrightarrow> (\<exists>skip. tunnel_v4 C E NP v' d p' packet src addr' = Ok (p', [], skip)))
    \<and> (\<forall>v' packet a r. dst_address packet = Ok a \<and> allowed_find ND (dv_by_ip d) a = Some r \<and> dv_arena d ! r = p'
         \<longrightarrow> iface_packet C NP ND v' d packet = Ok (d, []))"
proof -
  let ?q = "q\<lparr>used_nonces := insert (ps_nonce s) (used_nonces q)\<rparr>"
  have price: "\<not> ps_value s < amount_per_quota (dv_config d)" using assms(4) by simp
  have first: "handle_payment_submit C E NP v d p payload addr = Ok (p\<lparr>p_quota := Some ?q\<rparr>, [])"
    using assms price by (simp add: handle_payment_submit_def check_and_record_nonce_def Let_def)
  have again: "handle_payment_submit C E NP v' d (p\<lparr>p_quota := Some ?q\<rparr>) payload addr' = Ok (p\<lparr>p_quota := Some ?q\<rparr>, [])" for v' addr'
    using assms(1-4) price by (simp add: handle_payment_submit_def check_and_record_nonce_def insert_absorb Let_def)
  have blocked: "is_blocked ?q" using assms(6) by (simp add: is_blocked_def)
  have inbound: "\<exists>skip. tunnel_v4 C E NP v' d (p\<lparr>p_quota := Some ?q\<rparr>) packet src addr' = Ok (p\<lparr>p_quota := Some ?q\<rparr>, [], skip)"
    if "\<not> is_payment_signal packet" for v' packet src addr'
    using assms(10) blocked that by (auto simp: tunnel_v4_def)
  have outbound: "iface_packet C NP ND v' d packet = Ok (d, [])"
    if "dst_address packet = Ok a" "allowed_find ND (dv_by_ip d) a = Some r" "dv_arena d ! r = p\<lparr>p_quota := Some ?q\<rparr>" for v' packet a r
    using assms(10) blocked that by (simp add: iface_packet_def)
  show ?thesis
    by (rule exI [of _ "p\<lparr>p_quota := Some ?q\<rparr>"], rule exI [of _ ?q]) (use first again blocked inbound outbound in auto)
qed

lemma sample_wallet:
  "wf_wallet toy_eth \<lparr>signing_key = replicate 32 9, ethereum_address = replicate 20 9\<rparr>"
  "dv_wallet sample_end = Some \<lparr>signing_key = replicate 32 9, ethereum_address = replicate 20 9\<rparr>"
  "dv_config sample_end = sample_config"
  by (simp_all add: sample_end_def device_new_def wf_wallet_def compute_address_def toy_eth_def)

text \<open>A payment of the sample wallet to itself.\<close>

lemma sample_payment:
  obtains s where "wf_submit s" "ps_to s = replicate 20 9" "ps_value s = amount_per_quota sample_config" "ps_from s = replicate 20 9"
    "verify_authorization toy_eth (gateway_domain sample_config) (submit_authorization s) = Some (ps_from s)" "submit_decode (submit_encode s) = Ok s"
proof -
  let ?req = "\<lparr>pr_amount_usdc = amount_per_quota sample_config, pr_nonce = replicate 32 5, pr_recipient = replicate 20 9,
    pr_deadline = 0, pr_chain_id = 0, pr_usdc_contract = replicate 20 0\<rparr>"
  have req: "wf_required ?req" by (simp add: wf_required_def)
  show thesis
  proof (rule sign_submit_valid [OF toy_eth_correct sample_wallet(1) req, where cfg = sample_config and now = 0], goal_cases)
    case (1 s)
    then show ?case using that [of s] submit_codec.dec_enc [OF 1(2), of "[]"] by simp
  qed
qed

theorem failed_settlement_strands_peer_witness:
  "\<exists>payload p' q'. handle_payment_submit toy_crypto toy_eth list_table sample_env (sample_end\<lparr>dv_settlement := Some []\<rparr>)
       ((dv_arena sample_end ! 0)\<lparr>p_quota := Some ((new_quota 0)\<lparr>blocked := True\<rparr>)\<rparr>) payload (V4 1, 2) = Ok (p', [])
     \<and> p_quota p' = Some q' \<and> is_blocked q'
     \<and> handle_payment_submit toy_crypto toy_eth list_table sample_settled (sample_end\<lparr>dv_settlement := Some []\<rparr>) p' payload (V4 1, 2) = Ok (p', [])"
proof -
  let ?d = "sample_end\<lparr>dv_settlement := Some []\<rparr>"
  let ?q = "(new_quota 0)\<lparr>blocked := True\<rparr>"
  let ?p = "(dv_arena sample_end ! 0)\<lparr>p_quota := Some ?q\<rparr>"
  obtain s where s: "wf_submit s" "ps_to s = replicate 20 9" "ps_value s = amount_per_quota sample_config"
      "verify_authorization toy_eth (gateway_domain sample_config) (submit_authorization s) = Some (ps_from s)" "submit_decode (submit_encode s) = Ok s"
    by (rule sample_payment)
  have d: "dv_wallet ?d = Some \<lparr>signing_key = replicate 32 9, ethereum_address = replicate 20 9\<rparr>" "dv_settlement ?d = Some []"
      "is_server (dv_config ?d)" "amount_per_quota (dv_config ?d) \<le> ps_value s"
      "verify_authorization toy_eth (gateway_domain (dv_config ?d)) (submit_authorization s) = Some (ps_from s)"
    using sample_wallet s by (simp_all add: sample_config_def)
  have to: "ps_to s = ethereum_address (\<lparr>signing_key = replicate 32 9, ethereum_address = replicate 20 9\<rparr> :: payment_wallet)" using s(2) by simp
  have q: "p_quota ?p = Some ?q" "is_blocked ?q" by (simp_all add: is_blocked_def)
  have fails: "ev_settle sample_env request = Err (Http [])" for request by (simp add: sample_env_def)
  show ?thesis
    using failed_settlement_strands_peer [OF d(1) s(5) to d(4) q d(5) d(2) fails d(3), where C = toy_crypto and NP = list_table and addr = "(V4 1, 2)"] by blast
qed

text \<open>C35. The client signs whatever it is asked for: for every request, of any amount and to any recipient, that arrives as a signal, a
  device with a wallet (also one that runs as a server) answers with an authorization over exactly that
  amount to exactly that recipient, which recovers to its own address.\<close>

theorem client_signs_any_request:
  assumes "eth_correct E" and "dv_wallet d = Some w" and "wf_wallet E w" and "wf_required req" and "first_ipv4 NP p = Some ip"
  shows "\<exists>s. handle_payment_signal_client C E NP v d p (required_encode req) addr
        = send_signal C v p (signal_layout ip PAYMENT_GATEWAY_IP (submit_encode s)) addr
      \<and> submit_decode (submit_encode s) = Ok s \<and> ps_value s = pr_amount_usdc req \<and> ps_to s = pr_recipient req \<and> ps_nonce s = pr_nonce req
      \<and> verify_authorization E (gateway_domain (dv_config d)) (submit_authorization s) = Some (ethereum_address w)"
proof (rule sign_submit_valid [OF assms(1,3,4), where cfg = "dv_config d" and now = "ev_now v"], goal_cases)
  case (1 s)
  then show ?case using client_answers [OF assms(2,4,5) 1(1,2)] submit_codec.dec_enc [OF 1(2), of "[]"] by auto
qed

theorem client_signs_any_request_witness:
  "\<exists>s. handle_payment_signal_client toy_crypto toy_eth list_table sample_env sample_end (dv_arena sample_end ! 0)
         (required_encode (sample_required\<lparr>pr_amount_usdc := 0xFFFFFFFFFFFFFFFF\<rparr>)) (V4 1, 2)
        = send_signal toy_crypto sample_env (dv_arena sample_end ! 0) (signal_layout 0x0a000002 PAYMENT_GATEWAY_IP (submit_encode s)) (V4 1, 2)
      \<and> ps_value s = 0xFFFFFFFFFFFFFFFF \<and> ps_to s = replicate 20 0xAA"
proof -
  have req: "wf_required (sample_required\<lparr>pr_amount_usdc := 0xFFFFFFFFFFFFFFFF\<rparr>)" by (simp add: wf_required_def sample_required_def)
  have ip: "first_ipv4 list_table (dv_arena sample_end ! 0) = Some 0x0a000002" by code_simp
  show ?thesis
    using client_signs_any_request [OF toy_eth_correct sample_wallet(2,1) req ip, of toy_crypto sample_env "(V4 1, 2)"]
    by (auto simp: sample_required_def)
qed



end
