(* ===== verification/Net_Text.thy ===== *)
theory Net_Text
  imports Rust_Text Payment_Protocol
begin

text \<open>
  Lines and addresses as text, as the configuration protocol and the registration server read and write
  them: \<^verbatim>\<open>BufRead::read_line\<close> and \<^verbatim>\<open>lines\<close> with their UTF-8 check, \<^verbatim>\<open>String::pop\<close>, \<^verbatim>\<open>split_once\<close>,
  \<^verbatim>\<open>bool::from_str\<close>, and the parser and the printer of \<^verbatim>\<open>std::net\<close> for addresses of both families. The
  lemmas show that what is printed is read back: lines, numbers, IPv4 addresses and their sockets.
\<close>

section \<open>Definitions\<close>

subsection \<open>Lines\<close>

definition newline :: char where "newline = char_of (10 :: nat)"

text \<open>Well-formed UTF-8: no overlong form, no surrogate, nothing above U+10FFFF.\<close>

definition continuation :: "char \<Rightarrow> bool" where
  "continuation c \<longleftrightarrow> 128 \<le> (of_char c :: nat) \<and> of_char c < (192 :: nat)"

fun utf8 :: "string \<Rightarrow> bool" where
  "utf8 [] \<longleftrightarrow> True"
| "utf8 (c # cs) \<longleftrightarrow>
     (let b = of_char c :: nat in
      if b < 128 then utf8 cs
      else if 194 \<le> b \<and> b \<le> 223 then (case cs of d # r \<Rightarrow> continuation d \<and> utf8 r | _ \<Rightarrow> False)
      else if 224 \<le> b \<and> b \<le> 239 then
        (case cs of d # e # r \<Rightarrow>
           continuation d \<and> continuation e \<and> (b = 224 \<longrightarrow> 160 \<le> (of_char d :: nat))
           \<and> (b = 237 \<longrightarrow> of_char d < (160 :: nat)) \<and> utf8 r
         | _ \<Rightarrow> False)
      else if 240 \<le> b \<and> b \<le> 244 then
        (case cs of d # e # f # r \<Rightarrow>
           continuation d \<and> continuation e \<and> continuation f \<and> (b = 240 \<longrightarrow> 144 \<le> (of_char d :: nat))
           \<and> (b = 244 \<longrightarrow> of_char d < (144 :: nat)) \<and> utf8 r
         | _ \<Rightarrow> False)
      else False)"

text \<open>The lines of a stream, each with its newline; the last one may have none.\<close>

fun split_lines :: "string \<Rightarrow> string list" where
  "split_lines [] = []"
| "split_lines (c # cs) =
     (if c = newline then [c] # split_lines cs
      else case split_lines cs of [] \<Rightarrow> [[c]] | w # ws \<Rightarrow> (c # w) # ws)"

text \<open>What successive calls of \<^verbatim>\<open>read_line\<close> give: a line, or an error (\<open>None\<close>) where it is not UTF-8; past the end of
  the list they succeed with nothing.\<close>

definition read_lines :: "string \<Rightarrow> string option list" where
  "read_lines s = map (\<lambda>l. if utf8 l then Some l else None) (split_lines s)"

text \<open>\<^verbatim>\<open>String::pop\<close> removes the last character, whatever it is and however many bytes it has.\<close>

definition pop :: "string \<Rightarrow> string" where
  "pop s = rev (drop 1 (dropWhile continuation (rev s)))"

text \<open>A line of the iterator \<^verbatim>\<open>lines\<close>: without its end, a newline or a carriage return and a newline.\<close>

definition chomp :: "string \<Rightarrow> string" where
  "chomp l =
     (if l \<noteq> [] \<and> last l = newline
      then let m = butlast l in if m \<noteq> [] \<and> last m = char_of (13 :: nat) then butlast m else m
      else l)"

fun split_once :: "char \<Rightarrow> string \<Rightarrow> (string \<times> string) option" where
  "split_once sep [] = None"
| "split_once sep (c # cs) =
     (if c = sep then Some ([], cs) else map_option (\<lambda>(k, v). (c # k, v)) (split_once sep cs))"

definition parse_bool :: "string \<Rightarrow> bool option" where
  "parse_bool s = (if s = ''true'' then Some True else if s = ''false'' then Some False else None)"

definition show_bool :: "bool \<Rightarrow> string" where
  "show_bool b = (if b then ''true'' else ''false'')"

text \<open>ASCII text without control characters: what the protocols write between their newlines.\<close>

definition printable :: "string \<Rightarrow> bool" where
  "printable s \<longleftrightarrow> list_all (\<lambda>c. 32 \<le> (of_char c :: nat) \<and> of_char c \<le> (126 :: nat)) s"

text \<open>The text of some lines.\<close>

definition unlines :: "string list \<Rightarrow> string" where
  "unlines ls = concat (map (\<lambda>l. l @ [newline]) ls)"

subsection \<open>Reading addresses\<close>

text \<open>A parser takes the text that is left and returns what it reads with the text it leaves; \<open>None\<close> leaves the text
  as it was.\<close>

fun read_given_char :: "char \<Rightarrow> string \<Rightarrow> string option" where
  "read_given_char c [] = None"
| "read_given_char c (d # ds) = (if c = d then Some ds else None)"

definition read_separator :: "char \<Rightarrow> nat \<Rightarrow> (string \<Rightarrow> ('a \<times> string) option) \<Rightarrow> string \<Rightarrow> ('a \<times> string) option" where
  "read_separator sep i inner p =
     (if i > 0 then (case read_given_char sep p of None \<Rightarrow> None | Some p \<Rightarrow> inner p) else inner p)"

fun read_digits :: "nat \<Rightarrow> nat \<Rightarrow> nat option \<Rightarrow> nat \<Rightarrow> nat \<Rightarrow> string \<Rightarrow> (nat \<times> nat \<times> string) option" where
  "read_digits radix bound digits n count [] = Some (n, count, [])"
| "read_digits radix bound digits n count (c # cs) =
     (case to_digit radix c of
        None \<Rightarrow> Some (n, count, c # cs)
      | Some d \<Rightarrow>
          if n * radix + d > bound \<or> (case digits of Some m \<Rightarrow> count + 1 > m | None \<Rightarrow> False) then None
          else read_digits radix bound digits (n * radix + d) (count + 1) cs)"

definition read_number :: "nat \<Rightarrow> nat \<Rightarrow> nat option \<Rightarrow> bool \<Rightarrow> string \<Rightarrow> (nat \<times> string) option" where
  "read_number radix bound digits allow_zero_prefix p =
     (case read_digits radix bound digits 0 0 p of
        None \<Rightarrow> None
      | Some (n, count, q) \<Rightarrow>
          if count = 0 then None
          else if \<not> allow_zero_prefix \<and> hd p = CHR ''0'' \<and> count > 1 then None
          else Some (n, q))"

fun read_octets :: "nat \<Rightarrow> nat \<Rightarrow> string \<Rightarrow> (bytes \<times> string) option" where
  "read_octets i 0 p = Some ([], p)"
| "read_octets i (Suc k) p =
     (case read_separator CHR ''.'' i (read_number 10 255 (Some 3) False) p of
        None \<Rightarrow> None
      | Some (n, p) \<Rightarrow> map_option (\<lambda>(ns, p). (of_nat n # ns, p)) (read_octets (Suc i) k p))"

definition read_ipv4_addr :: "string \<Rightarrow> (ipv4 \<times> string) option" where
  "read_ipv4_addr p = map_option (\<lambda>(os, p). (from_be os, p)) (read_octets 0 4 p)"

text \<open>At most \<open>limit\<close> groups from the \<open>i\<close>th on; an embedded IPv4 address stands for the last two.\<close>

fun read_groups :: "nat \<Rightarrow> nat \<Rightarrow> nat \<Rightarrow> string \<Rightarrow> u16 list \<times> bool \<times> string" where
  "read_groups limit i 0 p = ([], False, p)"
| "read_groups limit i (Suc k) p =
     (case (if i + 1 < limit then read_separator CHR '':'' i read_ipv4_addr p else None) of
        Some (a, p) \<Rightarrow> ([from_be (take 2 (octets a)), from_be (drop 2 (octets a))], True, p)
      | None \<Rightarrow>
          (case read_separator CHR '':'' i (read_number 16 65535 (Some 4) True) p of
             None \<Rightarrow> ([], False, p)
           | Some (g, p) \<Rightarrow> (case read_groups limit (Suc i) k p of (gs, v4, p) \<Rightarrow> (of_nat g # gs, v4, p))))"

definition of_segments :: "u16 list \<Rightarrow> ipv6" where
  "of_segments gs = from_be (concat (map (be_bytes 2) gs))"

definition read_ipv6_addr :: "string \<Rightarrow> (ipv6 \<times> string) option" where
  "read_ipv6_addr p =
     (case read_groups 8 0 8 p of
        (head, head_ipv4, p) \<Rightarrow>
          if length head = 8 then Some (of_segments head, p)
          else if head_ipv4 then None
          else case Option.bind (read_given_char CHR '':'' p) (read_given_char CHR '':'') of
            None \<Rightarrow> None
          | Some p \<Rightarrow>
              let limit = 8 - (length head + 1) in
              (case read_groups limit 0 limit p of
                 (tail, _, p) \<Rightarrow>
                   Some (of_segments (head @ replicate (8 - length head - length tail) 0 @ tail), p)))"

definition read_ip_addr :: "string \<Rightarrow> (ip_addr \<times> string) option" where
  "read_ip_addr p =
     (case read_ipv4_addr p of
        Some (a, p) \<Rightarrow> Some (V4 a, p)
      | None \<Rightarrow> map_option (\<lambda>(a, p). (V6 a, p)) (read_ipv6_addr p))"

text \<open>A parse succeeds only when it consumes the whole text.\<close>

definition parse_with :: "(string \<Rightarrow> ('a \<times> string) option) \<Rightarrow> string \<Rightarrow> 'a option" where
  "parse_with rd s = (case rd s of Some (a, []) \<Rightarrow> Some a | _ \<Rightarrow> None)"

definition parse_ip_addr :: "string \<Rightarrow> ip_addr option" where
  "parse_ip_addr = parse_with read_ip_addr"

definition read_port :: "string \<Rightarrow> (u16 \<times> string) option" where
  "read_port p =
     (case read_given_char CHR '':'' p of
        None \<Rightarrow> None
      | Some p \<Rightarrow> map_option (\<lambda>(n, p). (of_nat n, p)) (read_number 10 65535 None True p))"

definition read_scope_id :: "string \<Rightarrow> string" where
  "read_scope_id p =
     (case read_given_char CHR ''%'' p of
        None \<Rightarrow> p
      | Some q \<Rightarrow> (case read_number 10 (2 ^ 32 - 1) None True q of None \<Rightarrow> p | Some (_, q) \<Rightarrow> q))"

text \<open>A socket address; the scope of an IPv6 address is read and dropped.\<close>

definition read_socket_addr :: "string \<Rightarrow> ((ip_addr \<times> u16) \<times> string) option" where
  "read_socket_addr p =
     (case Option.bind (read_ipv4_addr p) (\<lambda>(a, p). map_option (\<lambda>(n, p). ((V4 a, n), p)) (read_port p)) of
        Some r \<Rightarrow> Some r
      | None \<Rightarrow>
          Option.bind (read_given_char CHR ''['' p) (\<lambda>p.
          Option.bind (read_ipv6_addr p) (\<lambda>(a, p).
          Option.bind (read_given_char CHR '']'' (read_scope_id p)) (\<lambda>p.
          map_option (\<lambda>(n, p). ((V6 a, n), p)) (read_port p)))))"

definition parse_socket_addr :: "string \<Rightarrow> (ip_addr \<times> u16) option" where
  "parse_socket_addr = parse_with read_socket_addr"

subsection \<open>Printing addresses\<close>

definition hex_digit :: "nat \<Rightarrow> char" where
  "hex_digit n = char_of (if n < 10 then 48 + n else 87 + n)"

fun to_hex :: "nat \<Rightarrow> string" where
  "to_hex n = (if n < 16 then [hex_digit n] else to_hex (n div 16) @ [hex_digit (n mod 16)])"

declare to_hex.simps [simp del]

fun join :: "char \<Rightarrow> string list \<Rightarrow> string" where
  "join sep [] = []"
| "join sep [w] = w"
| "join sep (w # v # vs) = w @ sep # join sep (v # vs)"

definition show_ipv4 :: "ipv4 \<Rightarrow> string" where
  "show_ipv4 a = join CHR ''.'' (map (\<lambda>b. to_dec (unat b)) (octets a))"

fun segments_of :: "bytes \<Rightarrow> u16 list" where
  "segments_of (a # b # bs) = from_be [a, b] # segments_of bs"
| "segments_of _ = []"

text \<open>The longest run of zero segments, the first of them: where it starts and how many segments it has.\<close>

fun longest_zeroes :: "u16 list \<Rightarrow> nat \<Rightarrow> nat \<times> nat \<Rightarrow> nat \<times> nat \<Rightarrow> nat \<times> nat" where
  "longest_zeroes [] i cur best = best"
| "longest_zeroes (s # ss) i (start, len) best =
     (if s = 0
      then let cur = (if len = 0 then i else start, len + 1) in
           longest_zeroes ss (i + 1) cur (if snd cur > snd best then cur else best)
      else longest_zeroes ss (i + 1) (0, 0) best)"

definition show_ipv6 :: "ipv6 \<Rightarrow> string" where
  "show_ipv6 a =
     (let bs = be_bytes 16 a; segments = segments_of bs;
          fmt = (\<lambda>ss. join CHR '':'' (map (\<lambda>s. to_hex (unat s)) ss))
      in if take 12 bs = replicate 10 0 @ [255, 255] then ''::ffff:'' @ show_ipv4 (from_be (drop 12 bs))
         else case longest_zeroes segments 0 (0, 0) (0, 0) of
           (start, len) \<Rightarrow>
             if len > 1 then fmt (take start segments) @ ''::'' @ fmt (drop (start + len) segments)
             else fmt segments)"

fun show_ip :: "ip_addr \<Rightarrow> string" where
  "show_ip (V4 a) = show_ipv4 a"
| "show_ip (V6 a) = show_ipv6 a"

fun show_socket :: "ip_addr \<times> u16 \<Rightarrow> string" where
  "show_socket (V4 a, port) = show_ipv4 a @ CHR '':'' # to_dec (unat port)"
| "show_socket (V6 a, port) = CHR ''['' # show_ipv6 a @ '']:'' @ to_dec (unat port)"

section \<open>Lines\<close>

lemma printable_simps [simp]:
  "printable []" "printable (c # s) \<longleftrightarrow> 32 \<le> (of_char c :: nat) \<and> of_char c \<le> (126 :: nat) \<and> printable s"
  "printable (s @ t) \<longleftrightarrow> printable s \<and> printable t"
  by (auto simp: printable_def)

lemma of_newline [simp]: "of_char newline = (10 :: nat)"
  by (simp add: newline_def)

lemma printable_no_control:
  assumes "printable s" and "(of_char c :: nat) < 32"
  shows "c \<notin> set s"
  using assms by (auto simp: printable_def list_all_iff)

lemma utf8_printable: "printable s \<Longrightarrow> utf8 s"
  by (induction s) auto

lemma utf8_line: "printable s \<Longrightarrow> utf8 (s @ [newline])"
  by (induction s) auto

lemma split_lines_line: "newline \<notin> set l \<Longrightarrow> split_lines (l @ newline # s) = (l @ [newline]) # split_lines s"
  by (induction l) auto

lemma unlines_Cons [simp]: "unlines (l # ls) = l @ newline # unlines ls"
  and unlines_Nil [simp]: "unlines [] = []"
  by (simp_all add: unlines_def)

lemma read_lines_unlines:
  assumes "\<forall>l \<in> set ls. printable l"
  shows "read_lines (unlines ls) = map (\<lambda>l. Some (l @ [newline])) ls"
  using assms
proof (induction ls)
  case (Cons l ls)
  then have "newline \<notin> set l" by (intro printable_no_control) auto
  then show ?case using Cons by (simp add: read_lines_def split_lines_line utf8_line)
qed (simp add: read_lines_def)

lemma not_continuation_newline [simp]: "\<not> continuation newline"
  by (simp add: continuation_def)

lemma pop_line [simp]: "pop (l @ [newline]) = l"
  by (simp add: pop_def)

lemma pop_newline [simp]: "pop [newline] = []"
  using pop_line [of "[]"] by simp

lemma chomp_line: "printable l \<Longrightarrow> chomp (l @ [newline]) = l"
proof -
  assume "printable l"
  then have "char_of (13 :: nat) \<notin> set l" by (rule printable_no_control) simp
  then have "l \<noteq> [] \<Longrightarrow> last l \<noteq> char_of (13 :: nat)" by (metis last_in_set)
  then show ?thesis by (auto simp: chomp_def)
qed

lemma split_once_app: "sep \<notin> set k \<Longrightarrow> split_once sep (k @ sep # v) = Some (k, v)"
  by (induction k) auto

lemma split_once_none: "sep \<notin> set s \<Longrightarrow> split_once sep s = None"
  by (induction s) auto

lemma split_on_single: "sep \<notin> set s \<Longrightarrow> split_on sep s = [s]"
  by (induction s) auto

lemma split_on_app: "sep \<notin> set k \<Longrightarrow> split_on sep (k @ sep # v) = k # split_on sep v"
  by (induction k) auto

lemma parse_show_bool [simp]: "parse_bool (show_bool b) = Some b"
  by (simp add: parse_bool_def show_bool_def)

section \<open>Numbers\<close>

lemma to_dec_digits: "\<forall>c \<in> set (to_dec n). 48 \<le> (of_char c :: nat) \<and> of_char c \<le> (57 :: nat)"
proof (induction n rule: to_dec.induct)
  case (1 n)
  have "(48 + n mod 10) mod 256 = 48 + n mod 10" "48 + n mod 10 \<le> 57" for n :: nat
    using mod_less_divisor [of 10 n] by (simp_all del: mod_less_divisor)
  then show ?case using 1 by (subst to_dec.simps) (auto simp: of_char_of)
qed

lemma printable_to_dec [simp]: "printable (to_dec n)"
  using to_dec_digits [of n] by (auto simp: printable_def list_all_iff)

lemma to_dec_free: "(of_char c :: nat) < 48 \<or> (of_char c :: nat) > 57 \<Longrightarrow> c \<notin> set (to_dec n)"
  using to_dec_digits [of n] by auto

lemma parse_digits_le: "parse_digits base acc s = Some n \<Longrightarrow> 1 \<le> base \<Longrightarrow> acc \<le> n"
proof (induction s arbitrary: acc)
  case (Cons c s)
  then obtain d where d: "to_digit base c = Some d" "parse_digits base (acc * base + d) s = Some n"
    by (auto split: option.splits)
  have "acc \<le> acc * base" using Cons.prems(2) by simp
  also have "\<dots> \<le> n" using Cons.IH [OF d(2) Cons.prems(2)] by simp
  finally show ?case .
qed simp

lemma read_digits_parse:
  assumes "parse_digits radix acc s = Some n" "n \<le> bound" "1 \<le> radix"
    and "rest = [] \<or> to_digit radix (hd rest) = None"
    and "case digits of Some m \<Rightarrow> count + length s \<le> m | None \<Rightarrow> True"
  shows "read_digits radix bound digits acc count (s @ rest) = Some (n, count + length s, rest)"
  using assms
proof (induction s arbitrary: acc count)
  case Nil
  then show ?case by (cases rest) auto
next
  case (Cons c s)
  then obtain d where d: "to_digit radix c = Some d" "parse_digits radix (acc * radix + d) s = Some n"
    by (auto split: option.splits)
  have "acc * radix + d \<le> bound" using parse_digits_le [OF d(2) Cons.prems(3)] Cons.prems(2) by simp
  then show ?case using Cons.IH [OF d(2) Cons.prems(2,3,4), of "count + 1"] Cons.prems(5) d(1)
    by (auto split: option.splits)
qed

lemma to_dec_zero: "hd (to_dec n) = CHR ''0'' \<Longrightarrow> length (to_dec n) = 1"
proof (induction n rule: to_dec.induct)
  case (1 n)
  show ?case
  proof (cases "n < 10")
    case True
    then show ?thesis by (subst to_dec.simps) simp
  next
    case False
    have hd: "hd (to_dec n) = hd (to_dec (n div 10))"
      using False to_dec_hd [of "n div 10"] by (subst to_dec.simps) simp
    then have one: "length (to_dec (n div 10)) = 1" using 1 False by simp
    have lt: "n div 10 < 10"
    proof (rule ccontr)
      assume "\<not> n div 10 < 10"
      then have "length (to_dec (n div 10)) = Suc (length (to_dec (n div 10 div 10)))"
        by (subst to_dec.simps) simp
      then show False using one to_dec_hd [of "n div 10 div 10"] by simp
    qed
    then have "char_of (48 + n div 10) = CHR ''0''" using hd 1(2) by (simp add: to_dec.simps [of "n div 10"])
    then have "of_char (char_of (48 + n div 10) :: char) = (of_char CHR ''0'' :: nat)" by simp
    then have "n div 10 = 0" using lt by (simp add: of_char_of)
    then show ?thesis using False by simp
  qed
qed

lemma read_number_to_dec:
  assumes "n \<le> bound" and "rest = [] \<or> to_digit 10 (hd rest) = None"
    and "case digits of Some m \<Rightarrow> length (to_dec n) \<le> m | None \<Rightarrow> True"
  shows "read_number 10 bound digits zero (to_dec n @ rest) = Some (n, rest)"
proof -
  have "read_digits 10 bound digits 0 0 (to_dec n @ rest) = Some (n, length (to_dec n), rest)"
    using read_digits_parse [OF parse_to_dec assms(1) _ assms(2), where digits = digits and count = 0] assms(3) by (simp cong: option.case_cong)
  then show ?thesis using to_dec_zero [of n] to_dec_hd [of n] by (auto simp: read_number_def hd_append)
qed

lemma length_to_dec_byte: "n < 1000 \<Longrightarrow> length (to_dec n) \<le> 3"
  by (subst to_dec.simps, subst to_dec.simps, subst to_dec.simps) auto

lemma read_byte:
  assumes "rest = [] \<or> to_digit 10 (hd rest) = None"
  shows "read_number 10 255 (Some 3) zero (to_dec (unat (b :: u8)) @ rest) = Some (unat b, rest)"
proof -
  have "unat b \<le> 255" using unsigned_less [of b, where 'a = nat] by simp
  then show ?thesis using assms length_to_dec_byte [of "unat b"] by (intro read_number_to_dec) auto
qed

section \<open>Addresses\<close>

lemma octets_list: "\<exists>a b c d. octets w = [a, b, c, d]"
  using four_bytes [of "octets w"] by simp

lemma to_digit_dot [simp]: "to_digit 10 CHR ''.'' = None" and to_digit_colon [simp]: "to_digit 10 CHR '':'' = None"
  by (simp_all add: to_digit_def)

lemma read_ipv4_show:
  assumes "rest = [] \<or> to_digit 10 (hd rest) = None"
  shows "read_ipv4_addr (show_ipv4 w @ rest) = Some (w, rest)"
proof -
  obtain a b c d where w: "octets w = [a, b, c, d]" using octets_list by blast
  have "read_octets 0 (Suc (Suc (Suc (Suc 0)))) (show_ipv4 w @ rest) = Some (octets w, rest)"
    using assms by (simp add: show_ipv4_def w read_separator_def read_byte)
  then have "read_octets 0 4 (show_ipv4 w @ rest) = Some (octets w, rest)" by (simp add: eval_nat_numeral)
  moreover have "from_be (octets w) = w" by (simp add: octets_def byte_images)
  ultimately show ?thesis by (simp add: read_ipv4_addr_def)
qed

lemma parse_show_ipv4 [simp]: "parse_ip_addr (show_ipv4 w) = Some (V4 w)"
  using read_ipv4_show [of "[]" w] by (simp add: parse_ip_addr_def parse_with_def read_ip_addr_def)

lemma parse_show_socket [simp]: "parse_socket_addr (show_socket (V4 w, port)) = Some (V4 w, port)"
proof -
  have port: "unat port \<le> 65535" using unsigned_less [of port, where 'a = nat] by simp
  have "read_ipv4_addr (show_ipv4 w @ CHR '':'' # to_dec (unat port)) = Some (w, CHR '':'' # to_dec (unat port))"
    by (rule read_ipv4_show) simp
  moreover have "read_number 10 65535 None True (to_dec (unat port)) = Some (unat port, [])"
    using read_number_to_dec [OF port, where rest = "[]" and digits = None] by simp
  ultimately show ?thesis
    by (simp add: parse_socket_addr_def parse_with_def read_socket_addr_def read_port_def)
qed

lemma show_ipv4_free:
  assumes "(of_char c :: nat) < 48 \<or> (of_char c :: nat) > 57" and "c \<noteq> CHR ''.''"
  shows "c \<notin> set (show_ipv4 w)"
proof -
  obtain x y z t where w: "octets w = [x, y, z, t]" using octets_list by blast
  show ?thesis using assms(2) to_dec_free [OF assms(1)] by (simp add: show_ipv4_def w)
qed

lemma printable_show_ipv4 [simp]: "printable (show_ipv4 w)"
proof -
  obtain x y z t where w: "octets w = [x, y, z, t]" using octets_list by blast
  show ?thesis by (simp add: show_ipv4_def w)
qed

text \<open>Everything that is printed is printable.\<close>

lemma hex_digit_code: "n < 16 \<Longrightarrow> of_char (hex_digit n) = (if n < 10 then 48 + n else 87 + n)"
  by (simp add: hex_digit_def of_char_of)

lemma printable_hex_digit: "n < 16 \<Longrightarrow> 32 \<le> (of_char (hex_digit n) :: nat) \<and> of_char (hex_digit n) \<le> (126 :: nat)"
  by (simp add: hex_digit_code)

lemma printable_to_hex [simp]: "printable (to_hex n)"
proof (induction n rule: to_hex.induct)
  case (1 n)
  then show ?case using printable_hex_digit [of n] printable_hex_digit [of "n mod 16"] by (subst to_hex.simps) auto
qed

lemma printable_join: "32 \<le> (of_char sep :: nat) \<and> of_char sep \<le> (126 :: nat) \<Longrightarrow> \<forall>w \<in> set ws. printable w \<Longrightarrow> printable (join sep ws)"
  by (induction sep ws rule: join.induct) auto

lemma printable_show_ipv6 [simp]: "printable (show_ipv6 a)"
  by (auto simp: show_ipv6_def Let_def intro!: printable_join split: prod.split)

lemma printable_show_ip [simp]: "printable (show_ip a)"
  by (cases a) simp_all

lemma printable_show_socket [simp]: "printable (show_socket s)"
  by (cases s rule: show_socket.cases) simp_all

end
