(* ===== verification/Uapi.thy ===== *)
theory Uapi
  imports Net_Text Device_Peers
begin

text \<open>
  The configuration protocol of the device, a Unix socket on which it is asked for its state (\<^verbatim>\<open>get=1\<close>) or given a
  new one (\<^verbatim>\<open>set=1\<close>): \<^verbatim>\<open>src/protocol/boringtun/src/device/api.rs\<close>, the keys as text of \<^verbatim>\<open>serialization.rs\<close> and the
  allowed addresses as text of \<^verbatim>\<open>device/peer.rs\<close>. A request is the list of the lines that \<^verbatim>\<open>read_line\<close> returns, a command
  runs the operations of \<^verbatim>\<open>Device_Peers\<close> in the order of its lines and answers with an error number.

  Of the crates \<^verbatim>\<open>hex\<close> and \<^verbatim>\<open>base64\<close> the encoders and decoders are parameters; \<open>hex_ok\<close> says what the documentation of \<^verbatim>\<open>hex\<close>
  says, two lower-case digits for each byte. The lemmas show what a request does: a section of a peer, printed, is read
  back and committed as it stands; whatever the text, the tables of the device stay consistent.
\<close>

section \<open>Definitions\<close>

subsection \<open>Keys and addresses as text\<close>

record base64 =
  b64_encode :: "bytes \<Rightarrow> string"
  b64_decode :: "string \<Rightarrow> bytes option"

text \<open>\<^verbatim>\<open>&s[a..b]\<close> on a string: a panic where an end is not the boundary of a character.\<close>

definition char_boundary :: "string \<Rightarrow> nat \<Rightarrow> bool" where
  "char_boundary s i \<longleftrightarrow> i = 0 \<or> i = length s \<or> i < length s \<and> \<not> continuation (s ! i)"

definition str_slice :: "nat \<Rightarrow> nat \<Rightarrow> string \<Rightarrow> (unit, string) rust" where
  "str_slice a b s = (if char_boundary s a \<and> char_boundary s b then range a b s else Panic)"

fun hex_key :: "nat \<Rightarrow> nat \<Rightarrow> string \<Rightarrow> (unit, bytes) rust" where
  "hex_key i 0 s = Ok []"
| "hex_key i (Suc k) s =
     rbind (str_slice (2 * i) (2 * i + 2) s) (\<lambda>t.
     case from_str_radix 16 255 t of
       None \<Rightarrow> Err ()
     | Some n \<Rightarrow> rbind (hex_key (Suc i) k s) (\<lambda>bs. Ok (of_nat n # bs)))"

definition key_bytes_from_str :: "base64 \<Rightarrow> string \<Rightarrow> (unit, bytes) rust" where
  "key_bytes_from_str B s =
     (if length s = 64 then hex_key 0 32 s
      else if length s = 43 \<or> length s = 44
      then case b64_decode B s of
             Some decoded_key \<Rightarrow> if length decoded_key = 32 then Ok decoded_key else Err ()
           | None \<Rightarrow> Ok (replicate 32 0)
      else Err ())"

definition allowed_ip_from_str :: "string \<Rightarrow> allowed_ip option" where
  "allowed_ip_from_str s =
     (case split_on CHR ''/'' s of
        [a, c] \<Rightarrow>
          (case (parse_ip_addr a, parse_u8 c) of
             (Some (V4 addr), Some cidr) \<Rightarrow> if cidr \<le> 32 then Some \<lparr>ai_addr = V4 addr, ai_cidr = cidr\<rparr> else None
           | (Some (V6 addr), Some cidr) \<Rightarrow> if cidr \<le> 128 then Some \<lparr>ai_addr = V6 addr, ai_cidr = cidr\<rparr> else None
           | _ \<Rightarrow> None)
      | _ \<Rightarrow> None)"

subsection \<open>Error numbers\<close>

definition EIO :: nat where "EIO = 5"
definition EINVAL :: nat where "EINVAL = 22"
definition EPROTO :: nat where "EPROTO = 71"
definition EADDRINUSE :: nat where "EADDRINUSE = 98"

subsection \<open>Setting\<close>

text \<open>What the operations of a line draw from their surroundings: the operating system, the node that an automatic
  deposit talks to, random bytes, clocks, and for each socket whether it can be marked.\<close>

datatype udp_sock = Udp4 | Udp6 | Connected nat

record api_env =
  ae_os :: os
  ae_transport :: transport
  ae_secret :: bytes
  ae_nonce_key :: bytes
  ae_time :: nat
  ae_clock :: "nat \<Rightarrow> nat"
  ae_nonce :: bytes
  ae_now :: u64
  ae_mark :: "udp_sock \<Rightarrow> bool"

definition set_fwmark :: "(udp_sock \<Rightarrow> bool) \<Rightarrow> ('a, 'b) device \<Rightarrow> u32 \<Rightarrow> (('a, 'b) device, ('a, 'b) device) rust" where
  "set_fwmark set_mark d mark =
     (let d = d\<lparr>dv_fwmark := Some mark\<rparr> in
      if dv_udp d \<and> \<not> set_mark Udp4 then Err d
      else if dv_udp d \<and> \<not> set_mark Udp6 then Err d
      else if list_all (\<lambda>r. ep_conn (p_endpoint (dv_arena d ! r)) \<longrightarrow> set_mark (Connected r)) (map snd (dv_peers d))
      then Ok d else Err d)"

text \<open>The variables of \<^verbatim>\<open>api_set_peer\<close>.\<close>

record peer_section =
  sec_remove :: bool
  sec_replace_ips :: bool
  sec_endpoint :: "sock_addr option"
  sec_keepalive :: "u16 option"
  sec_public_key :: bytes
  sec_preshared_key :: "bytes option"
  sec_allowed_ips :: "allowed_ip list"

definition section_new :: "bytes \<Rightarrow> peer_section" where
  "section_new pub_key =
     \<lparr>sec_remove = False, sec_replace_ips = False, sec_endpoint = None, sec_keepalive = None,
      sec_public_key = pub_key, sec_preshared_key = None, sec_allowed_ips = []\<rparr>"

definition commit_section ::
    "crypto \<Rightarrow> (unit, 'a) net_table \<Rightarrow> (nat, 'b) net_table \<Rightarrow> api_env \<Rightarrow> peer_section \<Rightarrow> ('a, 'b) device
     \<Rightarrow> (unit, ('a, 'b) device) rust" where
  "commit_section C NP ND v s d =
     update_peer C NP ND (ae_os v) d (sec_public_key s) (sec_remove s) (sec_replace_ips s) (sec_endpoint s)
       (sec_allowed_ips s) (sec_keepalive s) (sec_preshared_key s)
       (ae_secret v) (ae_nonce_key v) (ae_time v) (ae_clock v)"

text \<open>The fields of a section but \<^verbatim>\<open>public_key\<close>; \<open>Err\<close> is an invalid value or an unknown field.\<close>

definition section_field :: "base64 \<Rightarrow> string \<Rightarrow> string \<Rightarrow> peer_section \<Rightarrow> (unit, peer_section) rust" where
  "section_field B key val s =
     (if key = ''remove'' then
        (case parse_bool val of Some b \<Rightarrow> Ok (s\<lparr>sec_remove := b\<rparr>) | None \<Rightarrow> Err ())
      else if key = ''preshared_key'' then
        rbind (key_bytes_from_str B val) (\<lambda>k. Ok (s\<lparr>sec_preshared_key := Some k\<rparr>))
      else if key = ''endpoint'' then
        (case parse_socket_addr val of Some addr \<Rightarrow> Ok (s\<lparr>sec_endpoint := Some addr\<rparr>) | None \<Rightarrow> Err ())
      else if key = ''persistent_keepalive_interval'' then
        (case parse_u16 val of Some interval \<Rightarrow> Ok (s\<lparr>sec_keepalive := Some interval\<rparr>) | None \<Rightarrow> Err ())
      else if key = ''replace_allowed_ips'' then
        (case parse_bool val of Some b \<Rightarrow> Ok (s\<lparr>sec_replace_ips := b\<rparr>) | None \<Rightarrow> Err ())
      else if key = ''allowed_ip'' then
        (case allowed_ip_from_str val of
           Some ip \<Rightarrow> Ok (s\<lparr>sec_allowed_ips := sec_allowed_ips s @ [ip]\<rparr>) | None \<Rightarrow> Err ())
      else if key = ''protocol_version'' then
        (case parse_u32 val of Some version \<Rightarrow> if version = 1 then Ok s else Err () | None \<Rightarrow> Err ())
      else Err ())"

fun api_set_peer ::
    "crypto \<Rightarrow> base64 \<Rightarrow> (unit, 'a) net_table \<Rightarrow> (nat, 'b) net_table \<Rightarrow> (nat \<Rightarrow> api_env) \<Rightarrow> string option list
     \<Rightarrow> peer_section \<Rightarrow> ('a, 'b) device \<Rightarrow> (unit, nat \<times> ('a, 'b) device) rust" where
  "api_set_peer C B NP ND V [] s d = rbind (commit_section C NP ND (V 0) s d) (\<lambda>d. Ok (0, d))"
| "api_set_peer C B NP ND V (None # reader) s d = Ok (0, d)"
| "api_set_peer C B NP ND V (Some line # reader) s d =
     (let cmd = pop line in
      if cmd = [] then rbind (commit_section C NP ND (V 0) s d) (\<lambda>d. Ok (0, d))
      else case split_once CHR ''='' cmd of
        None \<Rightarrow> Ok (EPROTO, d)
      | Some (key, val) \<Rightarrow>
          if key = ''public_key'' then
            rbind (commit_section C NP ND (V 0) s d) (\<lambda>d.
            let s = s\<lparr>sec_allowed_ips := []\<rparr> in
            case key_bytes_from_str B val of
              Ok key_bytes \<Rightarrow> api_set_peer C B NP ND (\<lambda>i. V (Suc i)) reader (s\<lparr>sec_public_key := key_bytes\<rparr>) d
            | Err _ \<Rightarrow> Ok (EINVAL, d)
            | Panic \<Rightarrow> Panic)
          else case section_field B key val s of
              Ok s \<Rightarrow> api_set_peer C B NP ND (\<lambda>i. V (Suc i)) reader s d
            | Err _ \<Rightarrow> Ok (EINVAL, d)
            | Panic \<Rightarrow> Panic)"

fun api_set ::
    "crypto \<Rightarrow> eth_crypto \<Rightarrow> base64 \<Rightarrow> (unit, 'a) net_table \<Rightarrow> (nat, 'b) net_table \<Rightarrow> (nat \<Rightarrow> api_env)
     \<Rightarrow> string option list \<Rightarrow> ('a, 'b) device \<Rightarrow> (unit, nat \<times> ('a, 'b) device) rust" where
  "api_set C E B NP ND V [] d = Ok (0, d)"
| "api_set C E B NP ND V (None # reader) d = Ok (0, d)"
| "api_set C E B NP ND V (Some line # reader) d =
     (let cmd = pop line; v = V 0; more = api_set C E B NP ND (\<lambda>i. V (Suc i)) reader in
      if cmd = [] then Ok (0, d)
      else case split_on CHR ''='' cmd of
        [key, val] \<Rightarrow>
          if key = ''private_key'' then
            (case key_bytes_from_str B val of
               Ok key_bytes \<Rightarrow>
                 rbind (set_key C E (ae_transport v) d key_bytes (ae_secret v) (ae_nonce_key v) (ae_clock v)
                          (ae_nonce v) (ae_now v)) (\<lambda>(d, _). more d)
             | Err _ \<Rightarrow> Ok (EINVAL, d)
             | Panic \<Rightarrow> Panic)
          else if key = ''listen_port'' then
            (case parse_u16 val of
               Some port \<Rightarrow>
                 (case open_listen_socket (ae_os v) d port of
                    Ok d \<Rightarrow> more d | Err d \<Rightarrow> Ok (EADDRINUSE, d) | Panic \<Rightarrow> Panic)
             | None \<Rightarrow> Ok (EINVAL, d))
          else if key = ''fwmark'' then
            (case parse_u32 val of
               Some mark \<Rightarrow>
                 (case set_fwmark (ae_mark v) d mark of
                    Ok d \<Rightarrow> more d | Err d \<Rightarrow> Ok (EADDRINUSE, d) | Panic \<Rightarrow> Panic)
             | None \<Rightarrow> Ok (EINVAL, d))
          else if key = ''replace_peers'' then
            (case parse_bool val of
               Some True \<Rightarrow> more (clear_peers ND d) | Some False \<Rightarrow> more d | None \<Rightarrow> Ok (EINVAL, d))
          else if key = ''public_key'' then
            (case key_bytes_from_str B val of
               Ok key_bytes \<Rightarrow> api_set_peer C B NP ND (\<lambda>i. V (Suc i)) reader (section_new key_bytes) d
             | Err _ \<Rightarrow> Ok (EINVAL, d)
             | Panic \<Rightarrow> Panic)
          else Ok (EINVAL, d)
      | _ \<Rightarrow> Ok (EPROTO, d))"

subsection \<open>Getting\<close>

definition field_line :: "string \<Rightarrow> string \<Rightarrow> string" where
  "field_line key val = key @ CHR ''='' # val"

definition opt_line :: "'a option \<Rightarrow> ('a \<Rightarrow> string list) \<Rightarrow> string list" where
  "opt_line x f = (case x of Some a \<Rightarrow> f a | None \<Rightarrow> [])"

definition quota_lines :: "quota \<Rightarrow> string list" where
  "quota_lines q =
     [field_line ''quota_remaining'' (to_dec (unat (remaining_bytes q))),
      field_line ''quota_blocked'' (show_bool (is_blocked q)),
      field_line ''quota_total_consumed'' (to_dec (unat (total_consumed q))),
      field_line ''quota_payment_count'' (to_dec (unat (payment_count q)))]"

text \<open>The lines of one peer; the clock is read for \<^verbatim>\<open>time_since_last_handshake\<close> and again by \<^verbatim>\<open>stats\<close>.\<close>

definition peer_lines ::
    "eth_crypto \<Rightarrow> (unit, 'a) net_table \<Rightarrow> (nat \<Rightarrow> nat) \<Rightarrow> bytes \<Rightarrow> 'a peer \<Rightarrow> (unit, string list) rust" where
  "peer_lines E NP clk k p =
     rbind (rmap_err (\<lambda>_. ()) (time_since_last_handshake (p_tunnel p) (clk 0))) (\<lambda>time.
     rbind (rmap_err (\<lambda>_. ()) (time_since_last_handshake (p_tunnel p) (clk 1))) (\<lambda>_.
     Ok ([field_line ''public_key'' (hex_encode E k)]
       @ opt_line (p_preshared_key p) (\<lambda>key. [field_line ''preshared_key'' (hex_encode E key)])
       @ opt_line (persistent_keepalive (p_tunnel p))
           (\<lambda>keepalive. [field_line ''persistent_keepalive_interval'' (to_dec (unat keepalive))])
       @ opt_line (ep_addr (p_endpoint p)) (\<lambda>addr. [field_line ''endpoint'' (show_socket addr)])
       @ map (\<lambda>(ip, cidr). field_line ''allowed_ip'' (show_ip ip @ CHR ''/'' # to_dec (unat cidr))) (allowed_ips NP p)
       @ opt_line time (\<lambda>time.
           [field_line ''last_handshake_time_sec'' (to_dec (time div 1000000000)),
            field_line ''last_handshake_time_nsec'' (to_dec (time mod 1000000000))])
       @ [field_line ''rx_bytes'' (to_dec (unat (rx_bytes (p_tunnel p)))),
          field_line ''tx_bytes'' (to_dec (unat (tx_bytes (p_tunnel p))))]
       @ opt_line (p_quota p) quota_lines)))"

fun peers_lines ::
    "eth_crypto \<Rightarrow> (unit, 'a) net_table \<Rightarrow> (nat \<Rightarrow> nat) \<Rightarrow> 'a peer list \<Rightarrow> (bytes \<times> nat) list \<Rightarrow> (unit, string list) rust" where
  "peers_lines E NP clk arena [] = Ok []"
| "peers_lines E NP clk arena ((k, r) # ps) =
     rbind (peer_lines E NP clk k (arena ! r)) (\<lambda>ls.
     rbind (peers_lines E NP (\<lambda>i. clk (i + 2)) arena ps) (\<lambda>ms. Ok (ls @ ms)))"

definition api_get ::
    "eth_crypto \<Rightarrow> (unit, 'a) net_table \<Rightarrow> (nat \<Rightarrow> nat) \<Rightarrow> ('a, 'b) device \<Rightarrow> (unit, string list) rust" where
  "api_get E NP clk d =
     rbind (peers_lines E NP clk (dv_arena d) (dv_peers d)) (\<lambda>ls.
     Ok (opt_line (dv_key_pair d) (\<lambda>(_, public). [field_line ''own_public_key'' (hex_encode E public)])
       @ (if dv_listen_port d \<noteq> 0 then [field_line ''listen_port'' (to_dec (unat (dv_listen_port d)))] else [])
       @ opt_line (dv_fwmark d) (\<lambda>fwmark. [field_line ''fwmark'' (to_dec (unat fwmark))])
       @ ls))"

subsection \<open>Connections\<close>

text \<open>A connection: the request is read, the answer ends with the status and an empty line; \<open>None\<close> in place of an answer
  is a command line that could not be read, on which the handler of an inherited descriptor leaves its loop.\<close>

definition serve_api ::
    "crypto \<Rightarrow> eth_crypto \<Rightarrow> base64 \<Rightarrow> (unit, 'a) net_table \<Rightarrow> (nat, 'b) net_table \<Rightarrow> (nat \<Rightarrow> api_env)
     \<Rightarrow> string \<Rightarrow> ('a, 'b) device \<Rightarrow> (unit, ('a, 'b) device \<times> string option) rust" where
  "serve_api C E B NP ND V request d =
     (let answer = (\<lambda>ls status. Some (unlines (ls @ [field_line ''errno'' (to_dec status), []])));
          (first, reader) = (case read_lines request of [] \<Rightarrow> (Some [], []) | l # r \<Rightarrow> (l, r))
      in case first of
           None \<Rightarrow> Ok (d, None)
         | Some line \<Rightarrow>
             let cmd = pop line in
             if cmd = ''get=1'' then rbind (api_get E NP (ae_clock (V 0)) d) (\<lambda>ls. Ok (d, answer ls 0))
             else if cmd = ''set=1'' then rbind (api_set C E B NP ND V reader d) (\<lambda>(status, d). Ok (d, answer [] status))
             else Ok (d, answer [] EIO))"

datatype api_action = Continue | Exit

definition api_handler ::
    "crypto \<Rightarrow> eth_crypto \<Rightarrow> base64 \<Rightarrow> (unit, 'a) net_table \<Rightarrow> (nat, 'b) net_table \<Rightarrow> (nat \<Rightarrow> api_env)
     \<Rightarrow> string option \<Rightarrow> ('a, 'b) device \<Rightarrow> (unit, ('a, 'b) device \<times> string option \<times> api_action) rust" where
  "api_handler C E B NP ND V conn d =
     (case conn of
        None \<Rightarrow> Ok (d, None, Continue)
      | Some request \<Rightarrow> rbind (serve_api C E B NP ND V request d) (\<lambda>(d, out). Ok (d, out, Continue)))"

definition api_fd_handler ::
    "crypto \<Rightarrow> eth_crypto \<Rightarrow> base64 \<Rightarrow> (unit, 'a) net_table \<Rightarrow> (nat, 'b) net_table \<Rightarrow> (nat \<Rightarrow> api_env)
     \<Rightarrow> string \<Rightarrow> ('a, 'b) device \<Rightarrow> (unit, ('a, 'b) device \<times> string option \<times> api_action) rust" where
  "api_fd_handler C E B NP ND V request d =
     rbind (serve_api C E B NP ND V request d) (\<lambda>(d, out).
     Ok (d, out, if out = None then Exit else Continue))"

definition monitor_handler :: "bool \<Rightarrow> nat option \<Rightarrow> ('a, 'b) device \<Rightarrow> ('a, 'b) device \<times> api_action" where
  "monitor_handler path_exists iface_mtu d =
     (if \<not> path_exists then (d, Exit)
      else (case iface_mtu of Some mtu \<Rightarrow> d\<lparr>dv_mtu := mtu\<rparr> | None \<Rightarrow> d, Continue))"

subsection \<open>Requests\<close>

text \<open>What \<^verbatim>\<open>hex::encode\<close> is documented to write.\<close>

definition hex_of :: "bytes \<Rightarrow> string" where
  "hex_of bs = concat (map (\<lambda>b. [hex_digit (unat b div 16), hex_digit (unat b mod 16)]) bs)"

definition hex_ok :: "eth_crypto \<Rightarrow> bool" where
  "hex_ok E \<longleftrightarrow> (\<forall>x. hex_encode E x = hex_of x)"

text \<open>The text of a section, after the line of its key, and of a request of some sections. The fields that are printed are
  the ones that differ from a new section.\<close>

definition section_lines :: "peer_section \<Rightarrow> string list" where
  "section_lines s =
     (if sec_remove s then [field_line ''remove'' ''true''] else [])
     @ (if sec_replace_ips s then [field_line ''replace_allowed_ips'' ''true''] else [])
     @ opt_line (sec_preshared_key s) (\<lambda>k. [field_line ''preshared_key'' (hex_of k)])
     @ opt_line (sec_endpoint s) (\<lambda>a. [field_line ''endpoint'' (show_socket a)])
     @ opt_line (sec_keepalive s) (\<lambda>k. [field_line ''persistent_keepalive_interval'' (to_dec (unat k))])
     @ map (\<lambda>ip. field_line ''allowed_ip'' (show_ip (ai_addr ip) @ CHR ''/'' # to_dec (unat (ai_cidr ip)))) (sec_allowed_ips s)"

fun is_v4 :: "ip_addr \<Rightarrow> bool" where
  "is_v4 (V4 _) \<longleftrightarrow> True"
| "is_v4 (V6 _) \<longleftrightarrow> False"

definition section_wf :: "peer_section \<Rightarrow> bool" where
  "section_wf s \<longleftrightarrow> length (sec_public_key s) = 32
     \<and> (case sec_preshared_key s of Some k \<Rightarrow> length k = 32 | None \<Rightarrow> True)
     \<and> (case sec_endpoint s of Some (a, _) \<Rightarrow> is_v4 a | None \<Rightarrow> True)
     \<and> list_all (\<lambda>ip. is_v4 (ai_addr ip) \<and> ai_cidr ip \<le> 32) (sec_allowed_ips s)"

definition set_request :: "peer_section list \<Rightarrow> string" where
  "set_request ss =
     unlines ([''set=1''] @ concat (map (\<lambda>s. field_line ''public_key'' (hex_of (sec_public_key s)) # section_lines s) ss) @ [[]])"

text \<open>What the lines of a section make of the section they start from.\<close>

fun section_read :: "base64 \<Rightarrow> string list \<Rightarrow> peer_section \<Rightarrow> (unit, peer_section) rust" where
  "section_read B [] s = Ok s"
| "section_read B (l # ls) s =
     (case split_once CHR ''='' l of
        None \<Rightarrow> Err ()
      | Some (key, val) \<Rightarrow> if key = ''public_key'' then Err () else rbind (section_field B key val s) (section_read B ls))"

definition section_over :: "peer_section \<Rightarrow> peer_section \<Rightarrow> peer_section" where
  "section_over s s0 =
     \<lparr>sec_remove = sec_remove s0 \<or> sec_remove s, sec_replace_ips = sec_replace_ips s0 \<or> sec_replace_ips s,
      sec_endpoint = (case sec_endpoint s of Some a \<Rightarrow> Some a | None \<Rightarrow> sec_endpoint s0),
      sec_keepalive = (case sec_keepalive s of Some k \<Rightarrow> Some k | None \<Rightarrow> sec_keepalive s0),
      sec_public_key = sec_public_key s0,
      sec_preshared_key = (case sec_preshared_key s of Some k \<Rightarrow> Some k | None \<Rightarrow> sec_preshared_key s0),
      sec_allowed_ips = sec_allowed_ips s0 @ sec_allowed_ips s\<rparr>"

text \<open>The sections that a request commits, each with the number of its lines: every section starts from the fields of the
  one before, without its allowed addresses.\<close>

fun effective :: "peer_section \<Rightarrow> peer_section list \<Rightarrow> (nat \<times> peer_section) list" where
  "effective before [] = []"
| "effective before (s # ss) =
     (let e = section_over s (before\<lparr>sec_public_key := sec_public_key s, sec_allowed_ips := []\<rparr>)
      in (length (section_lines s) + 1, e) # effective e ss)"

fun commit_sections ::
    "crypto \<Rightarrow> (unit, 'a) net_table \<Rightarrow> (nat, 'b) net_table \<Rightarrow> (nat \<Rightarrow> api_env) \<Rightarrow> (nat \<times> peer_section) list
     \<Rightarrow> ('a, 'b) device \<Rightarrow> (unit, ('a, 'b) device) rust" where
  "commit_sections C NP ND V [] d = Ok d"
| "commit_sections C NP ND V ((n, e) # es) d =
     rbind (commit_section C NP ND (V n) e d) (\<lambda>d. commit_sections C NP ND (\<lambda>i. V (i + n)) es d)"

text \<open>Connections one after the other, as the steps of a machine; a panic ends them.\<close>

definition api_step ::
    "crypto \<Rightarrow> eth_crypto \<Rightarrow> base64 \<Rightarrow> (unit, 'a) net_table \<Rightarrow> (nat, 'b) net_table \<Rightarrow> (unit, ('a, 'b) device) rust
     \<Rightarrow> (nat \<Rightarrow> api_env) \<times> string \<Rightarrow> (unit, ('a, 'b) device) rust \<times> string option" where
  "api_step C E B NP ND st x =
     (case rbind st (serve_api C E B NP ND (fst x) (snd x)) of
        Ok (d, out) \<Rightarrow> (Ok d, out) | Err e \<Rightarrow> (Err e, None) | Panic \<Rightarrow> (Panic, None))"

definition tables_consistent :: "('a \<Rightarrow> ip_network \<Rightarrow> unit option) \<Rightarrow> ('b \<Rightarrow> ip_network \<Rightarrow> nat option) \<Rightarrow> ('a, 'b) device \<Rightarrow> bool" where
  "tables_consistent EP ED d \<longleftrightarrow> (\<exists>n. dev_ok EP ED n d)"

text \<open>What the buffered reader yields for lines that were written.\<close>

abbreviation as_read :: "string list \<Rightarrow> string option list" where
  "as_read ls \<equiv> map (\<lambda>l. Some (l @ [newline])) ls"

text \<open>A surrounding in which everything succeeds, and a device that has a key and no peer.\<close>

definition sample_base64 :: base64 where
  "sample_base64 = \<lparr>b64_encode = map (\<lambda>b. char_of (unat b)), b64_decode = (\<lambda>s. if CHR ''*'' \<in> set s then None else Some (as_bytes s))\<rparr>"

definition sample_api :: api_env where
  "sample_api = \<lparr>ae_os = \<lparr>os_shutdown = True, os_connect = (\<lambda>_ _ _. Ok ()), os_bind = Ok\<rparr>, ae_transport = (\<lambda>_ _. Panic),
     ae_secret = [], ae_nonce_key = [], ae_time = 0, ae_clock = (\<lambda>_. 0), ae_nonce = [], ae_now = 0, ae_mark = (\<lambda>_. True)\<rparr>"

definition keyed_device :: "((ip_network \<times> unit) list, (ip_network \<times> nat) list) device" where
  "keyed_device = (device_new list_table \<lparr>initial = 5, lfsr = 5, mask = 7\<rparr> True 1420 sample_config)
     \<lparr>dv_key_pair := Some (replicate 32 1, pubkey toy_crypto (replicate 32 1))\<rparr>"

section \<open>Keys\<close>

lemma to_digit_hex: "n < 16 \<Longrightarrow> to_digit 16 (hex_digit n) = Some n"
  by (auto simp: to_digit_def Let_def hex_digit_code)

lemma hex_of_simps [simp]:
  "hex_of [] = []" "hex_of (b # bs) = hex_digit (unat b div 16) # hex_digit (unat b mod 16) # hex_of bs"
  by (simp_all add: hex_of_def)

lemma unat_byte_div: "unat (b :: u8) div 16 < 16"
  using unsigned_less [of b, where 'a = nat] by simp

lemma length_hex_of [simp]: "length (hex_of bs) = 2 * length bs"
  by (induction bs) auto

lemma hex_of_codes: "\<forall>c \<in> set (hex_of bs). 48 \<le> (of_char c :: nat) \<and> of_char c \<le> (102 :: nat) \<and> c \<noteq> CHR ''=''"
proof -
  have digit: "48 \<le> (of_char (hex_digit n) :: nat) \<and> of_char (hex_digit n) \<le> (102 :: nat) \<and> hex_digit n \<noteq> CHR ''=''"
    if "n < 16" for n
  proof -
    have "hex_digit n \<noteq> CHR ''=''"
    proof
      assume "hex_digit n = CHR ''=''"
      then have "of_char (hex_digit n) = (of_char CHR ''='' :: nat)" by simp
      then show False using that by (auto simp: hex_digit_code split: if_splits)
    qed
    then show ?thesis using that by (auto simp: hex_digit_code)
  qed
  show ?thesis by (induction bs) (use digit [OF unat_byte_div] digit [OF mod_less_divisor] in auto)
qed

lemma printable_hex_of [simp]: "printable (hex_of bs)"
  unfolding printable_def list_all_iff
proof
  fix c assume "c \<in> set (hex_of bs)"
  then have "48 \<le> (of_char c :: nat) \<and> of_char c \<le> (102 :: nat)" using hex_of_codes by blast
  then show "32 \<le> (of_char c :: nat) \<and> of_char c \<le> (126 :: nat)" by linarith
qed

lemma hex_of_no_eq [simp]: "CHR ''='' \<notin> set (hex_of bs)"
  using hex_of_codes by blast

lemma printable_boundary: "printable s \<Longrightarrow> i \<le> length s \<Longrightarrow> char_boundary s i"
proof (cases "i < length s")
  case True
  moreover assume "printable s"
  ultimately have "(of_char (s ! i) :: nat) \<le> 126" by (simp add: printable_def list_all_length)
  then show ?thesis using True by (simp add: char_boundary_def continuation_def)
qed (simp add: char_boundary_def)

lemma hex_of_pair: "i < length bs \<Longrightarrow> take 2 (drop (2 * i) (hex_of bs)) = hex_of [bs ! i]"
proof (induction bs arbitrary: i)
  case (Cons b bs)
  then show ?case by (cases i) (auto simp: numeral_2_eq_2)
qed simp

lemma from_str_radix_hex: "from_str_radix 16 255 (hex_of [b]) = Some (unat b)"
proof -
  have le: "unat b \<le> 255" using unsigned_less [of b, where 'a = nat] by simp
  have "hex_digit (unat b div 16) \<noteq> CHR ''+''"
  proof
    assume "hex_digit (unat b div 16) = CHR ''+''"
    then have "of_char (hex_digit (unat b div 16)) = (of_char CHR ''+'' :: nat)" by simp
    then show False using unat_byte_div [of b] by (auto simp: hex_digit_code split: if_splits)
  qed
  then show ?thesis using le unat_byte_div [of b] by (simp add: from_str_radix_def to_digit_hex)
qed

lemma hex_key_hex_of: "i + k = length bs \<Longrightarrow> hex_key i k (hex_of bs) = Ok (drop i bs)"
proof (induction k arbitrary: i)
  case (Suc k)
  have "str_slice (2 * i) (2 * i + 2) (hex_of bs) = Ok (hex_of [bs ! i])"
    using Suc.prems hex_of_pair [of i bs] by (simp add: str_slice_def range_def printable_boundary)
  then show ?case using Suc from_str_radix_hex [of "bs ! i"] by (simp add: Cons_nth_drop_Suc del: hex_of_simps)
qed simp

lemma key_bytes_hex_of [simp]: "length k = 32 \<Longrightarrow> key_bytes_from_str B (hex_of k) = Ok k"
  using hex_key_hex_of [of 0 32 k] by (simp add: key_bytes_from_str_def)

section \<open>Sections\<close>

lemma parse_u8_to_dec [simp]: "parse_u8 (to_dec (unat w)) = Some w"
proof -
  have "unat w \<le> 2 ^ 8 - 1" using unsigned_less [of w, where 'a = nat] by simp
  then show ?thesis by (simp only: parse_u8_def from_str_radix_to_dec) simp
qed

lemma parse_u16_to_dec [simp]: "parse_u16 (to_dec (unat w)) = Some w"
proof -
  have "unat w \<le> 2 ^ 16 - 1" using unsigned_less [of w, where 'a = nat] by simp
  then show ?thesis by (simp only: parse_u16_def from_str_radix_to_dec) simp
qed

lemma allowed_ip_show:
  assumes "is_v4 (ai_addr ip)" and "ai_cidr ip \<le> 32"
  shows "allowed_ip_from_str (show_ip (ai_addr ip) @ CHR ''/'' # to_dec (unat (ai_cidr ip))) = Some ip"
proof -
  obtain a where a: "ai_addr ip = V4 a" using assms(1) by (cases "ai_addr ip") auto
  have "CHR ''/'' \<notin> set (show_ipv4 a)" "CHR ''/'' \<notin> set (to_dec n)" for n
    by (rule show_ipv4_free, simp_all, rule to_dec_free, simp)
  then show ?thesis using assms(2) a by (cases ip) (simp add: allowed_ip_from_str_def split_on_app split_on_single)
qed

lemma split_field_line: "CHR ''='' \<notin> set key \<Longrightarrow> split_once CHR ''='' (field_line key val) = Some (key, val)"
  by (simp add: field_line_def split_once_app)

lemma field_line_not_empty [simp]: "field_line key val \<noteq> []" "[] \<noteq> field_line key val"
  by (simp_all add: field_line_def)

lemma section_read_append: "section_read B (ls @ ms) s = rbind (section_read B ls s) (section_read B ms)"
proof (induction ls arbitrary: s)
  case (Cons l ls)
  then show ?case by (cases "split_once CHR ''='' l") (auto, rename_tac k v, case_tac "section_field B k v s", auto)
qed simp

lemma section_read_ips:
  assumes "list_all (\<lambda>ip. is_v4 (ai_addr ip) \<and> ai_cidr ip \<le> 32) ips"
  shows "section_read B (map (\<lambda>ip. field_line ''allowed_ip'' (show_ip (ai_addr ip) @ CHR ''/'' # to_dec (unat (ai_cidr ip)))) ips) s
    = Ok (s\<lparr>sec_allowed_ips := sec_allowed_ips s @ ips\<rparr>)"
  using assms
proof (induction ips arbitrary: s)
  case (Cons ip ips)
  then show ?case using allowed_ip_show [of ip] by (simp add: split_field_line section_field_def)
qed simp

lemma show_bool_True: "parse_bool ''true'' = Some True"
  by (simp add: parse_bool_def)

lemma section_read_lines:
  assumes "section_wf s"
  shows "section_read B (section_lines s) s0 = Ok (section_over s s0)"
proof -
  have psk: "sec_preshared_key s = Some k \<Longrightarrow> length k = 32" for k using assms by (auto simp: section_wf_def)
  have ep: "sec_endpoint s = Some (a, p) \<Longrightarrow> \<exists>w. a = V4 w" for a p
    using assms by (cases a) (auto simp: section_wf_def)
  have ips: "list_all (\<lambda>ip. is_v4 (ai_addr ip) \<and> ai_cidr ip \<le> 32) (sec_allowed_ips s)" using assms by (simp add: section_wf_def)
  have step1: "section_read B (opt_line (sec_preshared_key s) (\<lambda>k. [field_line ''preshared_key'' (hex_of k)])) t
      = Ok (t\<lparr>sec_preshared_key := case sec_preshared_key s of Some k \<Rightarrow> Some k | None \<Rightarrow> sec_preshared_key t\<rparr>)" for t
    using psk by (cases "sec_preshared_key s") (simp_all add: opt_line_def split_field_line section_field_def)
  have step2: "section_read B (opt_line (sec_endpoint s) (\<lambda>a. [field_line ''endpoint'' (show_socket a)])) t
      = Ok (t\<lparr>sec_endpoint := case sec_endpoint s of Some k \<Rightarrow> Some k | None \<Rightarrow> sec_endpoint t\<rparr>)" for t
    using ep by (cases "sec_endpoint s") (auto simp: opt_line_def split_field_line section_field_def simp del: show_socket.simps)
  have step3: "section_read B (opt_line (sec_keepalive s) (\<lambda>k. [field_line ''persistent_keepalive_interval'' (to_dec (unat k))])) t
      = Ok (t\<lparr>sec_keepalive := case sec_keepalive s of Some k \<Rightarrow> Some k | None \<Rightarrow> sec_keepalive t\<rparr>)" for t
    by (cases "sec_keepalive s") (simp_all add: opt_line_def split_field_line section_field_def)
  have flags: "section_read B (if b then [field_line ''remove'' ''true''] else []) t = Ok (t\<lparr>sec_remove := sec_remove t \<or> b\<rparr>)"
    "section_read B (if b then [field_line ''replace_allowed_ips'' ''true''] else []) t = Ok (t\<lparr>sec_replace_ips := sec_replace_ips t \<or> b\<rparr>)" for b t
    by (simp_all add: split_field_line section_field_def show_bool_True)
  show ?thesis
    by (cases s0) (simp add: section_lines_def section_read_append flags step1 step2 step3 section_read_ips [OF ips]
      section_over_def cong: option.case_cong)
qed

lemma api_set_peer_lines:
  assumes "section_read B ls s = Ok s'"
  shows "api_set_peer C B NP ND V (as_read ls @ reader) s d = api_set_peer C B NP ND (\<lambda>i. V (i + length ls)) reader s' d"
  using assms
proof (induction ls arbitrary: V s)
  case (Cons l ls)
  then obtain key val t where l: "split_once CHR ''='' l = Some (key, val)" "key \<noteq> ''public_key''"
    "section_field B key val s = Ok t" "section_read B ls t = Ok s'"
    by (auto simp: rbind_eq_Ok split: option.splits if_splits)
  have "l \<noteq> []" using l(1) by auto
  then show ?case using l Cons.IH [OF l(4), of "\<lambda>i. V (Suc i)"] by simp
qed simp

lemma api_set_peer_sections:
  assumes "section_wf s" "\<forall>s \<in> set ss. section_wf s"
  shows "api_set_peer C B NP ND (\<lambda>i. V (Suc i))
      (as_read (section_lines s @ concat (map (\<lambda>s. field_line ''public_key'' (hex_of (sec_public_key s)) # section_lines s) ss) @ [[]]))
      (before\<lparr>sec_public_key := sec_public_key s, sec_allowed_ips := []\<rparr>) d
    = rbind (commit_sections C NP ND V (effective before (s # ss)) d) (\<lambda>d. Ok (0, d))"
  using assms
proof (induction ss arbitrary: s V before d)
  case Nil
  show ?case
    by (simp add: api_set_peer_lines [OF section_read_lines [OF Nil.prems(1)]])
      (cases "commit_section C NP ND (V (Suc (length (section_lines s))))
        (section_over s (before\<lparr>sec_public_key := sec_public_key s, sec_allowed_ips := []\<rparr>)) d"; simp)
next
  case (Cons s2 ss)
  let ?e = "section_over s (before\<lparr>sec_public_key := sec_public_key s, sec_allowed_ips := []\<rparr>)"
  let ?n = "Suc (length (section_lines s))"
  have wf: "section_wf s2" "\<forall>s \<in> set ss. section_wf s" "length (sec_public_key s2) = 32"
    using Cons.prems by (simp_all add: section_wf_def)
  have "CHR ''='' \<notin> set ''public_key''" by simp
  note key = split_field_line [OF this]
  have upd: "?e\<lparr>sec_allowed_ips := [], sec_public_key := sec_public_key s2\<rparr> = ?e\<lparr>sec_public_key := sec_public_key s2, sec_allowed_ips := []\<rparr>"
    by simp
  show ?case
  proof (cases "commit_section C NP ND (V ?n) ?e d")
    case (Ok d')
    show ?thesis using Cons.IH [OF wf(1,2), of "\<lambda>i. V (i + ?n)" ?e d'] Ok
      by (simp add: api_set_peer_lines [OF section_read_lines [OF Cons.prems(1)]] key wf(3) Let_def upd)
  qed (simp_all add: api_set_peer_lines [OF section_read_lines [OF Cons.prems(1)]] key Let_def)
qed

lemma printable_section_lines: "l \<in> set (section_lines s) \<Longrightarrow> printable l"
  by (auto simp: section_lines_def opt_line_def field_line_def split: if_splits option.splits)

lemma serve_set:
  assumes "read_lines request = Some l # reader" "pop l = ''set=1''"
  shows "serve_api C E B NP ND V request d =
    rbind (api_set C E B NP ND V reader d) (\<lambda>(status, d). Ok (d, Some (unlines [field_line ''errno'' (to_dec status), []])))"
  using assms by (simp add: serve_api_def)

lemma serve_get:
  assumes "read_lines request = Some l # reader" "pop l = ''get=1''"
  shows "serve_api C E B NP ND V request d =
    rbind (api_get E NP (ae_clock (V 0)) d) (\<lambda>ls. Ok (d, Some (unlines (ls @ [field_line ''errno'' (to_dec 0), []]))))"
  using assms by (simp add: serve_api_def)

lemma errno_0: "field_line ''errno'' (to_dec 0) = ''errno=0''"
  by code_simp

lemma set_request_served:
  assumes "ss \<noteq> []" "\<forall>s \<in> set ss. section_wf s"
  shows "serve_api C E B NP ND V (set_request ss) d
    = rbind (commit_sections C NP ND V (effective (section_new []) ss) d) (\<lambda>d. Ok (d, Some (unlines [''errno=0'', []])))"
proof -
  obtain s rest where ss: "ss = s # rest" using assms(1) by (cases ss) auto
  let ?body = "section_lines s @ concat (map (\<lambda>s. field_line ''public_key'' (hex_of (sec_public_key s)) # section_lines s) rest) @ [[]]"
  have "\<forall>l \<in> set (''set=1'' # field_line ''public_key'' (hex_of (sec_public_key s)) # ?body). printable l"
    by (auto simp: field_line_def dest: printable_section_lines)
  then have "read_lines (set_request ss) = as_read (''set=1'' # field_line ''public_key'' (hex_of (sec_public_key s)) # ?body)"
    unfolding set_request_def ss by (subst read_lines_unlines) auto
  then have lines: "read_lines (set_request ss) = Some (''set=1'' @ [newline]) # as_read (field_line ''public_key'' (hex_of (sec_public_key s)) # ?body)"
    by (simp only: list.map)
  have "split_on CHR ''='' (field_line ''public_key'' (hex_of (sec_public_key s))) = [''public_key'', hex_of (sec_public_key s)]"
    by (simp add: field_line_def split_on_single)
  then have "api_set C E B NP ND V (as_read (field_line ''public_key'' (hex_of (sec_public_key s)) # ?body)) d
      = api_set_peer C B NP ND (\<lambda>i. V (Suc i)) (as_read ?body) (section_new (sec_public_key s)) d"
    using assms(2) ss by (simp add: section_wf_def)
  also have "\<dots> = rbind (commit_sections C NP ND V (effective (section_new []) ss) d) (\<lambda>d. Ok (0, d))"
    using api_set_peer_sections [of s rest C B NP ND V "section_new []" d] assms(2) ss by (simp add: section_new_def)
  finally have "api_set C E B NP ND V (as_read (field_line ''public_key'' (hex_of (sec_public_key s)) # ?body)) d
      = rbind (commit_sections C NP ND V (effective (section_new []) ss) d) (\<lambda>d. Ok (0, d))" .
  then show ?thesis unfolding serve_set [OF lines pop_line]
    by (cases "commit_sections C NP ND V (effective (section_new []) ss) d") (simp_all only: rbind.simps prod.case errno_0)
qed

section \<open>What every request keeps\<close>

text \<open>One line of a \<^verbatim>\<open>set\<close> request.\<close>

lemma api_set_line:
  assumes "pop line \<noteq> []" "split_on CHR ''='' (pop line) = [key, val]"
  shows "key = ''private_key'' \<Longrightarrow> api_set C E B NP ND V (Some line # reader) d =
      (case key_bytes_from_str B val of
         Ok key_bytes \<Rightarrow>
           rbind (set_key C E (ae_transport (V 0)) d key_bytes (ae_secret (V 0)) (ae_nonce_key (V 0)) (ae_clock (V 0))
                    (ae_nonce (V 0)) (ae_now (V 0))) (\<lambda>(d, _). api_set C E B NP ND (\<lambda>i. V (Suc i)) reader d)
       | Err _ \<Rightarrow> Ok (EINVAL, d)
       | Panic \<Rightarrow> Panic)"
    and "key = ''listen_port'' \<Longrightarrow> api_set C E B NP ND V (Some line # reader) d =
      (case parse_u16 val of
         Some port \<Rightarrow> (case open_listen_socket (ae_os (V 0)) d port of
           Ok d \<Rightarrow> api_set C E B NP ND (\<lambda>i. V (Suc i)) reader d | Err d \<Rightarrow> Ok (EADDRINUSE, d) | Panic \<Rightarrow> Panic)
       | None \<Rightarrow> Ok (EINVAL, d))"
    and "key = ''fwmark'' \<Longrightarrow> api_set C E B NP ND V (Some line # reader) d =
      (case parse_u32 val of
         Some mark \<Rightarrow> (case set_fwmark (ae_mark (V 0)) d mark of
           Ok d \<Rightarrow> api_set C E B NP ND (\<lambda>i. V (Suc i)) reader d | Err d \<Rightarrow> Ok (EADDRINUSE, d) | Panic \<Rightarrow> Panic)
       | None \<Rightarrow> Ok (EINVAL, d))"
    and "key = ''replace_peers'' \<Longrightarrow> api_set C E B NP ND V (Some line # reader) d =
      (case parse_bool val of
         Some b \<Rightarrow> api_set C E B NP ND (\<lambda>i. V (Suc i)) reader (if b then clear_peers ND d else d)
       | None \<Rightarrow> Ok (EINVAL, d))"
    and "key = ''public_key'' \<Longrightarrow> api_set C E B NP ND V (Some line # reader) d =
      (case key_bytes_from_str B val of
         Ok key_bytes \<Rightarrow> api_set_peer C B NP ND (\<lambda>i. V (Suc i)) reader (section_new key_bytes) d
       | Err _ \<Rightarrow> Ok (EINVAL, d)
       | Panic \<Rightarrow> Panic)"
    and "key \<notin> {''private_key'', ''listen_port'', ''fwmark'', ''replace_peers'', ''public_key''} \<Longrightarrow>
      api_set C E B NP ND V (Some line # reader) d = Ok (EINVAL, d)"
  using assms by (simp_all add: Let_def split: option.split bool.split)

text \<open>A property of devices that the operations keep is kept by every request, whatever its text.\<close>

locale kept_by_operations =
  fixes C :: crypto and E :: eth_crypto and NP :: "(unit, 'a) net_table" and ND :: "(nat, 'b) net_table"
    and P :: "('a, 'b) device \<Rightarrow> bool"
  assumes keeps_update: "P d \<Longrightarrow> update_peer C NP ND os d pk rm rp addr ips ka psk rs rk st clk = Ok d' \<Longrightarrow> P d'"
    and keeps_clear: "P d \<Longrightarrow> P (clear_peers ND d)"
    and keeps_key: "P d \<Longrightarrow> set_key C E T d sk rs rk clk nonce now = Ok (d', requests) \<Longrightarrow> P d'"
    and keeps_listen: "P d \<Longrightarrow> open_listen_socket os d port = Ok d' \<or> open_listen_socket os d port = Err d' \<Longrightarrow> P d'"
    and keeps_mark: "P d \<Longrightarrow> P (d\<lparr>dv_fwmark := m\<rparr>)"
begin

lemma commit_keeps: "P d \<Longrightarrow> commit_section C NP ND v s d = Ok d' \<Longrightarrow> P d'"
  unfolding commit_section_def by (rule keeps_update)

lemma fwmark_keeps: "P d \<Longrightarrow> set_fwmark M d mark = Ok d' \<or> set_fwmark M d mark = Err d' \<Longrightarrow> P d'"
  using keeps_mark by (auto simp: set_fwmark_def Let_def split: if_splits)

lemma set_peer_keeps: "P d \<Longrightarrow> api_set_peer C B NP ND V reader s d = Ok (status, d') \<Longrightarrow> P d'"
proof (induction reader arbitrary: V s d)
  case Nil
  then show ?case using commit_keeps by (auto simp: Let_def rbind_eq_Ok)
next
  case (Cons l reader)
  note step = commit_keeps [OF Cons.prems(1)]
  show ?case
  proof (cases l)
    case None
    then show ?thesis using Cons.prems by simp
  next
    case (Some line)
    show ?thesis
    proof (cases "split_once CHR ''='' (pop line)")
      case None
      then show ?thesis using Cons.prems Some step by (auto simp: Let_def rbind_eq_Ok split: if_splits)
    next
      case (Some kv)
      then have "pop line \<noteq> []" by auto
      with Some obtain key val where kv: "split_once CHR ''='' (pop line) = Some (key, val)" "pop line \<noteq> []" by (cases kv) auto
      show ?thesis
      proof (cases "key = ''public_key''")
        case True
        then obtain d1 where d1: "commit_section C NP ND (V 0) s d = Ok d1"
          using Cons.prems(2) kv \<open>l = Some line\<close> by (auto simp: Let_def rbind_eq_Ok)
        show ?thesis
          by (cases "key_bytes_from_str B val") (use True d1 Cons.prems(2) kv \<open>l = Some line\<close> Cons.IH [OF step [OF d1]] step [OF d1] in \<open>auto simp: Let_def\<close>)
      next
        case False
        then show ?thesis
          by (cases "section_field B key val s") (use Cons.prems kv \<open>l = Some line\<close> Cons.IH [OF Cons.prems(1)] in \<open>auto simp: Let_def\<close>)
      qed
    qed
  qed
qed

lemma set_line_keeps:
  assumes IH: "\<And>V d. P d \<Longrightarrow> api_set C E B NP ND V reader d = Ok (status, d') \<Longrightarrow> P d'"
    and "P d" and "split_on CHR ''='' (pop line) = [key, val]" and "pop line \<noteq> []"
    and "api_set C E B NP ND V (Some line # reader) d = Ok (status, d')"
  shows "P d'"
proof -
  note line = api_set_line [OF assms(4,3)] and now = assms(5)
  consider "key = ''private_key''" | "key = ''listen_port''" | "key = ''fwmark''" | "key = ''replace_peers''" | "key = ''public_key''"
    | "key \<notin> {''private_key'', ''listen_port'', ''fwmark'', ''replace_peers'', ''public_key''}" by force
  then show ?thesis
  proof cases
    case 1
    from now [unfolded line(1) [OF 1]] show ?thesis using assms(2)
      by (auto simp: rbind_eq_Ok split: rust.splits intro: IH [OF keeps_key [OF assms(2)]])
  next
    case 2
    from now [unfolded line(2) [OF 2]] show ?thesis using assms(2)
      by (auto split: option.splits rust.splits intro: IH [OF keeps_listen [OF assms(2)]] keeps_listen [OF assms(2)])
  next
    case 3
    from now [unfolded line(3) [OF 3]] show ?thesis using assms(2)
      by (auto split: option.splits rust.splits intro: IH [OF fwmark_keeps [OF assms(2)]] fwmark_keeps [OF assms(2)])
  next
    case 4
    from now [unfolded line(4) [OF 4]] show ?thesis using assms(2)
      by (auto split: option.splits if_splits intro: IH [OF keeps_clear [OF assms(2)]] IH [OF assms(2)])
  next
    case 5
    from now [unfolded line(5) [OF 5]] show ?thesis using assms(2)
      by (auto split: rust.splits intro: set_peer_keeps [OF assms(2)])
  next
    case 6
    from now [unfolded line(6) [OF 6]] show ?thesis using assms(2) by simp
  qed
qed

lemma set_keeps: "P d \<Longrightarrow> api_set C E B NP ND V reader d = Ok (status, d') \<Longrightarrow> P d'"
proof (induction reader arbitrary: V d)
  case (Cons l reader)
  show ?case
  proof (cases l)
    case (Some line)
    show ?thesis
    proof (cases "pop line \<noteq> [] \<and> (\<exists>key val. split_on CHR ''='' (pop line) = [key, val])")
      case True
      then obtain key val where kv: "split_on CHR ''='' (pop line) = [key, val]" "pop line \<noteq> []" by blast
      show ?thesis by (rule set_line_keeps [OF _ Cons.prems(1) kv Cons.prems(2) [unfolded Some]]) (rule Cons.IH)
    next
      case False
      then show ?thesis using Cons.prems Some by (auto simp: Let_def split: list.splits if_splits)
    qed
  qed (use Cons.prems in simp)
qed simp

lemma serve_keeps: "P d \<Longrightarrow> serve_api C E B NP ND V request d = Ok (d', out) \<Longrightarrow> P d'"
  using set_keeps by (auto simp: serve_api_def Let_def rbind_eq_Ok split: prod.splits option.splits if_splits)

lemma run_keeps:
  assumes "P d" "fst (run (api_step C E B NP ND) (Ok d) xs) = Ok d'"
  shows "P d'"
proof -
  have "invariant_machine (api_step C E B NP ND) (\<lambda>_. True) (\<lambda>st. \<forall>d. st = Ok d \<longrightarrow> P d)"
    by unfold_locales (use serve_keeps in \<open>auto simp: api_step_def rbind_eq_Ok split: rust.splits\<close>)
  then show ?thesis using invariant_machine.inv_run [of "api_step C E B NP ND" "\<lambda>_. True" "\<lambda>st. \<forall>d. st = Ok d \<longrightarrow> P d" "Ok d" xs] assms
    by (simp add: list_all_iff)
qed

end

interpretation consistent: kept_by_operations C E NP ND "\<lambda>d. tables_ok NP ND EP ED contains trunc \<longrightarrow> tables_consistent EP ED d"
  for C E and NP :: "(unit, 'a) net_table" and ND :: "(nat, 'b) net_table" and EP ED contains trunc
proof
  fix os d pk rm rp addr ips ka psk rs rk st clk d'
  assume "tables_ok NP ND EP ED contains trunc \<longrightarrow> tables_consistent EP ED d"
    and "update_peer C NP ND os d pk rm rp addr ips ka psk rs rk st clk = Ok d'"
  then show "tables_ok NP ND EP ED contains trunc \<longrightarrow> tables_consistent EP ED d'"
    using mgmt_ok [of EP ED _ d NP contains trunc ND C E "UpdatePeer os pk rm rp addr ips ka psk rs rk st clk"]
    by (auto simp: tables_consistent_def tables_ok_def)
next
  fix d m
  assume "tables_ok NP ND EP ED contains trunc \<longrightarrow> tables_consistent EP ED d"
  then show "tables_ok NP ND EP ED contains trunc \<longrightarrow> tables_consistent EP ED (d\<lparr>dv_fwmark := m\<rparr>)"
    using dev_ok_cong [of "d\<lparr>dv_fwmark := m\<rparr>" d EP ED] by (auto simp: tables_consistent_def)
qed (auto simp: tables_consistent_def tables_ok_def dest: clear_peers_ok set_key_ok open_listen_socket_ok)

section \<open>What a request does\<close>

lemma commit_no_sections: "commit_sections C NP ND V [] = Ok"
  by (simp add: fun_eq_iff)

lemma new_key: "(section_new k)\<lparr>sec_public_key := k', sec_allowed_ips := []\<rparr> = section_new k'"
  by (simp add: section_new_def)

lemma section_over_new: "section_over s (section_new (sec_public_key s)) = s"
  by (cases s) (simp add: section_over_def section_new_def split: option.split)



text \<open>C39. A request that removes one peer and then adds another removes both: the section of the second peer starts from the fields
  of the first, whose \<^verbatim>\<open>remove\<close> stays set. The answer is error number 0.\<close>

theorem removal_reaches_next_peer:
  assumes "length a = 32" "section_wf s" "\<not> sec_remove s"
  shows "serve_api C E B NP ND V (set_request [(section_new a)\<lparr>sec_remove := True\<rparr>, s]) d =
    rbind (remove_peer ND (ae_os (V 2)) d a) (\<lambda>d.
    rbind (remove_peer ND (ae_os (V (length (section_lines s) + 3))) d (sec_public_key s)) (\<lambda>d.
    Ok (d, Some (unlines [''errno=0'', []]))))"
proof -
  let ?a = "(section_new a)\<lparr>sec_remove := True\<rparr>"
  have wf: "\<forall>t \<in> set [?a, s]. section_wf t" using assms by (simp add: section_wf_def section_new_def)
  have n: "length (section_lines ?a) = 1" by (simp add: section_lines_def section_new_def opt_line_def)
  have e: "effective (section_new []) [?a, s] =
      [(2, ?a), (length (section_lines s) + 1, section_over s (?a\<lparr>sec_public_key := sec_public_key s, sec_allowed_ips := []\<rparr>))]"
    using n section_over_new [of ?a] by (simp add: Let_def new_key)
  have "commit_section C NP ND v (section_over s (?a\<lparr>sec_public_key := sec_public_key s, sec_allowed_ips := []\<rparr>)) d
      = remove_peer ND (ae_os v) d (sec_public_key s)" for v d
    by (simp add: commit_section_def update_peer_def section_over_def)
  moreover have "commit_section C NP ND v ?a d = remove_peer ND (ae_os v) d a" for v d
    by (simp add: commit_section_def update_peer_def section_new_def)
  ultimately have "commit_sections C NP ND V (effective (section_new []) [?a, s]) d =
      rbind (remove_peer ND (ae_os (V 2)) d a) (\<lambda>d. rbind (remove_peer ND (ae_os (V (length (section_lines s) + 3))) d (sec_public_key s)) Ok)"
    unfolding e by (cases "remove_peer ND (ae_os (V 2)) d a") (simp_all add: numeral_3_eq_3 commit_no_sections)
  then show ?thesis using set_request_served [OF _ wf, of C E B NP ND V d]
    by (cases "remove_peer ND (ae_os (V 2)) d a")
      (simp_all, rename_tac d1, case_tac "remove_peer ND (ae_os (V (length (section_lines s) + 3))) d1 (sec_public_key s)", simp_all)
qed

theorem removal_reaches_next_peer_witness:
  "\<exists>d d'. sample_device = Ok d
     \<and> serve_api toy_crypto toy_eth sample_base64 list_table list_table (\<lambda>_. sample_api)
         (set_request [(section_new (replicate 32 2))\<lparr>sec_remove := True\<rparr>,
            (section_new (replicate 32 4))\<lparr>sec_allowed_ips := [\<lparr>ai_addr = V4 0x0a000004, ai_cidr = 32\<rparr>]\<rparr>]) d
         = Ok (d', Some (unlines [''errno=0'', []]))
     \<and> map_of (dv_peers d') (replicate 32 2) = None \<and> map_of (dv_peers d') (replicate 32 4) = None"
proof -
  let ?b = "(section_new (replicate 32 4))\<lparr>sec_allowed_ips := [\<lparr>ai_addr = V4 0x0a000004, ai_cidr = 32\<rparr>]\<rparr>"
  have wf: "section_wf ?b" "\<not> sec_remove ?b" "sec_public_key ?b = replicate 32 4" by code_simp+
  have "case sample_device of
      Ok d \<Rightarrow> (case remove_peer list_table (ae_os sample_api) d (replicate 32 2) of
        Ok d \<Rightarrow> (case remove_peer list_table (ae_os sample_api) d (replicate 32 4) of
          Ok d \<Rightarrow> map_of (dv_peers d) (replicate 32 2) = None \<and> map_of (dv_peers d) (replicate 32 4) = None | _ \<Rightarrow> False)
        | _ \<Rightarrow> False)
      | _ \<Rightarrow> False" by code_simp
  then obtain d d1 d2 where d: "sample_device = Ok d" "remove_peer list_table (ae_os sample_api) d (replicate 32 2) = Ok d1"
    "remove_peer list_table (ae_os sample_api) d1 (replicate 32 4) = Ok d2"
    "map_of (dv_peers d2) (replicate 32 2) = None" "map_of (dv_peers d2) (replicate 32 4) = None"
    by (auto split: rust.splits)
  have "serve_api toy_crypto toy_eth sample_base64 list_table list_table (\<lambda>_. sample_api)
      (set_request [(section_new (replicate 32 2))\<lparr>sec_remove := True\<rparr>, ?b]) d = Ok (d2, Some (unlines [''errno=0'', []]))"
    using removal_reaches_next_peer [of "replicate 32 2" ?b toy_crypto toy_eth sample_base64 list_table list_table "\<lambda>_. sample_api" d, OF _ wf(1,2)] d(2,3) wf(3)
    by simp
  then show ?thesis using d by blast
qed

text \<open>A private key of 43 characters that are not base64 is taken as the key of 32 zero bytes, with error number 0.\<close>

theorem invalid_base64_sets_zero_key:
  assumes "length val = 43" "printable val" "CHR ''='' \<notin> set val" "b64_decode B val = None"
  shows "serve_api C E B NP ND V (unlines [''set=1'', field_line ''private_key'' val, []]) d =
    rbind (set_key C E (ae_transport (V 0)) d (replicate 32 0) (ae_secret (V 0)) (ae_nonce_key (V 0)) (ae_clock (V 0))
             (ae_nonce (V 0)) (ae_now (V 0))) (\<lambda>(d, _). Ok (d, Some (unlines [''errno=0'', []])))"
proof -
  have "\<forall>l \<in> set [''set=1'', field_line ''private_key'' val, []]. printable l" using assms(2) by (simp add: field_line_def)
  then have "read_lines (unlines [''set=1'', field_line ''private_key'' val, []]) = as_read [''set=1'', field_line ''private_key'' val, []]"
    by (rule read_lines_unlines)
  then have lines: "read_lines (unlines [''set=1'', field_line ''private_key'' val, []]) =
      Some (''set=1'' @ [newline]) # as_read [field_line ''private_key'' val, []]" by (simp only: list.map)
  have "split_on CHR ''='' (pop (field_line ''private_key'' val @ [newline])) = [''private_key'', val]"
    using assms(3) by (simp only: pop_line) (simp add: field_line_def split_on_single)
  note key = api_set_line(1) [OF _ this refl, of C E B NP ND V "as_read [[]]" d]
  have "key_bytes_from_str B val = Ok (replicate 32 0)" using assms by (simp add: key_bytes_from_str_def)
  then have "api_set C E B NP ND V (as_read [field_line ''private_key'' val, []]) d =
      rbind (set_key C E (ae_transport (V 0)) d (replicate 32 0) (ae_secret (V 0)) (ae_nonce_key (V 0)) (ae_clock (V 0))
             (ae_nonce (V 0)) (ae_now (V 0))) (\<lambda>(d, _). Ok (0, d))"
    using key by (simp only: list.map pop_line) (simp cong: if_cong)
  then show ?thesis unfolding serve_set [OF lines pop_line]
    by (cases "set_key C E (ae_transport (V 0)) d (replicate 32 0) (ae_secret (V 0)) (ae_nonce_key (V 0)) (ae_clock (V 0))
             (ae_nonce (V 0)) (ae_now (V 0))") (auto simp del: list.map simp: errno_0)
qed

end
