(* ===== verification/Registration.thy ===== *)
theory Registration
  imports Complex_Main Uapi
begin

text \<open>
  The registration server, \<^verbatim>\<open>src/protocol/boringtun/src/device/http_api.rs\<close>: clients ask over HTTP for an address of the
  tunnel, the server picks a free one, adds the client to the device over the configuration socket, and a reaper takes back
  the addresses of clients that are gone.

  The state is \<open>reg_state\<close>; the server and the reaper run in threads of their own and their steps interleave, so a machine
  has as operations one HTTP request, the query of the reaper (made without the lock), its sweep (under the lock) and what the
  device does meanwhile. Every exchange with the device goes through its socket as text: the request is printed here, read and
  executed by \<^verbatim>\<open>serve_api\<close>, and the printed answer is read here; a request of this size is written at once, so it reaches the
  device whole or not at all, but its answer can get lost.

  Parameters: \<^verbatim>\<open>serde_json\<close> (\<open>from_json\<close>), \<^verbatim>\<open>hex\<close> and \<^verbatim>\<open>base64\<close>, the answer of World's API, the rounding of 64-bit floating
  point numbers, the clocks, random bytes, and the element that the iteration over a hash set starts with (\<open>re_pick\<close>).
  \<^verbatim>\<open>add_kernel_route\<close>, \<^verbatim>\<open>remove_kernel_route\<close> and \<^verbatim>\<open>extract_pubkey\<close> are not called.
\<close>

section \<open>Definitions\<close>

definition MAX_BODY_BYTES :: nat where "MAX_BODY_BYTES = 8192"
definition STALE_PEER_SECS :: nat where "STALE_PEER_SECS = 600"
definition STALE_NEVER_CONNECTED_SECS :: nat where "STALE_NEVER_CONNECTED_SECS = 600"
definition RATE_LIMIT_PER_SEC :: rat where "RATE_LIMIT_PER_SEC = 1"
definition RATE_LIMIT_BURST :: rat where "RATE_LIMIT_BURST = 10"
definition RATE_LIMITER_PRUNE_SECS :: nat where "RATE_LIMITER_PRUNE_SECS = 300"

definition NANOS :: nat where "NANOS = 1000000000"

subsection \<open>Rate limiting\<close>

text \<open>The tokens are a 64-bit floating point number: every operation on them is rounded by \<open>rnd\<close>. Times are in nanoseconds.\<close>

record token_bucket =
  tokens :: rat
  last_refill :: nat

definition token_bucket_new :: "nat \<Rightarrow> token_bucket" where
  "token_bucket_new now = \<lparr>tokens = RATE_LIMIT_BURST, last_refill = now\<rparr>"

definition as_secs_f64 :: "(rat \<Rightarrow> rat) \<Rightarrow> nat \<Rightarrow> rat" where
  "as_secs_f64 rnd t = rnd (rnd (of_nat (t div NANOS)) + rnd (rnd (of_nat (t mod NANOS)) / rnd (of_nat NANOS)))"

definition try_consume :: "(rat \<Rightarrow> rat) \<Rightarrow> token_bucket \<Rightarrow> nat \<Rightarrow> token_bucket \<times> bool" where
  "try_consume rnd b now =
     (let elapsed = as_secs_f64 rnd (now - last_refill b);
          available = min (rnd (tokens b + rnd (elapsed * RATE_LIMIT_PER_SEC))) RATE_LIMIT_BURST
      in if available \<ge> 1 then (\<lparr>tokens = rnd (available - 1), last_refill = now\<rparr>, True)
         else (\<lparr>tokens = available, last_refill = now\<rparr>, False))"

subsection \<open>State\<close>

record payment_snapshot =
  sn_chain_id :: u64
  sn_gateway_wallet :: bytes
  sn_usdc_contract :: bytes
  sn_amount_per_quota :: u64
  sn_quota_bytes :: u64

text \<open>The map of addresses is the list of its entries in the order of an iteration; keys are written in hexadecimal.\<close>

record reg_inner =
  registered_peers :: "string set"
  available_ips :: "u8 list"
  peer_to_octet :: "(string \<times> u8) list"
  peer_registered_at :: "string \<rightharpoonup> nat"
  server_pubkey_cache :: "string option"
  listen_port_cache :: "u16 option"
  used_nullifiers :: "string set"

record reg_state =
  rg_inner :: reg_inner
  rg_rate_limiter :: "ip_addr \<rightharpoonup> token_bucket"
  subnet_prefix :: "u8 \<times> u8 \<times> u8"
  rg_payment_config :: payment_snapshot
  public_ip :: string
  world_rp_id :: string
  world_action :: string
  world_signing_key :: "bytes option"

definition pool_octets :: "u8 list" where
  "pool_octets = map of_nat [2..<255]"

definition registration_new ::
    "eth_crypto \<Rightarrow> (string \<Rightarrow> string option) \<Rightarrow> u8 \<times> u8 \<times> u8 \<Rightarrow> payment_snapshot \<Rightarrow> string \<Rightarrow> reg_state" where
  "registration_new E env prefix cfg ip =
     \<lparr>rg_inner = \<lparr>registered_peers = {}, available_ips = pool_octets, peer_to_octet = [], peer_registered_at = Map.empty,
        server_pubkey_cache = None, listen_port_cache = None, used_nullifiers = {}\<rparr>,
      rg_rate_limiter = Map.empty, subnet_prefix = prefix, rg_payment_config = cfg, public_ip = ip,
      world_rp_id = (case env ''BT_WORLD_RP_ID'' of Some s \<Rightarrow> s | None \<Rightarrow> []),
      world_action = (case env ''BT_WORLD_ACTION'' of Some s \<Rightarrow> s | None \<Rightarrow> ''veil-vpn-connect''),
      world_signing_key =
        Option.bind (env ''BT_WORLD_SIGNING_KEY'') (\<lambda>s.
        Option.bind (hex_decode E (strip_0x s)) (\<lambda>bs.
        if length bs = 32 then Some bs else None))\<rparr>"

definition client_ip :: "u8 \<times> u8 \<times> u8 \<Rightarrow> u8 \<Rightarrow> ipv4" where
  "client_ip prefix octet = (case prefix of (a, b, c) \<Rightarrow> ipv4_new a b c octet)"

subsection \<open>Client of the configuration socket\<close>

text \<open>What becomes of a request: it is not sent, or it is executed and its answer is lost (each with the text of the error), or
  it is executed and answered.\<close>

datatype link = Refused string | Unanswered string | Answered

definition uapi_call ::
    "crypto \<Rightarrow> eth_crypto \<Rightarrow> base64 \<Rightarrow> (unit, 'a) net_table \<Rightarrow> (nat, 'b) net_table \<Rightarrow> link \<Rightarrow> (nat \<Rightarrow> api_env)
     \<Rightarrow> string \<Rightarrow> ('a, 'b) device \<Rightarrow> (unit, ('a, 'b) device \<times> (string, string) rust) rust" where
  "uapi_call C E B NP ND l V request d =
     (case l of
        Refused e \<Rightarrow> Ok (d, Err e)
      | Unanswered e \<Rightarrow> rbind (serve_api C E B NP ND V request d) (\<lambda>(d, _). Ok (d, Err e))
      | Answered \<Rightarrow> rbind (serve_api C E B NP ND V request d) (\<lambda>(d, out).
          Ok (d, Ok (case out of Some answer \<Rightarrow> answer | None \<Rightarrow> []))))"

type_synonym uapi_answer = "string option \<times> u16 option \<times> (string \<rightharpoonup> nat option)"

record get_reader =
  gr_pubkey :: "string option"
  gr_handshake :: "nat option"
  gr_own :: "string option"
  gr_port :: "u16 option"
  gr_peers :: "string \<rightharpoonup> nat option"

definition flush_current :: "get_reader \<Rightarrow> get_reader" where
  "flush_current g =
     (case gr_pubkey g of
        Some pk \<Rightarrow> g\<lparr>gr_pubkey := None, gr_handshake := None, gr_peers := (gr_peers g)(pk \<mapsto> gr_handshake g)\<rparr>
      | None \<Rightarrow> g)"

definition get_field :: "eth_crypto \<Rightarrow> base64 \<Rightarrow> string \<Rightarrow> string \<Rightarrow> get_reader \<Rightarrow> get_reader" where
  "get_field E B key val g =
     (if key = ''own_public_key'' then
        (case hex_decode E val of Some bs \<Rightarrow> g\<lparr>gr_own := Some (b64_encode B bs)\<rparr> | None \<Rightarrow> g)
      else if key = ''listen_port'' then g\<lparr>gr_port := parse_u16 val\<rparr>
      else if key = ''public_key'' then (flush_current g)\<lparr>gr_pubkey := Some val, gr_handshake := None\<rparr>
      else if key = ''last_handshake_time_sec'' then g\<lparr>gr_handshake := from_str_radix 10 (2 ^ 64 - 1) val\<rparr>
      else g)"

fun get_lines :: "eth_crypto \<Rightarrow> base64 \<Rightarrow> string option list \<Rightarrow> get_reader \<Rightarrow> (string, get_reader) rust" where
  "get_lines E B [] g = Ok (flush_current g)"
| "get_lines E B (None # ls) g = Err ''UAPI read: stream did not contain valid UTF-8''"
| "get_lines E B (Some l # ls) g =
     (let line = chomp l in
      if line = [] then get_lines E B ls (flush_current g)
      else if strip_prefix ''errno='' line \<noteq> None then Ok (flush_current g)
      else case split_once CHR ''='' line of
             Some (key, val) \<Rightarrow> get_lines E B ls (get_field E B key val g)
           | None \<Rightarrow> get_lines E B ls g)"

definition read_get :: "eth_crypto \<Rightarrow> base64 \<Rightarrow> string \<Rightarrow> (string, uapi_answer) rust" where
  "read_get E B answer =
     rbind (get_lines E B (read_lines answer)
              \<lparr>gr_pubkey = None, gr_handshake = None, gr_own = None, gr_port = None, gr_peers = Map.empty\<rparr>) (\<lambda>g.
     Ok (gr_own g, gr_port g, gr_peers g))"

definition uapi_get_peers ::
    "crypto \<Rightarrow> eth_crypto \<Rightarrow> base64 \<Rightarrow> (unit, 'a) net_table \<Rightarrow> (nat, 'b) net_table \<Rightarrow> link \<Rightarrow> (nat \<Rightarrow> api_env)
     \<Rightarrow> ('a, 'b) device \<Rightarrow> (unit, ('a, 'b) device \<times> (string, uapi_answer) rust) rust" where
  "uapi_get_peers C E B NP ND l V d =
     rbind (uapi_call C E B NP ND l V (unlines [''get=1'']) d) (\<lambda>(d, answer).
     Ok (d, rbind answer (read_get E B)))"

text \<open>The first line of the answer, trimmed.\<close>

definition answer_line :: "string \<Rightarrow> (string, string) rust" where
  "answer_line answer =
     (case read_lines answer of
        [] \<Rightarrow> Ok []
      | None # _ \<Rightarrow> Err ''UAPI read: stream did not contain valid UTF-8''
      | Some l # _ \<Rightarrow> Ok (trim l))"

definition set_peer_text :: "string \<Rightarrow> ipv4 \<Rightarrow> string" where
  "set_peer_text pubkey_hex ip =
     unlines [''set=1'', ''public_key='' @ pubkey_hex, ''replace_allowed_ips=true'', ''allowed_ip='' @ show_ipv4 ip @ ''/32'', []]"

definition uapi_set_peer ::
    "crypto \<Rightarrow> eth_crypto \<Rightarrow> base64 \<Rightarrow> (unit, 'a) net_table \<Rightarrow> (nat, 'b) net_table \<Rightarrow> link \<Rightarrow> (nat \<Rightarrow> api_env)
     \<Rightarrow> string \<Rightarrow> ipv4 \<Rightarrow> ('a, 'b) device \<Rightarrow> (unit, ('a, 'b) device \<times> (string, unit) rust) rust" where
  "uapi_set_peer C E B NP ND l V pubkey_hex ip d =
     rbind (uapi_call C E B NP ND l V (set_peer_text pubkey_hex ip) d) (\<lambda>(d, answer).
     Ok (d, rbind (rbind answer answer_line) (\<lambda>response.
       if response = ''errno=0'' then Ok () else Err (''UAPI set failed: '' @ response))))"

definition remove_peer_text :: "string \<Rightarrow> string" where
  "remove_peer_text pubkey_hex = unlines [''set=1'', ''public_key='' @ pubkey_hex, ''remove=true'', []]"

definition uapi_remove_peer ::
    "crypto \<Rightarrow> eth_crypto \<Rightarrow> base64 \<Rightarrow> (unit, 'a) net_table \<Rightarrow> (nat, 'b) net_table \<Rightarrow> link \<Rightarrow> (nat \<Rightarrow> api_env)
     \<Rightarrow> string \<Rightarrow> ('a, 'b) device \<Rightarrow> (unit, ('a, 'b) device \<times> (string, bool) rust) rust" where
  "uapi_remove_peer C E B NP ND l V pubkey_hex d =
     rbind (uapi_call C E B NP ND l V (remove_peer_text pubkey_hex) d) (\<lambda>(d, answer).
     Ok (d, rbind (rbind answer answer_line) (\<lambda>response. Ok (response = ''errno=0''))))"

subsection \<open>Registering\<close>

text \<open>What one HTTP request draws from its surroundings: the two exchanges with the device, the free address that the iteration
  meets first, the clock, the environment variable of the human-only mode, the answer of World's API to a proof posted to a URL,
  random bytes and the time since the epoch.\<close>

record reg_env =
  re_get :: "link \<times> (nat \<Rightarrow> api_env)"
  re_set :: "link \<times> (nat \<Rightarrow> api_env)"
  re_pick :: nat
  re_instant :: nat
  re_human_only :: "string option"
  re_world :: "string \<Rightarrow> json \<Rightarrow> (string, string) rust"
  re_random :: bytes
  re_unix :: u64

type_synonym http_reply = "nat \<times> string"

text \<open>A JSON text is written with its quotes as they stand; \<open>qt\<close> quotes a string.\<close>

definition qt :: "string \<Rightarrow> string" where
  "qt s = CHR 0x22 # s @ [CHR 0x22]"

definition error_body :: "string \<Rightarrow> string" where
  "error_body msg = ''{'' @ qt ''error'' @ '':'' @ qt msg @ ''}''"

definition build_success_response ::
    "eth_crypto \<Rightarrow> ipv4 \<Rightarrow> payment_snapshot \<Rightarrow> string \<Rightarrow> string \<Rightarrow> u16 \<Rightarrow> string" where
  "build_success_response E ip pc pub_ip server_pubkey listen_port =
     ''{'' @ qt ''status'' @ '':'' @ qt ''ok'' @ '','' @ qt ''server_public_key'' @ '':'' @ qt server_pubkey
     @ '','' @ qt ''endpoint'' @ '':'' @ qt (pub_ip @ '':'' @ to_dec (unat listen_port))
     @ '','' @ qt ''assigned_ip'' @ '':'' @ qt (show_ipv4 ip @ ''/32'')
     @ '','' @ qt ''chain_id'' @ '':'' @ to_dec (unat (sn_chain_id pc))
     @ '','' @ qt ''gateway_wallet'' @ '':'' @ qt (''0x'' @ hex_encode E (sn_gateway_wallet pc))
     @ '','' @ qt ''usdc_contract'' @ '':'' @ qt (''0x'' @ hex_encode E (sn_usdc_contract pc))
     @ '','' @ qt ''amount_per_quota'' @ '':'' @ to_dec (unat (sn_amount_per_quota pc))
     @ '','' @ qt ''quota_bytes'' @ '':'' @ to_dec (unat (sn_quota_bytes pc)) @ ''}''"

definition success_reply :: "eth_crypto \<Rightarrow> reg_state \<Rightarrow> reg_inner \<Rightarrow> u8 \<Rightarrow> http_reply" where
  "success_reply E s inner octet =
     (200, build_success_response E (client_ip (subnet_prefix s) octet) (rg_payment_config s) (public_ip s)
        (case server_pubkey_cache inner of Some pk \<Rightarrow> pk | None \<Rightarrow> [])
        (case listen_port_cache inner of Some port \<Rightarrow> port | None \<Rightarrow> 51820))"

text \<open>The part of \<^verbatim>\<open>handle_registration\<close> that fills the cache of the server's key and port; \<open>Inl\<close> is an early reply.\<close>

definition populate_cache ::
    "crypto \<Rightarrow> eth_crypto \<Rightarrow> base64 \<Rightarrow> (unit, 'a) net_table \<Rightarrow> (nat, 'b) net_table \<Rightarrow> reg_env \<Rightarrow> reg_inner \<Rightarrow> ('a, 'b) device
     \<Rightarrow> (unit, ('a, 'b) device \<times> (http_reply + reg_inner)) rust" where
  "populate_cache C E B NP ND v inner d =
     (if server_pubkey_cache inner \<noteq> None then Ok (d, Inr inner)
      else rbind (uapi_get_peers C E B NP ND (fst (re_get v)) (snd (re_get v)) d) (\<lambda>(d, r).
        case r of
          Ok (Some pk, port, _) \<Rightarrow> Ok (d, Inr (inner\<lparr>server_pubkey_cache := Some pk, listen_port_cache := port\<rparr>))
        | Ok (None, _, _) \<Rightarrow> Ok (d, Inl (503, error_body ''server not configured yet''))
        | Err e \<Rightarrow> Ok (d, Inl (500, error_body (''internal error: '' @ e)))
        | Panic \<Rightarrow> Panic))"

definition set_remove :: "'a \<Rightarrow> 'a list \<Rightarrow> 'a list" where
  "set_remove x xs = filter (\<lambda>y. y \<noteq> x) xs"

definition set_insert :: "'a \<Rightarrow> 'a list \<Rightarrow> 'a list" where
  "set_insert x xs = (if x \<in> set xs then xs else x # xs)"

definition record_peer :: "nat \<Rightarrow> string \<Rightarrow> u8 \<Rightarrow> reg_inner \<Rightarrow> reg_inner" where
  "record_peer now pubkey_hex octet inner =
     inner\<lparr>available_ips := set_remove octet (available_ips inner),
           registered_peers := insert pubkey_hex (registered_peers inner),
           peer_to_octet := AList.update pubkey_hex octet (peer_to_octet inner),
           peer_registered_at := (peer_registered_at inner)(pubkey_hex \<mapsto> now)\<rparr>"

definition handle_registration ::
    "crypto \<Rightarrow> eth_crypto \<Rightarrow> base64 \<Rightarrow> (unit, 'a) net_table \<Rightarrow> (nat, 'b) net_table \<Rightarrow> reg_env \<Rightarrow> string \<Rightarrow> reg_state
     \<Rightarrow> ('a, 'b) device \<Rightarrow> (unit, reg_state \<times> ('a, 'b) device \<times> http_reply) rust" where
  "handle_registration C E B NP ND v pubkey_base64 s d =
     (case b64_decode B (trim pubkey_base64) of
        None \<Rightarrow> Ok (s, d, 400, error_body ''invalid base64 encoding'')
      | Some pubkey_bytes \<Rightarrow>
     if length pubkey_bytes \<noteq> 32 then Ok (s, d, 400, error_body ''public key must be exactly 32 bytes'') else
     let pubkey_hex = hex_encode E pubkey_bytes in
     rbind (populate_cache C E B NP ND v (rg_inner s) d) (\<lambda>(d, cached).
     case cached of
       Inl reply \<Rightarrow> Ok (s, d, reply)
     | Inr inner \<Rightarrow>
     let s = s\<lparr>rg_inner := inner\<rparr>;
         known = (if pubkey_hex \<in> registered_peers inner then map_of (peer_to_octet inner) pubkey_hex else None)
     in case known of
       Some octet \<Rightarrow> Ok (s, d, success_reply E s inner octet)
     | None \<Rightarrow>
     if available_ips inner = [] then Ok (s, d, 503, error_body ''no addresses available'') else
     let octet = available_ips inner ! (re_pick v mod length (available_ips inner));
         assigned_ip = client_ip (subnet_prefix s) octet
     in rbind (uapi_set_peer C E B NP ND (fst (re_set v)) (snd (re_set v)) pubkey_hex assigned_ip d) (\<lambda>(d, r).
        case r of
          Ok _ \<Rightarrow>
            let inner = record_peer (re_instant v) pubkey_hex octet inner
            in Ok (s\<lparr>rg_inner := inner\<rparr>, d, success_reply E s inner octet)
        | Err e \<Rightarrow> Ok (s, d, 500, error_body (''internal error: '' @ e))
        | Panic \<Rightarrow> Panic)))"

subsection \<open>Proofs of personhood\<close>

fun as_bool :: "json \<Rightarrow> bool option" where
  "as_bool (JBool b) = Some b"
| "as_bool _ = None"

fun as_array :: "json \<Rightarrow> json list option" where
  "as_array (JArr xs) = Some xs"
| "as_array _ = None"

definition nullifier_of :: "json \<Rightarrow> string" where
  "nullifier_of body =
     (case Option.bind (jget body ''nullifier'') as_str of
        Some n \<Rightarrow> n
      | None \<Rightarrow>
          (case Option.bind (jget body ''results'') (\<lambda>r. Option.bind (as_array r) (\<lambda>arr.
                Option.bind (case arr of item # _ \<Rightarrow> Some item | [] \<Rightarrow> None) (\<lambda>item.
                Option.bind (jget item ''nullifier'') as_str))) of
             Some n \<Rightarrow> n
           | None \<Rightarrow> []))"

definition verify_world_proof ::
    "(string \<Rightarrow> json option) \<Rightarrow> reg_env \<Rightarrow> reg_state \<Rightarrow> json \<Rightarrow> (string, string) rust" where
  "verify_world_proof from_json v s proof =
     (let rp_id = world_rp_id s in
      if rp_id = [] then Err ''World ID not configured (missing BT_WORLD_RP_ID)'' else
      rbind (re_world v (''https://developer.world.org/api/v4/verify/'' @ rp_id) proof) (\<lambda>body_text.
      case from_json body_text of
        None \<Rightarrow> Err (''World API parse failed: body='' @ body_text)
      | Some body \<Rightarrow>
          if Option.bind (jget body ''success'') as_bool = Some True
          then let nullifier = nullifier_of body in
               if nullifier = [] then Err ''World API returned success but no nullifier'' else Ok nullifier
          else Err (''World API rejected: ''
             @ (case Option.bind (jget body ''detail'') as_str of Some detail \<Rightarrow> detail | None \<Rightarrow> ''unknown error''))))"

definition human_only :: "reg_env \<Rightarrow> bool" where
  "human_only v = (case re_human_only v of Some x \<Rightarrow> x = ''1'' \<or> eq_ignore_ascii_case x ''true'' | None \<Rightarrow> False)"

definition handle_registration_v2 ::
    "crypto \<Rightarrow> eth_crypto \<Rightarrow> base64 \<Rightarrow> (string \<Rightarrow> json option) \<Rightarrow> (unit, 'a) net_table \<Rightarrow> (nat, 'b) net_table \<Rightarrow> reg_env
     \<Rightarrow> string \<Rightarrow> reg_state \<Rightarrow> ('a, 'b) device \<Rightarrow> (unit, reg_state \<times> ('a, 'b) device \<times> http_reply) rust" where
  "handle_registration_v2 C E B from_json NP ND v body s d =
     (case from_json (trim body) of
        None \<Rightarrow> Ok (s, d, 400, error_body ''invalid JSON'')
      | Some j \<Rightarrow>
     (case Option.bind (jget j ''public_key'') as_str of
        None \<Rightarrow> Ok (s, d, 400, error_body ''missing public_key field'')
      | Some pubkey_base64 \<Rightarrow>
     if human_only v then
       (case jget j ''world_proof'' of
          None \<Rightarrow> Ok (s, d, 400, error_body ''world_proof required for human-only nodes'')
        | Some world_proof \<Rightarrow>
            (case verify_world_proof from_json v s world_proof of
               Ok nullifier \<Rightarrow>
                 let inner = rg_inner s;
                     s = s\<lparr>rg_inner := inner\<lparr>used_nullifiers := insert nullifier (used_nullifiers inner)\<rparr>\<rparr>
                 in handle_registration C E B NP ND v pubkey_base64 s d
             | Err e \<Rightarrow> Ok (s, d, 400, error_body (''World ID verification failed: '' @ e))
             | Panic \<Rightarrow> Panic))
     else handle_registration C E B NP ND v pubkey_base64 s d))"

definition hash_to_field :: "eth_crypto \<Rightarrow> bytes \<Rightarrow> bytes" where
  "hash_to_field E input = 0 # take 31 (keccak E input)"

definition generate_rp_signature :: "eth_crypto \<Rightarrow> reg_env \<Rightarrow> bytes \<Rightarrow> string + string \<times> string \<times> u64 \<times> u64" where
  "generate_rp_signature E v signing_key_bytes =
     (if \<not> key_valid E signing_key_bytes then Inl ''Invalid signing key'' else
      let nonce = hash_to_field E (re_random v);
          created_at = re_unix v;
          expires_at = created_at + 300;
          msg = nonce @ be_bytes 8 created_at @ be_bytes 8 expires_at
      in case ecdsa_sign E signing_key_bytes (keccak E msg) of
           None \<Rightarrow> Inl ''Signing failed''
         | Some (sig, recovery_id) \<Rightarrow>
             Inr (''0x'' @ hex_encode E (sig @ [recovery_id + 27]), ''0x'' @ hex_encode E nonce, created_at, expires_at))"

definition handle_rp_context :: "eth_crypto \<Rightarrow> reg_env \<Rightarrow> reg_state \<Rightarrow> http_reply" where
  "handle_rp_context E v s =
     (case world_signing_key s of
        None \<Rightarrow> (503, error_body ''World ID not configured'')
      | Some signing_key_bytes \<Rightarrow>
          (case generate_rp_signature E v signing_key_bytes of
             Inr (sig, nonce, created_at, expires_at) \<Rightarrow>
               (200, ''{'' @ qt ''rp_id'' @ '':'' @ qt (world_rp_id s) @ '','' @ qt ''nonce'' @ '':'' @ qt nonce
                  @ '','' @ qt ''created_at'' @ '':'' @ to_dec (unat created_at)
                  @ '','' @ qt ''expires_at'' @ '':'' @ to_dec (unat expires_at)
                  @ '','' @ qt ''signature'' @ '':'' @ qt sig @ '','' @ qt ''action'' @ '':'' @ qt (world_action s) @ ''}'')
           | Inl e \<Rightarrow> (500, error_body (''RP signature failed: '' @ e))))"

subsection \<open>HTTP server\<close>

text \<open>A request as \<^verbatim>\<open>tiny_http\<close> delivers it. Reading the body, at most one byte more than \<open>MAX_BODY_BYTES\<close>, gives the number of
  bytes read and their text (\<^verbatim>\<open>from_utf8_lossy\<close>), or an error.\<close>

datatype http_method = Get | Post | Options | OtherMethod

record http_request =
  rq_body_length :: "nat option"
  rq_remote_addr :: "sock_addr option"
  rq_method :: http_method
  rq_url :: string
  rq_body :: "(unit, nat \<times> string) rust"

text \<open>The clock is read when a bucket is made and when a token is taken.\<close>

definition rate_limit :: "(rat \<Rightarrow> rat) \<Rightarrow> nat \<times> nat \<Rightarrow> http_request \<Rightarrow> reg_state \<Rightarrow> reg_state \<times> bool" where
  "rate_limit rnd now rq s =
     (case rq_remote_addr rq of
        None \<Rightarrow> (s, True)
      | Some (ip, _) \<Rightarrow>
          let bucket = (case rg_rate_limiter s ip of Some b \<Rightarrow> b | None \<Rightarrow> token_bucket_new (fst now));
              (bucket, allowed) = try_consume rnd bucket (snd now)
          in (s\<lparr>rg_rate_limiter := (rg_rate_limiter s)(ip \<mapsto> bucket)\<rparr>, allowed))"

definition http_handler ::
    "crypto \<Rightarrow> eth_crypto \<Rightarrow> base64 \<Rightarrow> (string \<Rightarrow> json option) \<Rightarrow> (rat \<Rightarrow> rat) \<Rightarrow> (unit, 'a) net_table \<Rightarrow> (nat, 'b) net_table
     \<Rightarrow> nat \<times> nat \<Rightarrow> reg_env \<Rightarrow> http_request \<Rightarrow> reg_state \<Rightarrow> ('a, 'b) device
     \<Rightarrow> (unit, reg_state \<times> ('a, 'b) device \<times> http_reply) rust" where
  "http_handler C E B from_json rnd NP ND now v rq s d =
     (if (case rq_body_length rq of Some n \<Rightarrow> n | None \<Rightarrow> 0) > MAX_BODY_BYTES
      then Ok (s, d, 413, error_body ''request body too large'')
      else case rate_limit rnd now rq s of
        (s, False) \<Rightarrow> Ok (s, d, 429, error_body ''rate limited'')
      | (s, True) \<Rightarrow>
          if rq_method rq = Get \<and> rq_url rq = ''/health'' then
            Ok (s, d, 200, ''{'' @ qt ''pool_available'' @ '':'' @ to_dec (length (available_ips (rg_inner s)))
              @ '','' @ qt ''peer_count'' @ '':'' @ to_dec (card (registered_peers (rg_inner s))) @ ''}'')
          else if rq_method rq = Get \<and> rq_url rq = ''/v1/rp-context'' then Ok (s, d, handle_rp_context E v s)
          else if rq_method rq = Post \<and> rq_url rq = ''/v1/register'' then
            (case rq_body rq of
               Ok (n, body) \<Rightarrow>
                 if n > MAX_BODY_BYTES then Ok (s, d, 413, error_body ''request body too large'')
                 else handle_registration_v2 C E B from_json NP ND v body s d
             | Err _ \<Rightarrow> Ok (s, d, 400, error_body ''failed to read body'')
             | Panic \<Rightarrow> Panic)
          else if rq_method rq = Options then Ok (s, d, 204, [])
          else Ok (s, d, 404, error_body ''not found''))"

subsection \<open>Reaper\<close>

text \<open>Whether an entry is stale, given the answer of the device and the clock (in nanoseconds).\<close>

definition is_stale :: "(string \<rightharpoonup> nat option) \<Rightarrow> nat \<Rightarrow> reg_inner \<Rightarrow> string \<Rightarrow> bool" where
  "is_stale uapi_peers now inner pubkey_hex =
     (case uapi_peers pubkey_hex of
        None \<Rightarrow> True
      | Some handshake \<Rightarrow>
          let age = (case handshake of Some sec \<Rightarrow> sec | None \<Rightarrow> 0) in
          if age > 0 then age > STALE_PEER_SECS
          else case peer_registered_at inner pubkey_hex of
                 Some registered_at \<Rightarrow> (now - registered_at) div NANOS > STALE_NEVER_CONNECTED_SECS
               | None \<Rightarrow> False)"

definition forget_peer :: "string \<Rightarrow> u8 \<Rightarrow> reg_inner \<Rightarrow> reg_inner" where
  "forget_peer pubkey_hex octet inner =
     inner\<lparr>available_ips := set_insert octet (available_ips inner),
           registered_peers := registered_peers inner - {pubkey_hex},
           peer_to_octet := AList.delete pubkey_hex (peer_to_octet inner),
           peer_registered_at := (peer_registered_at inner)(pubkey_hex := None)\<rparr>"

fun reap ::
    "crypto \<Rightarrow> eth_crypto \<Rightarrow> base64 \<Rightarrow> (unit, 'a) net_table \<Rightarrow> (nat, 'b) net_table \<Rightarrow> (nat \<Rightarrow> link \<times> (nat \<Rightarrow> api_env))
     \<Rightarrow> (string \<times> u8) list \<Rightarrow> reg_inner \<Rightarrow> ('a, 'b) device \<Rightarrow> (unit, reg_inner \<times> ('a, 'b) device) rust" where
  "reap C E B NP ND L [] inner d = Ok (inner, d)"
| "reap C E B NP ND L ((pubkey_hex, octet) # to_remove) inner d =
     rbind (uapi_remove_peer C E B NP ND (fst (L 0)) (snd (L 0)) pubkey_hex d) (\<lambda>(d, r).
     reap C E B NP ND (\<lambda>i. L (Suc i)) to_remove (if r = Ok True then forget_peer pubkey_hex octet inner else inner) d)"

definition reaper_sweep ::
    "crypto \<Rightarrow> eth_crypto \<Rightarrow> base64 \<Rightarrow> (unit, 'a) net_table \<Rightarrow> (nat, 'b) net_table \<Rightarrow> (nat \<Rightarrow> link \<times> (nat \<Rightarrow> api_env)) \<Rightarrow> nat
     \<Rightarrow> (ip_addr \<Rightarrow> nat) \<Rightarrow> (string \<rightharpoonup> nat option) \<Rightarrow> reg_state \<Rightarrow> ('a, 'b) device \<Rightarrow> (unit, reg_state \<times> ('a, 'b) device) rust" where
  "reaper_sweep C E B NP ND L now prune_now uapi_peers s d =
     (let inner = rg_inner s;
          to_remove = filter (\<lambda>(pubkey_hex, _). is_stale uapi_peers now inner pubkey_hex) (peer_to_octet inner)
      in rbind (reap C E B NP ND L to_remove inner d) (\<lambda>(inner, d).
         Ok (s\<lparr>rg_inner := inner,
               rg_rate_limiter := (\<lambda>ip. case rg_rate_limiter s ip of
                  Some b \<Rightarrow> if (prune_now ip - last_refill b) div NANOS < RATE_LIMITER_PRUNE_SECS then Some b else None
                | None \<Rightarrow> None)\<rparr>, d)))"

subsection \<open>The server as a machine\<close>

text \<open>Between the steps of the two threads the device goes on: \<open>Dataplane\<close> puts another device with the same peers, routes and
  keys in its place. A sweep uses the answer to the last query, if there was one.\<close>

definition same_config :: "('a, 'b) device \<Rightarrow> ('a, 'b) device \<Rightarrow> bool" where
  "same_config d d' \<longleftrightarrow> dv_peers d' = dv_peers d \<and> dv_by_ip d' = dv_by_ip d \<and> dv_by_idx d' = dv_by_idx d
     \<and> dv_next_index d' = dv_next_index d \<and> dv_key_pair d' = dv_key_pair d \<and> same_peers (dv_arena d) (dv_arena d')"

datatype ('a, 'b) reg_op =
    Http "nat \<times> nat" reg_env http_request
  | ReaperQuery link "nat \<Rightarrow> api_env"
  | ReaperSweep "nat \<Rightarrow> link \<times> (nat \<Rightarrow> api_env)" nat "ip_addr \<Rightarrow> nat"
  | Dataplane "('a, 'b) device"

record ('a, 'b) reg_world =
  w_state :: reg_state
  w_device :: "('a, 'b) device"
  w_snapshot :: "(string \<rightharpoonup> nat option) option"

fun reg_do ::
    "crypto \<Rightarrow> eth_crypto \<Rightarrow> base64 \<Rightarrow> (string \<Rightarrow> json option) \<Rightarrow> (rat \<Rightarrow> rat) \<Rightarrow> (unit, 'a) net_table \<Rightarrow> (nat, 'b) net_table
     \<Rightarrow> ('a, 'b) reg_world \<Rightarrow> ('a, 'b) reg_op \<Rightarrow> (unit, ('a, 'b) reg_world \<times> http_reply option) rust" where
  "reg_do C E B from_json rnd NP ND w (Http now v rq) =
     rbind (http_handler C E B from_json rnd NP ND now v rq (w_state w) (w_device w)) (\<lambda>(s, d, reply).
     Ok (w\<lparr>w_state := s, w_device := d\<rparr>, Some reply))"
| "reg_do C E B from_json rnd NP ND w (ReaperQuery l V) =
     rbind (uapi_get_peers C E B NP ND l V (w_device w)) (\<lambda>(d, r).
     Ok (w\<lparr>w_device := d, w_snapshot := (case r of Ok (_, _, uapi_peers) \<Rightarrow> Some uapi_peers | _ \<Rightarrow> None)\<rparr>, None))"
| "reg_do C E B from_json rnd NP ND w (ReaperSweep L now prune_now) =
     (case w_snapshot w of
        None \<Rightarrow> Ok (w, None)
      | Some uapi_peers \<Rightarrow>
          rbind (reaper_sweep C E B NP ND L now prune_now uapi_peers (w_state w) (w_device w)) (\<lambda>(s, d).
          Ok (w\<lparr>w_state := s, w_device := d, w_snapshot := None\<rparr>, None)))"
| "reg_do C E B from_json rnd NP ND w (Dataplane d) =
     Ok (if same_config (w_device w) d then w\<lparr>w_device := d\<rparr> else w, None)"

definition reg_step ::
    "crypto \<Rightarrow> eth_crypto \<Rightarrow> base64 \<Rightarrow> (string \<Rightarrow> json option) \<Rightarrow> (rat \<Rightarrow> rat) \<Rightarrow> (unit, 'a) net_table \<Rightarrow> (nat, 'b) net_table
     \<Rightarrow> (unit, ('a, 'b) reg_world) rust \<Rightarrow> ('a, 'b) reg_op \<Rightarrow> (unit, ('a, 'b) reg_world) rust \<times> http_reply option" where
  "reg_step C E B from_json rnd NP ND st x =
     (case rbind st (\<lambda>w. reg_do C E B from_json rnd NP ND w x) of
        Ok (w, reply) \<Rightarrow> (Ok w, reply) | Err e \<Rightarrow> (Err e, None) | Panic \<Rightarrow> (Panic, None))"

subsection \<open>What the registry promises\<close>

text \<open>The octets of the pool are divided between the free ones and the registered keys, and no two keys share one.\<close>

definition pool_ok :: "reg_inner \<Rightarrow> bool" where
  "pool_ok inner \<longleftrightarrow>
     registered_peers inner = dom (map_of (peer_to_octet inner))
     \<and> dom (peer_registered_at inner) = registered_peers inner
     \<and> distinct (map fst (peer_to_octet inner)) \<and> distinct (map snd (peer_to_octet inner)) \<and> distinct (available_ips inner)
     \<and> set (available_ips inner) \<inter> snd ` set (peer_to_octet inner) = {}
     \<and> set (available_ips inner) \<union> snd ` set (peer_to_octet inner) = set pool_octets"

text \<open>Every registered key is in hexadecimal, and the address of its octet belongs to it.\<close>

definition registry_linked :: "u8 \<times> u8 \<times> u8 \<Rightarrow> reg_inner \<Rightarrow> (ipv4 \<rightharpoonup> bytes) \<Rightarrow> bool" where
  "registry_linked prefix inner owner \<longleftrightarrow> pool_ok inner
     \<and> (\<forall>pubkey_hex octet. map_of (peer_to_octet inner) pubkey_hex = Some octet \<longrightarrow>
          (\<exists>k. pubkey_hex = hex_of k \<and> length k = 32 \<and> owner (client_ip prefix octet) = Some k))"

text \<open>The key of the peer to which the device routes the packets to one address.\<close>

definition host_owner :: "('b \<Rightarrow> ip_network \<Rightarrow> nat option) \<Rightarrow> ('a, 'b) device \<Rightarrow> ipv4 \<rightharpoonup> bytes" where
  "host_owner ED d ip = map_option (\<lambda>r. peer_key (dv_arena d ! r)) (ED (dv_by_ip d) (V4 ip, 32))"

text \<open>What is documented of networks of one address: a prefix of full length is the address itself, and no other network of
  that length holds it.\<close>

definition host_routes :: "(ip_network \<Rightarrow> ip_addr \<Rightarrow> bool) \<Rightarrow> (ip_addr \<Rightarrow> u8 \<Rightarrow> ip_network option) \<Rightarrow> bool" where
  "host_routes contains trunc \<longleftrightarrow>
     (\<forall>a. trunc (V4 a) 32 = Some (V4 a, 32) \<and> contains (V4 a, 32) (V4 a))
     \<and> (\<forall>x l n a. trunc x l = Some n \<longrightarrow> contains n (V4 a) \<longrightarrow> 32 \<le> snd n \<longrightarrow> n = (V4 a, 32))"

definition routes_ok ::
    "('a \<Rightarrow> ip_network \<Rightarrow> unit option) \<Rightarrow> ('b \<Rightarrow> ip_network \<Rightarrow> nat option) \<Rightarrow> (ip_addr \<Rightarrow> u8 \<Rightarrow> ip_network option)
     \<Rightarrow> ('a, 'b) device \<Rightarrow> bool" where
  "routes_ok EP ED trunc d \<longleftrightarrow> tables_consistent EP ED d
     \<and> (\<forall>n r. ED (dv_by_ip d) n = Some r \<longrightarrow> (\<exists>x l. trunc x l = Some n))"

definition client_section :: "bytes \<Rightarrow> ipv4 \<Rightarrow> peer_section" where
  "client_section k ip = (section_new k)\<lparr>sec_replace_ips := True, sec_allowed_ips := [\<lparr>ai_addr = V4 ip, ai_cidr = 32\<rparr>]\<rparr>"

definition removal_section :: "bytes \<Rightarrow> peer_section" where
  "removal_section k = (section_new k)\<lparr>sec_remove := True\<rparr>"

text \<open>Two states of the registry with the same pool.\<close>

definition pool_eq :: "reg_inner \<Rightarrow> reg_inner \<Rightarrow> bool" where
  "pool_eq i j \<longleftrightarrow> registered_peers i = registered_peers j \<and> available_ips i = available_ips j
     \<and> peer_to_octet i = peer_to_octet j \<and> peer_registered_at i = peer_registered_at j"

text \<open>The links of the exchanges of a sweep lose no answer.\<close>

definition reliable_link :: "link \<times> (nat \<Rightarrow> api_env) \<Rightarrow> bool" where
  "reliable_link x \<longleftrightarrow> (\<forall>e. fst x \<noteq> Unanswered e)"

definition registry_device ::
    "(unit, 'a) net_table \<Rightarrow> (nat, 'b) net_table \<Rightarrow> ('a \<Rightarrow> ip_network \<Rightarrow> unit option) \<Rightarrow> ('b \<Rightarrow> ip_network \<Rightarrow> nat option)
     \<Rightarrow> (ip_network \<Rightarrow> ip_addr \<Rightarrow> bool) \<Rightarrow> (ip_addr \<Rightarrow> u8 \<Rightarrow> ip_network option) \<Rightarrow> ('a, 'b) device \<Rightarrow> bool" where
  "registry_device NP ND EP ED contains trunc d \<longleftrightarrow>
     tables_ok NP ND EP ED contains trunc \<and> host_routes contains trunc \<and> routes_ok EP ED trunc d"

definition is_register :: "http_request \<Rightarrow> bool" where
  "is_register rq \<longleftrightarrow> rq_method rq = Post \<and> rq_url rq = ''/v1/register''"

fun reliable_sweeps :: "('a, 'b) reg_op \<Rightarrow> bool" where
  "reliable_sweeps (ReaperSweep L now prune_now) \<longleftrightarrow> (\<forall>i. reliable_link (L i))"
| "reliable_sweeps _ \<longleftrightarrow> True"

definition pool_inv :: "(unit, ('a, 'b) reg_world) rust \<Rightarrow> bool" where
  "pool_inv st \<longleftrightarrow> (\<forall>w. st = Ok w \<longrightarrow> pool_ok (rg_inner (w_state w)))"

definition linked_inv ::
    "eth_crypto \<Rightarrow> (unit, 'a) net_table \<Rightarrow> (nat, 'b) net_table \<Rightarrow> ('a \<Rightarrow> ip_network \<Rightarrow> unit option) \<Rightarrow> ('b \<Rightarrow> ip_network \<Rightarrow> nat option)
     \<Rightarrow> (ip_network \<Rightarrow> ip_addr \<Rightarrow> bool) \<Rightarrow> (ip_addr \<Rightarrow> u8 \<Rightarrow> ip_network option) \<Rightarrow> (unit, ('a, 'b) reg_world) rust \<Rightarrow> bool" where
  "linked_inv E NP ND EP ED contains trunc st \<longleftrightarrow>
     (hex_ok E \<longrightarrow> (\<forall>w. st = Ok w \<longrightarrow> registry_device NP ND EP ED contains trunc (w_device w)
        \<and> registry_linked (subnet_prefix (w_state w)) (rg_inner (w_state w)) (host_owner ED (w_device w))))"

text \<open>The server starts with an empty registry on a configured device.\<close>

text \<open>What rounding to a 64-bit floating point number promises: it is monotone and exact on small integers.\<close>

definition f64_rounding :: "(rat \<Rightarrow> rat) \<Rightarrow> bool" where
  "f64_rounding rnd \<longleftrightarrow> mono rnd \<and> (\<forall>n \<le> 2 ^ 53. rnd (of_nat n) = of_nat n)"

definition bucket_ok :: "token_bucket \<Rightarrow> bool" where
  "bucket_ok b \<longleftrightarrow> 0 \<le> tokens b \<and> tokens b \<le> RATE_LIMIT_BURST"

definition world_new ::
    "eth_crypto \<Rightarrow> (string \<Rightarrow> string option) \<Rightarrow> u8 \<times> u8 \<times> u8 \<Rightarrow> payment_snapshot \<Rightarrow> string \<Rightarrow> ('a, 'b) device \<Rightarrow> ('a, 'b) reg_world" where
  "world_new E env prefix cfg ip d = \<lparr>w_state = registration_new E env prefix cfg ip, w_device = d, w_snapshot = None\<rparr>"

text \<open>What the answer to a query says of the peers, in the order of the device: the key and the seconds since the last handshake.\<close>

definition handshake_secs :: "tunn \<Rightarrow> nat \<Rightarrow> nat option" where
  "handshake_secs t reading =
     (case time_since_last_handshake t reading of Ok (Some time) \<Rightarrow> Some (time div NANOS) | _ \<Rightarrow> None)"

fun handshake_ages :: "(nat \<Rightarrow> nat) \<Rightarrow> 'a peer list \<Rightarrow> (bytes \<times> nat) list \<Rightarrow> (string \<times> nat option) list" where
  "handshake_ages clk arena [] = []"
| "handshake_ages clk arena ((k, r) # ps) =
     (hex_of k, handshake_secs (p_tunnel (arena ! r)) (clk 0)) # handshake_ages (\<lambda>i. clk (i + 2)) arena ps"

definition get_line :: "eth_crypto \<Rightarrow> base64 \<Rightarrow> string \<Rightarrow> get_reader \<Rightarrow> get_reader" where
  "get_line E B l g = (case split_once CHR ''='' l of Some (key, val) \<Rightarrow> get_field E B key val g | None \<Rightarrow> g)"

definition answer_field :: "string \<Rightarrow> bool" where
  "answer_field l \<longleftrightarrow> printable l \<and> l \<noteq> [] \<and> strip_prefix ''errno='' l = None"

text \<open>A sample: hexadecimal as documented, a body that is the key itself, a server with one key, and one request.\<close>

fun unhex :: "string \<Rightarrow> bytes option" where
  "unhex [] = Some []"
| "unhex [_] = None"
| "unhex (a # b # s) =
     (case (to_digit 16 a, to_digit 16 b, unhex s) of (Some m, Some n, Some bs) \<Rightarrow> Some (of_nat (16 * m + n) # bs) | _ \<Rightarrow> None)"

definition hex_eth :: eth_crypto where
  "hex_eth = toy_eth\<lparr>hex_encode := hex_of, hex_decode := unhex\<rparr>"

definition sample_json :: "string \<Rightarrow> json option" where
  "sample_json s = Some (JObj [(''public_key'', JStr s)])"

definition sample_snapshot :: payment_snapshot where
  "sample_snapshot = \<lparr>sn_chain_id = 1, sn_gateway_wallet = [], sn_usdc_contract = [], sn_amount_per_quota = 1, sn_quota_bytes = 1\<rparr>"

definition sample_reg_env :: reg_env where
  "sample_reg_env = \<lparr>re_get = (Answered, \<lambda>_. sample_api), re_set = (Answered, \<lambda>_. sample_api), re_pick = 0, re_instant = 0,
     re_human_only = None, re_world = (\<lambda>_ _. Panic), re_random = [], re_unix = 0\<rparr>"

definition sample_client :: bytes where
  "sample_client = replicate 32 65"

definition sample_register :: http_request where
  "sample_register = \<lparr>rq_body_length = None, rq_remote_addr = None, rq_method = Post, rq_url = ''/v1/register'',
     rq_body = Ok (32, replicate 32 CHR ''A'')\<rparr>"

definition sample_key_request :: string where
  "sample_key_request = unlines [''set=1'', ''private_key='' @ hex_of (replicate 32 1), []]"

definition sample_server :: "(unit, ((ip_network \<times> unit) list, (ip_network \<times> nat) list) device) rust" where
  "sample_server = fst (run (api_step toy_crypto hex_eth sample_base64 list_table list_table)
     (Ok (device_new list_table \<lparr>initial = 5, lfsr = 5, mask = 7\<rparr> True 1420 sample_config)) [(\<lambda>_. sample_api, sample_key_request)])"

definition sample_world :: "(unit, ((ip_network \<times> unit) list, (ip_network \<times> nat) list) reg_world) rust" where
  "sample_world = rbind sample_server (\<lambda>d. Ok (world_new hex_eth (\<lambda>_. None) (10, 0, 0) sample_snapshot [] d))"

section \<open>The rate limiter\<close>

lemma f64_roundingD:
  assumes "f64_rounding rnd"
  shows "mono rnd" "rnd 0 = 0" "rnd 9 = 9" "x \<le> y \<Longrightarrow> rnd x \<le> rnd y"
proof -
  have exact: "rnd (of_nat n) = of_nat n" if "n \<le> 2 ^ 53" for n using assms that unfolding f64_rounding_def by blast
  show "rnd 0 = 0" using exact [of 0] by simp
  show "rnd 9 = 9" using exact [of 9] by simp
  show "mono rnd" using assms unfolding f64_rounding_def by blast
  then show "x \<le> y \<Longrightarrow> rnd x \<le> rnd y" by (rule monoD)
qed

lemma f64_nonneg: "f64_rounding rnd \<Longrightarrow> 0 \<le> x \<Longrightarrow> 0 \<le> rnd x"
  using f64_roundingD(2,4) by metis

lemma bucket_new_ok: "bucket_ok (token_bucket_new now)"
  by (simp add: bucket_ok_def token_bucket_new_def RATE_LIMIT_BURST_def)

text \<open>A bucket holds at most ten tokens whatever time has passed, and a request that is let through pays one.\<close>

lemma try_consume_bounds:
  assumes rnd: "f64_rounding rnd" and ok: "bucket_ok b" and run: "try_consume rnd b now = (b', allowed)"
  shows "bucket_ok b'" and "allowed \<Longrightarrow> tokens b' \<le> 9"
proof -
  note nonneg = f64_nonneg [OF rnd]
  define available where "available =
    min (rnd (tokens b + rnd (as_secs_f64 rnd (now - last_refill b) * RATE_LIMIT_PER_SEC))) RATE_LIMIT_BURST"
  have b': "b' = (if available \<ge> 1 then \<lparr>tokens = rnd (available - 1), last_refill = now\<rparr> else \<lparr>tokens = available, last_refill = now\<rparr>)"
    "allowed \<longleftrightarrow> available \<ge> 1"
    using run by (auto simp: try_consume_def Let_def available_def split: if_splits)
  have "0 \<le> as_secs_f64 rnd t" for t
    unfolding as_secs_f64_def by (intro nonneg add_nonneg_nonneg divide_nonneg_nonneg) simp_all
  then have "0 \<le> rnd (tokens b + rnd (as_secs_f64 rnd (now - last_refill b) * RATE_LIMIT_PER_SEC))"
    using ok by (intro nonneg add_nonneg_nonneg) (simp_all add: bucket_ok_def RATE_LIMIT_PER_SEC_def)
  then have range: "0 \<le> available" "available \<le> 10" by (simp_all add: available_def RATE_LIMIT_BURST_def)
  have "rnd (available - 1) \<le> 9" using f64_roundingD(3) [OF rnd] f64_roundingD(4) [OF rnd, of "available - 1" 9] range(2) by simp
  then show "bucket_ok b'" "allowed \<Longrightarrow> tokens b' \<le> 9"
    using b' range nonneg [of "available - 1"] by (auto simp: bucket_ok_def RATE_LIMIT_BURST_def)
qed

section \<open>The pool of addresses\<close>

lemma update_new: "key \<notin> fst ` set al \<Longrightarrow> AList.update key v al = al @ [(key, v)]"
  by (induction al) auto

lemma delete_set: "distinct (map fst al) \<Longrightarrow> map_of al key = Some v \<Longrightarrow> set (AList.delete key al) = set al - {(key, v)}"
  by (auto simp: AList.delete_eq dest: map_of_SomeD) (metis map_of_is_SomeI option.inject)

lemma distinct_delete: "distinct (map fst al) \<Longrightarrow> distinct (map fst (AList.delete key al))"
  "distinct (map snd al) \<Longrightarrow> distinct (map snd (AList.delete key al))"
  by (simp_all add: AList.delete_eq distinct_map_filter)

lemma pool_record:
  assumes "pool_ok inner" "octet \<in> set (available_ips inner)" "key \<notin> registered_peers inner"
  shows "pool_ok (record_peer now key octet inner)"
proof -
  have new: "key \<notin> fst ` set (peer_to_octet inner)" using assms(1,3) by (simp add: pool_ok_def dom_map_of_conv_image_fst)
  show ?thesis using assms new
    unfolding pool_ok_def record_peer_def set_remove_def
    by (auto simp: update_new [OF new] dom_map_of_conv_image_fst)
qed

lemma pool_forget:
  assumes "pool_ok inner" "map_of (peer_to_octet inner) key = Some octet"
  shows "pool_ok (forget_peer key octet inner)"
proof -
  note del = delete_set [OF _ assms(2)]
  have mem: "(key, octet) \<in> set (peer_to_octet inner)" by (rule map_of_SomeD [OF assms(2)])
  have inj: "inj_on snd (set (peer_to_octet inner))" "inj_on fst (set (peer_to_octet inner))"
    using assms(1) by (simp_all add: pool_ok_def distinct_map)
  have "snd ` (set (peer_to_octet inner) - {(key, octet)}) = snd ` set (peer_to_octet inner) - {octet}"
    "fst ` (set (peer_to_octet inner) - {(key, octet)}) = fst ` set (peer_to_octet inner) - {key}"
    using inj_on_image_set_diff [OF inj(1), of "set (peer_to_octet inner)" "{(key, octet)}"]
      inj_on_image_set_diff [OF inj(2), of "set (peer_to_octet inner)" "{(key, octet)}"] mem by auto
  moreover have o: "octet \<in> snd ` set (peer_to_octet inner)" using mem by (rule rev_image_eqI) simp
  moreover have "octet \<notin> set (available_ips inner)" using o assms(1) unfolding pool_ok_def by blast
  ultimately show ?thesis using assms(1) unfolding pool_ok_def forget_peer_def set_insert_def
    by (simp add: del distinct_delete dom_map_of_conv_image_fst) blast
qed

lemma distinct_pool: "distinct pool_octets"
proof -
  have "inj_on (of_nat :: nat \<Rightarrow> u8) {2..<255}"
  proof (rule inj_onI)
    fix i j assume b: "i \<in> {2..<255}" "j \<in> {2..<255 :: nat}" and "(of_nat i :: u8) = of_nat j"
    then have "unat (of_nat i :: u8) = unat (of_nat j :: u8)" by simp
    then show "i = j" using b by (simp add: unat_of_nat)
  qed
  then show ?thesis by (simp only: pool_octets_def distinct_map distinct_upt set_upt simp_thms)
qed

lemma pool_new: "pool_ok (rg_inner (registration_new E env prefix cfg ip))"
  using distinct_pool by (simp add: pool_ok_def registration_new_def)

lemma registered_iff: "pool_ok inner \<Longrightarrow> key \<in> registered_peers inner \<longleftrightarrow> map_of (peer_to_octet inner) key \<noteq> None"
  unfolding pool_ok_def by (metis domIff)

lemma known_octet:
  assumes "pool_ok inner"
  shows "(if key \<in> registered_peers inner then map_of (peer_to_octet inner) key else None) = map_of (peer_to_octet inner) key"
  using registered_iff [OF assms, of key] by (auto split: if_splits)

lemma pool_bounds: "oct \<in> set pool_octets \<Longrightarrow> 2 \<le> oct \<and> oct \<le> 254"
proof -
  assume "oct \<in> set pool_octets"
  then obtain n where "2 \<le> n" "n < 255" "oct = of_nat n" unfolding pool_octets_def set_map set_upt by auto
  then show ?thesis by (simp add: word_le_nat_alt unat_of_nat)
qed

lemma pool_ok_facts:
  assumes "pool_ok inner"
  shows "registered_peers inner = dom (map_of (peer_to_octet inner))"
    and "\<And>k1 k2 oct. map_of (peer_to_octet inner) k1 = Some oct \<Longrightarrow> map_of (peer_to_octet inner) k2 = Some oct \<Longrightarrow> k1 = k2"
    and "\<And>k oct. map_of (peer_to_octet inner) k = Some oct \<Longrightarrow> 2 \<le> oct \<and> oct \<le> 254 \<and> oct \<notin> set (available_ips inner)"
    and "length (available_ips inner) + length (peer_to_octet inner) = 253"
proof -
  note ok = assms [unfolded pool_ok_def]
  have inj: "inj_on snd (set (peer_to_octet inner))" using ok by (simp add: distinct_map)
  show "registered_peers inner = dom (map_of (peer_to_octet inner))" using ok by blast
  show "k1 = k2" if "map_of (peer_to_octet inner) k1 = Some oct" "map_of (peer_to_octet inner) k2 = Some oct" for k1 k2 oct
    using inj_onD [OF inj, of "(k1, oct)" "(k2, oct)"] map_of_SomeD [OF that(1)] map_of_SomeD [OF that(2)] by simp
  show "2 \<le> oct \<and> oct \<le> 254 \<and> oct \<notin> set (available_ips inner)" if "map_of (peer_to_octet inner) k = Some oct" for k oct
  proof -
    have "oct \<in> snd ` set (peer_to_octet inner)" using map_of_SomeD [OF that] by (rule rev_image_eqI) simp
    then show ?thesis using ok pool_bounds by blast
  qed
  have "card (set (available_ips inner) \<union> set (map snd (peer_to_octet inner)))
      = card (set (available_ips inner)) + card (set (map snd (peer_to_octet inner)))"
    using ok by (intro card_Un_disjoint) (simp_all only: finite_set set_map finite_imageI)
  then have "length (available_ips inner) + length (peer_to_octet inner) = card (set pool_octets)"
    using ok distinct_card [of "available_ips inner"] distinct_card [of "map snd (peer_to_octet inner)"] by (simp only: set_map length_map)
  moreover have "card (set pool_octets) = length pool_octets" using distinct_pool by (rule distinct_card)
  moreover have "length pool_octets = 253" by (simp only: pool_octets_def length_map length_upt)
  ultimately show "length (available_ips inner) + length (peer_to_octet inner) = 253" by simp
qed

section \<open>Exchanges with the device\<close>

lemma errno_0_answer: "answer_line (unlines [''errno=0'', []]) = Ok ''errno=0''"
  by code_simp

lemma client_section_wf: "length k = 32 \<Longrightarrow> section_wf (client_section k ip)" "length k = 32 \<Longrightarrow> section_wf (removal_section k)"
  by (simp_all add: section_wf_def client_section_def removal_section_def section_new_def)

lemma dec_32: "to_dec 32 = ''32''"
  by code_simp

lemma request_texts:
  "set_peer_text (hex_of k) ip = set_request [client_section k ip]"
  "remove_peer_text (hex_of k) = set_request [removal_section k]"
  by (simp_all add: set_peer_text_def remove_peer_text_def set_request_def client_section_def removal_section_def section_lines_def
      section_new_def field_line_def opt_line_def dec_32)

lemma request_served:
  assumes "section_wf s"
  shows "serve_api C E B NP ND V (set_request [s]) d =
    rbind (commit_section C NP ND (V (length (section_lines s) + 1)) s d) (\<lambda>d. Ok (d, Some (unlines [''errno=0'', []])))"
proof -
  have "effective (section_new []) [s] = [(length (section_lines s) + 1, s)]" by (simp add: new_key section_over_new)
  then show ?thesis using set_request_served [of "[s]" C E B NP ND V d] assms
    by (cases "commit_section C NP ND (V (length (section_lines s) + 1)) s d") simp_all
qed

text \<open>What an exchange that sets or removes a peer does to the device.\<close>

lemma uapi_set_peer_does:
  assumes "length k = 32" "uapi_set_peer C E B NP ND l V (hex_of k) ip d = Ok (d', r)"
  shows "(\<exists>e. l = Refused e) \<and> d' = d \<and> (\<exists>e. r = Err e)
    \<or> (\<exists>v. commit_section C NP ND v (client_section k ip) d = Ok d') \<and> (if l = Answered then r = Ok () else (\<exists>e. r = Err e))"
  using assms(2) unfolding uapi_set_peer_def uapi_call_def request_texts request_served [OF client_section_wf(1) [OF assms(1)]]
  by (cases l) (auto simp: rbind_eq_Ok errno_0_answer simp del: unlines_Cons)

lemma uapi_remove_peer_does:
  assumes "length k = 32" "uapi_remove_peer C E B NP ND l V (hex_of k) d = Ok (d', r)"
  shows "(\<exists>e. l = Refused e) \<and> d' = d \<and> (\<exists>e. r = Err e)
    \<or> (\<forall>e. l \<noteq> Refused e) \<and> (\<exists>os. remove_peer ND os d k = Ok d') \<and> (if l = Answered then r = Ok True else (\<exists>e. r = Err e))"
proof -
  have "commit_section C NP ND v (removal_section k) d = remove_peer ND (ae_os v) d k" for v
    by (simp add: commit_section_def removal_section_def section_new_def update_peer_def)
  then show ?thesis
    using assms(2) unfolding uapi_remove_peer_def uapi_call_def request_texts request_served [OF client_section_wf(2) [OF assms(1)]]
    by (cases l) (auto simp: rbind_eq_Ok errno_0_answer simp del: unlines_Cons)
qed

lemma serve_get_device: "serve_api C E B NP ND V (unlines [''get=1'']) d = Ok (d', out) \<Longrightarrow> d' = d"
proof -
  assume ok: "serve_api C E B NP ND V (unlines [''get=1'']) d = Ok (d', out)"
  have "read_lines (unlines [''get=1'']) = Some (''get=1'' @ [newline]) # []"
    using read_lines_unlines [of "[''get=1'']"] by simp
  from ok [unfolded serve_get [OF this pop_line]] show ?thesis by (auto simp: rbind_eq_Ok)
qed

lemma uapi_get_peers_device: "uapi_get_peers C E B NP ND l V d = Ok (d', r) \<Longrightarrow> d' = d"
  by (cases l) (auto simp: uapi_get_peers_def uapi_call_def rbind_eq_Ok simp del: unlines_Cons dest: serve_get_device)

section \<open>Routes of the device\<close>

lemma commit_client_routes:
  assumes tab: "tables_ok NP ND EP ED contains trunc" and host: "host_routes contains trunc" and ok: "routes_ok EP ED trunc d"
    and up: "commit_section C NP ND v (client_section k ip) d = Ok d'"
  shows "routes_ok EP ED trunc d'"
    and "host_owner ED d' a = (if a = ip then Some k else host_owner ED d a)"
    and "map_of (dv_peers d) k = None"
proof -
  have nets: "net_table_ok NP EP contains trunc" "net_table_ok ND ED contains trunc" using tab by (simp_all add: tables_ok_def)
  have up': "update_peer C NP ND (ae_os v) d k False True None [\<lparr>ai_addr = V4 ip, ai_cidr = 32\<rparr>] None None
      (ae_secret v) (ae_nonce_key v) (ae_time v) (ae_clock v) = Ok d'"
    using up by (simp add: commit_section_def client_section_def section_new_def)
  obtain n where n: "dev_ok EP ED n d" using ok by (auto simp: routes_ok_def tables_consistent_def)
  obtain l idx sk pub t rl p tp tn where new: "map_of (dv_peers d) k = None"
    and t: "tunn_new C sk k None None idx None (ae_secret v) (ae_nonce_key v) (ae_time v) (ae_clock v) = (t, rl)"
    and tn: "insert_all ND (length (dv_arena d)) [\<lparr>ai_addr = V4 ip, ai_cidr = 32\<rparr>] (dv_by_ip d) = Ok tn"
    and p: "p = \<lparr>p_tunnel = t, p_limiter = length (dv_limiters d), p_index = idx,
          p_endpoint = \<lparr>ep_addr = None, ep_conn = False\<rparr>, p_allowed = tp, p_preshared_key = None,
          p_quota = Some (new_quota DEFAULT_QUOTA_BYTES)\<rparr>"
    and d': "d' = d\<lparr>dv_next_index := l, dv_arena := dv_arena d @ [p], dv_limiters := dv_limiters d @ [rl],
          dv_peers := AList.update k (length (dv_arena d)) (dv_peers d),
          dv_by_idx := AList.update idx (length (dv_arena d)) (dv_by_idx d), dv_by_ip := tn\<rparr>"
    by (rule update_peer_Ok [OF up'])
  have key: "peer_key p = k" using t by (auto simp: p peer_key_def tunn_new_def handshake_new_def noise_params_new_def Let_def)
  have "trunc (V4 ip) 32 = Some (V4 ip, 32)" using host by (simp add: host_routes_def)
  then have entries: "ED (dv_by_ip d') m = (if m = (V4 ip, 32) then Some (length (dv_arena d)) else ED (dv_by_ip d) m)" for m
    using insert_all_entries [OF nets(2) tn, of m] by (auto simp: d')
  have arena: "dv_arena d' = dv_arena d @ [p]" by (simp add: d')
  have in_arena: "r < length (dv_arena d)" if "ED (dv_by_ip d) m = Some r" for m r
    using dev_okD(4) [OF n that] dev_okD(2) [OF n] by blast
  show "routes_ok EP ED trunc d'"
    using update_peer_ok [OF n nets up'] ok \<open>trunc (V4 ip) 32 = Some (V4 ip, 32)\<close>
    unfolding routes_ok_def tables_consistent_def entries by (metis (full_types))
  show "host_owner ED d' a = (if a = ip then Some k else host_owner ED d a)"
    using key in_arena arena by (cases "ED (dv_by_ip d) (V4 a, 32)") (auto simp: host_owner_def entries nth_append)
  show "map_of (dv_peers d) k = None" by (rule new)
qed

lemma remove_client_routes:
  assumes tab: "tables_ok NP ND EP ED contains trunc" and ok: "routes_ok EP ED trunc d" and rm: "remove_peer ND os d k = Ok d'"
  shows "routes_ok EP ED trunc d'" and "host_owner ED d a \<noteq> Some k \<Longrightarrow> host_owner ED d' a = host_owner ED d a"
proof -
  have net: "net_table_ok ND ED contains trunc" using tab by (simp add: tables_ok_def)
  obtain n where n: "dev_ok EP ED n d" using ok by (auto simp: routes_ok_def tables_consistent_def)
  have n': "dev_ok EP ED n d'" by (rule remove_peer_ok(1) [OF n net rm])
  have "routes_ok EP ED trunc d' \<and> (host_owner ED d a \<noteq> Some k \<longrightarrow> host_owner ED d' a = host_owner ED d a)"
  proof (cases "map_of (dv_peers d) k")
    case None
    then show ?thesis using rm ok by (simp add: remove_peer_def)
  next
    case (Some r)
    then obtain p where p: "shutdown_endpoint os (dv_arena d ! r) = Ok p"
      and arena: "dv_arena d' = (dv_arena d)[r := p]" and by_ip: "dv_by_ip d' = allowed_remove ND (dv_by_ip d) (\<lambda>q. r = q)"
      using rm by (auto simp: remove_peer_def rbind_eq_Ok Let_def)
    have r: "r < length (dv_arena d)" "peer_key (dv_arena d ! r) = k" using dev_okD(2) [OF n Some] by simp_all
    have entries: "ED (dv_by_ip d') m = (case ED (dv_by_ip d) m of None \<Rightarrow> None | Some q \<Rightarrow> if q = r then None else Some q)" for m
      unfolding by_ip allowed_remove_def net_table_laws(5) [OF net] by (auto split: option.split)
    have sub: "ED (dv_by_ip d') m = Some q \<Longrightarrow> ED (dv_by_ip d) m = Some q" for m q
      by (auto simp: entries split: option.splits if_splits)
    have "routes_ok EP ED trunc d'"
      using ok n' sub unfolding routes_ok_def tables_consistent_def by blast
    moreover have "host_owner ED d' a = host_owner ED d a" if "host_owner ED d a \<noteq> Some k"
      using that r by (cases "ED (dv_by_ip d) (V4 a, 32)") (auto simp: host_owner_def entries arena nth_list_update)
    ultimately show ?thesis by blast
  qed
  then show "routes_ok EP ED trunc d'" and "host_owner ED d a \<noteq> Some k \<Longrightarrow> host_owner ED d' a = host_owner ED d a" by blast+
qed

lemma same_config_routes:
  assumes "same_config d d'" and "routes_ok EP ED trunc d"
  shows "routes_ok EP ED trunc d'" and "host_owner ED d' = host_owner ED d"
proof -
  have same: "dv_peers d' = dv_peers d" "dv_by_ip d' = dv_by_ip d" "dv_by_idx d' = dv_by_idx d" "dv_next_index d' = dv_next_index d"
    "same_peers (dv_arena d) (dv_arena d')" using assms(1) by (simp_all add: same_config_def)
  obtain n where n: "dev_ok EP ED n d" using assms(2) by (auto simp: routes_ok_def tables_consistent_def)
  have "dev_ok EP ED n (d\<lparr>dv_arena := dv_arena d'\<rparr>)" by (rule dev_ok_arena [OF n same(5)])
  then have "dev_ok EP ED n d'" by (subst dev_ok_cong [of d' "d\<lparr>dv_arena := dv_arena d'\<rparr>"]) (simp_all add: same)
  then show "routes_ok EP ED trunc d'" using assms(2) same(2) unfolding routes_ok_def tables_consistent_def by auto
  have "peer_key (dv_arena d' ! r) = peer_key (dv_arena d ! r)" if "ED (dv_by_ip d) m = Some r" for m r
    using dev_okD(4) [OF n that] dev_okD(2) [OF n] same(5) unfolding same_peers_def by metis
  then show "host_owner ED d' = host_owner ED d"
    by (auto simp: fun_eq_iff host_owner_def same(2) map_option_case split: option.split)
qed

lemma host_owner_routed:
  assumes tab: "tables_ok NP ND EP ED contains trunc" and host: "host_routes contains trunc" and ok: "routes_ok EP ED trunc d"
    and owner: "host_owner ED d ip = Some k"
  shows "\<exists>r. allowed_find ND (dv_by_ip d) (V4 ip) = Some r \<and> map_of (dv_peers d) k = Some r \<and> is_allowed_ip NP (dv_arena d ! r) (V4 ip)"
proof -
  have nets: "net_table_ok NP EP contains trunc" "net_table_ok ND ED contains trunc" using tab by (simp_all add: tables_ok_def)
  obtain n where n: "dev_ok EP ED n d" using ok by (auto simp: routes_ok_def tables_consistent_def)
  obtain r where r: "ED (dv_by_ip d) (V4 ip, 32) = Some r" "peer_key (dv_arena d ! r) = k"
    using owner by (auto simp: host_owner_def)
  have self: "contains (V4 ip, 32) (V4 ip)" using host by (simp add: host_routes_def)
  have "allowed_find ND (dv_by_ip d) (V4 ip) \<noteq> None" by (rule find_contained [OF nets(2) _ self]) (simp add: r(1))
  then obtain m q where m: "longest_match ND (dv_by_ip d) (V4 ip) = Some (m, q)" by (auto simp: allowed_find_def)
  then have q: "ED (dv_by_ip d) m = Some q" "contains m (V4 ip)" "(32 :: u8) \<le> snd m"
    using net_table_laws(4) [OF nets(2), where t = "dv_by_ip d" and a = "V4 ip"] r(1) self by fastforce+
  then have "m = (V4 ip, 32)" using ok host unfolding routes_ok_def host_routes_def by blast
  then have "q = r" using q(1) r(1) by simp
  then have found: "allowed_find ND (dv_by_ip d) (V4 ip) = Some r" using m by (simp add: allowed_find_def)
  obtain k' where k': "map_of (dv_peers d) k' = Some r" "EP (p_allowed (dv_arena d ! r)) (V4 ip, 32) \<noteq> None"
    using dev_okD(4) [OF n r(1)] by blast
  have "k' = k" using dev_okD(2) [OF n k'(1)] r(2) by simp
  moreover have "is_allowed_ip NP (dv_arena d ! r) (V4 ip)"
    using find_contained [OF nets(1) k'(2) self] by (simp add: is_allowed_ip_def)
  ultimately show ?thesis using found k'(1) by blast
qed

section \<open>The contract between registry and device\<close>

lemma client_ip_inj: "client_ip prefix o1 = client_ip prefix o2 \<longleftrightarrow> o1 = o2"
proof -
  obtain a b c where p: "prefix = (a, b, c)" by (cases prefix)
  have oct: "octets (ipv4_new a b c x) = [a, b, c, x]" for x
    using be_bytes_from_be [where 'a = 32 and n = 4 and bs = "[a, b, c, x]"] by (simp add: octets_def ipv4_new_def)
  have "o1 = o2" if "ipv4_new a b c o1 = ipv4_new a b c o2" using arg_cong [OF that, of octets] by (simp add: oct)
  then show ?thesis by (auto simp: client_ip_def p)
qed

text \<open>What the registry relies on: adding a client makes it the owner of its address and of no other, removing one leaves the other
  owners alone, and a removal over a reliable link that reports no success has done nothing.\<close>

locale peer_registrar =
  fixes add :: "'x \<Rightarrow> bytes \<Rightarrow> ipv4 \<Rightarrow> 'd \<Rightarrow> (unit, 'd \<times> (string, unit) rust) rust"
    and remove :: "'x \<Rightarrow> bytes \<Rightarrow> 'd \<Rightarrow> (unit, 'd \<times> (string, bool) rust) rust"
    and reliable :: "'x \<Rightarrow> bool" and good :: "'d \<Rightarrow> bool" and owner :: "'d \<Rightarrow> ipv4 \<rightharpoonup> bytes"
  assumes add_good: "good d \<Longrightarrow> length k = 32 \<Longrightarrow> add x k ip d = Ok (d', r) \<Longrightarrow> good d'"
    and add_other: "good d \<Longrightarrow> length k = 32 \<Longrightarrow> add x k ip d = Ok (d', r) \<Longrightarrow> a \<noteq> ip \<Longrightarrow> owner d' a = owner d a"
    and add_owner: "good d \<Longrightarrow> length k = 32 \<Longrightarrow> add x k ip d = Ok (d', Ok ()) \<Longrightarrow> owner d' ip = Some k"
    and remove_good: "good d \<Longrightarrow> length k = 32 \<Longrightarrow> remove x k d = Ok (d', b) \<Longrightarrow> good d'"
    and remove_other: "good d \<Longrightarrow> length k = 32 \<Longrightarrow> remove x k d = Ok (d', b) \<Longrightarrow> owner d a \<noteq> Some k \<Longrightarrow> owner d' a = owner d a"
    and remove_failed: "reliable x \<Longrightarrow> length k = 32 \<Longrightarrow> remove x k d = Ok (d', b) \<Longrightarrow> b \<noteq> Ok True \<Longrightarrow> d' = d"
begin

lemma attempted:
  assumes "registry_linked prefix inner (owner d)" "good d" "length k = 32" "octet \<in> set (available_ips inner)"
    and "add x k (client_ip prefix octet) d = Ok (d', r)"
  shows "registry_linked prefix inner (owner d')"
proof -
  have "owner d' (client_ip prefix o') = owner d (client_ip prefix o')" if "map_of (peer_to_octet inner) key = Some o'" for key o'
  proof -
    have "o' \<in> snd ` set (peer_to_octet inner)" using map_of_SomeD [OF that] by force
    then have "o' \<noteq> octet" using assms(1,4) unfolding registry_linked_def pool_ok_def by blast
    then have "client_ip prefix o' \<noteq> client_ip prefix octet" by (simp add: client_ip_inj)
    then show ?thesis using add_other [OF assms(2,3,5)] by blast
  qed
  then show ?thesis using assms(1) unfolding registry_linked_def by auto
qed

lemma added:
  assumes "registry_linked prefix inner (owner d)" "good d" "length k = 32" "octet \<in> set (available_ips inner)"
    "hex_of k \<notin> registered_peers inner" and "add x k (client_ip prefix octet) d = Ok (d', Ok ())"
  shows "registry_linked prefix (record_peer now (hex_of k) octet inner) (owner d')"
proof -
  have "pool_ok (record_peer now (hex_of k) octet inner)"
    using pool_record assms(1,4,5) by (simp add: registry_linked_def)
  moreover have "map_of (peer_to_octet (record_peer now (hex_of k) octet inner)) = (map_of (peer_to_octet inner))(hex_of k \<mapsto> octet)"
    by (simp add: record_peer_def update_conv')
  ultimately show ?thesis
    using attempted [OF assms(1-4,6)] add_owner [OF assms(2,3,6)] assms(3) unfolding registry_linked_def by auto
qed

lemma removed:
  assumes "registry_linked prefix inner (owner d)" "good d" "length k = 32" "map_of (peer_to_octet inner) (hex_of k) = Some octet"
    and "reliable x" "remove x k d = Ok (d', r)"
  shows "registry_linked prefix (if r = Ok True then forget_peer (hex_of k) octet inner else inner) (owner d')"
proof (cases "r = Ok True")
  case True
  have "pool_ok (forget_peer (hex_of k) octet inner)" using pool_forget assms(1,4) by (simp add: registry_linked_def)
  moreover have "map_of (peer_to_octet (forget_peer (hex_of k) octet inner)) = (map_of (peer_to_octet inner))(hex_of k := None)"
    by (simp add: forget_peer_def delete_conv')
  moreover have "\<exists>k'. key = hex_of k' \<and> length k' = 32 \<and> owner d' (client_ip prefix o') = Some k'"
    if other: "key \<noteq> hex_of k" and entry: "map_of (peer_to_octet inner) key = Some o'" for key o'
  proof -
    obtain k' where k': "key = hex_of k'" "length k' = 32" "owner d (client_ip prefix o') = Some k'"
      using assms(1) entry unfolding registry_linked_def by blast
    then have "owner d (client_ip prefix o') \<noteq> Some k" using other by auto
    from remove_other [OF assms(2,3,6) this] show ?thesis using k' by auto
  qed
  ultimately show ?thesis using True unfolding registry_linked_def by (simp split: if_splits)
next
  case False
  then show ?thesis using assms(1) remove_failed [OF assms(5,3,6) False] by simp
qed

end

interpretation registrar: peer_registrar
    "\<lambda>x k. uapi_set_peer C E B NP ND (fst x) (snd x) (hex_of k)" "\<lambda>x k. uapi_remove_peer C E B NP ND (fst x) (snd x) (hex_of k)"
    reliable_link "registry_device NP ND EP ED contains trunc" "host_owner ED"
  for C E B and NP :: "(unit, 'a) net_table" and ND :: "(nat, 'b) net_table" and EP ED contains trunc
proof
  fix d d' :: "('a, 'b) device" and k x ip r a
  assume good: "registry_device NP ND EP ED contains trunc d" and k: "length k = 32"
    and add: "uapi_set_peer C E B NP ND (fst x) (snd x) (hex_of k) ip d = Ok (d', r)"
  note laws = good [unfolded registry_device_def]
  have routes: "routes_ok EP ED trunc d' \<and> (\<forall>a. a \<noteq> ip \<longrightarrow> host_owner ED d' a = host_owner ED d a)
      \<and> (r = Ok () \<longrightarrow> host_owner ED d' ip = Some k)"
    using uapi_set_peer_does [OF k add] laws commit_client_routes(1,2) [of NP ND EP ED contains trunc d C _ k ip d'] by auto
  then show "registry_device NP ND EP ED contains trunc d'" using laws by (simp add: registry_device_def)
  show "a \<noteq> ip \<Longrightarrow> host_owner ED d' a = host_owner ED d a" using routes by blast
next
  fix d d' :: "('a, 'b) device" and k x ip
  assume good: "registry_device NP ND EP ED contains trunc d" and k: "length k = 32"
    and add: "uapi_set_peer C E B NP ND (fst x) (snd x) (hex_of k) ip d = Ok (d', Ok ())"
  then show "host_owner ED d' ip = Some k"
    using uapi_set_peer_does [OF k add] commit_client_routes(2) [of NP ND EP ED contains trunc d C _ k ip d']
    unfolding registry_device_def by auto
next
  fix d d' :: "('a, 'b) device" and k x b a
  assume good: "registry_device NP ND EP ED contains trunc d" and k: "length k = 32"
    and rm: "uapi_remove_peer C E B NP ND (fst x) (snd x) (hex_of k) d = Ok (d', b)"
  note laws = good [unfolded registry_device_def]
  show "registry_device NP ND EP ED contains trunc d'"
    using uapi_remove_peer_does [OF k rm] laws remove_client_routes(1) [of NP ND EP ED contains trunc d]
    unfolding registry_device_def by blast
  show "host_owner ED d a \<noteq> Some k \<Longrightarrow> host_owner ED d' a = host_owner ED d a"
    using uapi_remove_peer_does [OF k rm] laws remove_client_routes(2) [of NP ND EP ED contains trunc d] by blast
next
  fix d d' :: "('a, 'b) device" and k x b
  assume "reliable_link x" and k: "length k = 32"
    and rm: "uapi_remove_peer C E B NP ND (fst x) (snd x) (hex_of k) d = Ok (d', b)" and "b \<noteq> Ok True"
  then show "d' = d" using uapi_remove_peer_does [OF k rm] by (cases "fst x") (auto simp: reliable_link_def)
qed

section \<open>What a request does\<close>

lemma pool_eq_refl [simp]: "pool_eq i i"
  by (simp add: pool_eq_def)

lemma pool_eq_ok: "pool_eq i j \<Longrightarrow> pool_ok i \<longleftrightarrow> pool_ok j"
  by (simp add: pool_eq_def pool_ok_def)

lemma pool_eq_linked: "pool_eq i j \<Longrightarrow> registry_linked p i ow \<longleftrightarrow> registry_linked p j ow"
  by (simp add: registry_linked_def pool_eq_ok) (simp add: pool_eq_def)

lemma pool_eq_trans: "pool_eq i j \<Longrightarrow> pool_eq j k \<Longrightarrow> pool_eq i k"
  by (simp add: pool_eq_def)

lemma populate_cache_does:
  assumes "populate_cache C E B NP ND v inner d = Ok (d', r)"
  shows "d' = d" and "r = Inr inner' \<Longrightarrow> pool_eq inner' inner" and "r = Inl reply \<Longrightarrow> fst reply \<noteq> 200"
proof -
  have "d' = d \<and> (\<forall>inner'. r = Inr inner' \<longrightarrow> pool_eq inner' inner) \<and> (\<forall>reply. r = Inl reply \<longrightarrow> fst reply \<noteq> 200)"
  proof (cases "server_pubkey_cache inner = None")
    case True
    obtain d1 q where get: "uapi_get_peers C E B NP ND (fst (re_get v)) (snd (re_get v)) d = Ok (d1, q)"
      using assms True by (auto simp: populate_cache_def rbind_eq_Ok)
    have d1: "d1 = d" by (rule uapi_get_peers_device [OF get])
    show ?thesis
    proof (cases q)
      case (Ok answer)
      obtain own port peers where "answer = (own, port, peers)" by (cases answer)
      then show ?thesis using assms True get d1 Ok by (cases own) (auto simp: populate_cache_def pool_eq_def)
    qed (use assms True get d1 in \<open>auto simp: populate_cache_def\<close>)
  qed (use assms in \<open>auto simp: populate_cache_def\<close>)
  then show "d' = d" and "r = Inr inner' \<Longrightarrow> pool_eq inner' inner" and "r = Inl reply \<Longrightarrow> fst reply \<noteq> 200" by blast+
qed

text \<open>The four ways in which \<^verbatim>\<open>handle_registration\<close> ends: without a change, with the address of a key that is known, after a failed
  attempt to add a key, and with a key added.\<close>

lemma handle_registration_cases:
  assumes ok: "handle_registration C E B NP ND v pk s d = Ok (s', d', reply)"
  obtains (unchanged) "d' = d" "pool_eq (rg_inner s') (rg_inner s)" "subnet_prefix s' = subnet_prefix s" "fst reply \<noteq> 200"
    | (known) k octet where "b64_decode B (trim pk) = Some k" "length k = 32" "d' = d" "pool_eq (rg_inner s') (rg_inner s)"
        "subnet_prefix s' = subnet_prefix s" "map_of (peer_to_octet (rg_inner s)) (hex_encode E k) = Some octet"
        "reply = success_reply E s' (rg_inner s') octet"
    | (failed) k octet e where "b64_decode B (trim pk) = Some k" "length k = 32"
        "hex_encode E k \<notin> registered_peers (rg_inner s) \<or> map_of (peer_to_octet (rg_inner s)) (hex_encode E k) = None"
        "octet \<in> set (available_ips (rg_inner s))"
        "uapi_set_peer C E B NP ND (fst (re_set v)) (snd (re_set v)) (hex_encode E k) (client_ip (subnet_prefix s) octet) d = Ok (d', Err e)"
        "pool_eq (rg_inner s') (rg_inner s)" "subnet_prefix s' = subnet_prefix s" "fst reply \<noteq> 200"
    | (added) k octet inner where "b64_decode B (trim pk) = Some k" "length k = 32"
        "hex_encode E k \<notin> registered_peers (rg_inner s) \<or> map_of (peer_to_octet (rg_inner s)) (hex_encode E k) = None"
        "octet \<in> set (available_ips (rg_inner s))"
        "uapi_set_peer C E B NP ND (fst (re_set v)) (snd (re_set v)) (hex_encode E k) (client_ip (subnet_prefix s) octet) d = Ok (d', Ok ())"
        "pool_eq inner (rg_inner s)" "s' = s\<lparr>rg_inner := record_peer (re_instant v) (hex_encode E k) octet inner\<rparr>"
        "reply = success_reply E s' (rg_inner s') octet"
proof -
  note defn = ok [unfolded handle_registration_def Let_def]
  show thesis
  proof (cases "b64_decode B (trim pk)")
    case None
    then show thesis using defn by (intro unchanged) auto
  next
    case (Some k)
    show thesis
    proof (cases "length k = 32")
      case False
      then show thesis using defn Some by (intro unchanged) auto
    next
      case len: True
      obtain d1 cached where cache: "populate_cache C E B NP ND v (rg_inner s) d = Ok (d1, cached)"
        using defn Some len by (auto simp: rbind_eq_Ok)
      note does = populate_cache_does [OF cache]
      show thesis
      proof (cases cached)
        case (Inl r)
        then show thesis using defn Some len cache does by (intro unchanged) auto
      next
        case (Inr inner)
        note eq = does(2) [OF Inr] and d1 = does(1)
        have same: "registered_peers inner = registered_peers (rg_inner s)" "available_ips inner = available_ips (rg_inner s)"
          "peer_to_octet inner = peer_to_octet (rg_inner s)" using eq by (simp_all add: pool_eq_def)
        let ?hex = "hex_encode E k"
        show thesis
        proof (cases "if ?hex \<in> registered_peers inner then map_of (peer_to_octet inner) ?hex else None")
          case octet: (Some octet)
          then have "s' = s\<lparr>rg_inner := inner\<rparr>" "d' = d" "reply = success_reply E (s\<lparr>rg_inner := inner\<rparr>) inner octet"
            using defn Some len cache Inr d1 by auto
          moreover have "map_of (peer_to_octet (rg_inner s)) ?hex = Some octet" using octet same by (auto split: if_splits)
          ultimately show thesis using eq by (intro known [OF Some len]) auto
        next
          case none: None
          then have fresh: "?hex \<notin> registered_peers (rg_inner s) \<or> map_of (peer_to_octet (rg_inner s)) ?hex = None"
            using same by (auto split: if_splits)
          show thesis
          proof (cases "available_ips inner = []")
            case True
            then show thesis using defn Some len cache Inr none d1 eq by (intro unchanged) auto
          next
            case False
            define octet where "octet = available_ips inner ! (re_pick v mod length (available_ips inner))"
            have mem: "octet \<in> set (available_ips (rg_inner s))" using False same by (auto simp: octet_def)
            obtain d2 r where set: "uapi_set_peer C E B NP ND (fst (re_set v)) (snd (re_set v)) ?hex (client_ip (subnet_prefix s) octet) d = Ok (d2, r)"
              using defn Some len cache Inr none False d1 by (auto simp: rbind_eq_Ok octet_def)
            show thesis
            proof (cases r)
              case (Ok u)
              then show thesis using defn Some len cache Inr none False d1 set eq
                by (intro added [OF Some len fresh mem]) (auto simp: octet_def [symmetric] success_reply_def)
            next
              case (Err e)
              then show thesis using defn Some len cache Inr none False d1 set eq
                by (intro failed [OF Some len fresh mem]) (auto simp: octet_def [symmetric])
            next
              case Panic
              then show thesis using defn Some len cache Inr none False d1 set by (auto simp: octet_def [symmetric])
            qed
          qed
        qed
      qed
    qed
  qed
qed

text \<open>A request that is not a registration leaves pool and device alone.\<close>

lemma registration_v2_cases:
  assumes "handle_registration_v2 C E B from_json NP ND v body s d = Ok (s', d', reply)"
  obtains (unchanged) "d' = d" "s' = s" "fst reply \<noteq> 200"
    | (registration) j pk s1 where "from_json (trim body) = Some j" "Option.bind (jget j ''public_key'') as_str = Some pk"
        "pool_eq (rg_inner s1) (rg_inner s)" "subnet_prefix s1 = subnet_prefix s"
        "handle_registration C E B NP ND v pk s1 d = Ok (s', d', reply)"
proof (cases "from_json (trim body)")
  case None
  then show thesis using assms by (intro unchanged) (auto simp: handle_registration_v2_def)
next
  case j: (Some j)
  show thesis
  proof (cases "Option.bind (jget j ''public_key'') as_str")
    case None
    then show thesis using assms j by (intro unchanged) (auto simp: handle_registration_v2_def)
  next
    case pk: (Some pk)
    show thesis
    proof (cases "human_only v")
      case False
      then show thesis using assms j pk by (intro registration [OF j pk, of s]) (auto simp: handle_registration_v2_def)
    next
      case True
      show thesis
      proof (cases "jget j ''world_proof''")
        case None
        then show thesis using assms j pk True by (intro unchanged) (auto simp: handle_registration_v2_def)
      next
        case wp: (Some p)
        show thesis
        proof (cases "verify_world_proof from_json v s p")
          case (Ok n)
          let ?s = "s\<lparr>rg_inner := (rg_inner s)\<lparr>used_nullifiers := insert n (used_nullifiers (rg_inner s))\<rparr>\<rparr>"
          show thesis using assms j pk True wp Ok
            by (intro registration [OF j pk, of ?s]) (auto simp: handle_registration_v2_def pool_eq_def Let_def)
        qed (use assms j pk True wp in \<open>auto simp: handle_registration_v2_def intro: unchanged\<close>)
      qed
    qed
  qed
qed

lemma rate_limit_does: "rate_limit rnd now rq s = (s', b) \<Longrightarrow> rg_inner s' = rg_inner s \<and> subnet_prefix s' = subnet_prefix s"
  by (auto simp: rate_limit_def Let_def split: option.splits prod.splits)

lemma http_handler_cases:
  assumes "http_handler C E B from_json rnd NP ND now v rq s d = Ok (s', d', reply)"
  obtains (unchanged) "d' = d" "rg_inner s' = rg_inner s" "subnet_prefix s' = subnet_prefix s" "is_register rq \<Longrightarrow> fst reply \<noteq> 200"
    | (registration) n body j pk s1 where "rq_body rq = Ok (n, body)" "from_json (trim body) = Some j"
        "Option.bind (jget j ''public_key'') as_str = Some pk"
        "pool_eq (rg_inner s1) (rg_inner s)" "subnet_prefix s1 = subnet_prefix s"
        "handle_registration C E B NP ND v pk s1 d = Ok (s', d', reply)"
proof (cases "(case rq_body_length rq of Some n \<Rightarrow> n | None \<Rightarrow> 0) > MAX_BODY_BYTES")
  case True
  then show thesis using assms by (intro unchanged) (auto simp: http_handler_def)
next
  case small: False
  obtain s0 allowed where limit: "rate_limit rnd now rq s = (s0, allowed)" by fastforce
  note same = rate_limit_does [OF limit]
  show thesis
  proof (cases "allowed \<and> is_register rq")
    case False
    then show thesis using assms small limit same
      by (intro unchanged) (auto simp: http_handler_def is_register_def split: if_splits bool.splits)
  next
    case True
    have eq: "http_handler C E B from_json rnd NP ND now v rq s d =
        (case rq_body rq of
           Ok (n, body) \<Rightarrow>
             if n > MAX_BODY_BYTES then Ok (s0, d, 413, error_body ''request body too large'')
             else handle_registration_v2 C E B from_json NP ND v body s0 d
         | Err _ \<Rightarrow> Ok (s0, d, 400, error_body ''failed to read body'')
         | Panic \<Rightarrow> Panic)"
      using small limit True by (simp add: http_handler_def is_register_def)
    show thesis
    proof (cases "rq_body rq")
      case (Ok p)
      obtain n body where p: "p = (n, body)" by (cases p)
      show thesis
      proof (cases "n > MAX_BODY_BYTES")
        case True
        then show thesis using assms eq Ok p same by (intro unchanged) auto
      next
        case False
        then have "handle_registration_v2 C E B from_json NP ND v body s0 d = Ok (s', d', reply)" using assms eq Ok p by simp
        then show thesis
        proof (cases rule: registration_v2_cases)
          case unchanged
          then show thesis using same by (intro that(1)) auto
        next
          case (registration j pk s1)
          then show thesis using same Ok p by (intro that(2)) auto
        qed
      qed
    qed (use assms eq same in \<open>auto intro: unchanged\<close>)
  qed
qed

section \<open>The pool along a run\<close>

lemma handle_registration_pool:
  assumes "pool_ok (rg_inner s)" "handle_registration C E B NP ND v pk s d = Ok (s', d', reply)"
  shows "pool_ok (rg_inner s')"
  using assms(2)
proof (cases rule: handle_registration_cases)
  case (added k octet inner)
  then have ok: "pool_ok inner" using assms(1) pool_eq_ok by blast
  have "available_ips inner = available_ips (rg_inner s)" "registered_peers inner = registered_peers (rg_inner s)"
    using added(6) by (simp_all add: pool_eq_def)
  then show ?thesis using pool_record [OF ok] added(3,4,7) registered_iff [OF assms(1)] by auto
qed (use assms(1) pool_eq_ok in blast)+

lemma reap_pool:
  assumes "pool_ok inner" "distinct (map fst rs)" "\<forall>(key, octet) \<in> set rs. map_of (peer_to_octet inner) key = Some octet"
    and "reap C E B NP ND L rs inner d = Ok (inner', d')"
  shows "pool_ok inner'"
  using assms
proof (induction rs arbitrary: L inner d)
  case (Cons p rs)
  obtain key octet where p: "p = (key, octet)" by (cases p)
  obtain d1 and r :: "(string, bool) rust" where step: "reap C E B NP ND (\<lambda>i. L (Suc i)) rs (if r = Ok True then forget_peer key octet inner else inner) d1 = Ok (inner', d')"
    using Cons.prems(4) p by (auto simp: rbind_eq_Ok)
  have "pool_ok (if r = Ok True then forget_peer key octet inner else inner)"
    using Cons.prems(1,3) p pool_forget by auto
  moreover have "\<forall>(k, oct) \<in> set rs. map_of (peer_to_octet (if r = Ok True then forget_peer key octet inner else inner)) k = Some oct"
    using Cons.prems(2,3) p by (force simp: forget_peer_def delete_conv')
  ultimately show ?case using Cons.IH [OF _ _ _ step] Cons.prems(2) by simp
qed simp

lemma stale_entries:
  assumes "pool_ok inner"
  shows "distinct (map fst (filter P (peer_to_octet inner)))"
    and "\<forall>(key, octet) \<in> set (filter P (peer_to_octet inner)). map_of (peer_to_octet inner) key = Some octet"
proof -
  have "distinct (map fst (peer_to_octet inner))" using assms by (simp only: pool_ok_def)
  then show "distinct (map fst (filter P (peer_to_octet inner)))"
    and "\<forall>(key, octet) \<in> set (filter P (peer_to_octet inner)). map_of (peer_to_octet inner) key = Some octet"
    by (auto simp: distinct_map_filter)
qed

lemma reg_do_pool:
  assumes "pool_ok (rg_inner (w_state w))" "reg_do C E B from_json rnd NP ND w x = Ok (w', reply)"
  shows "pool_ok (rg_inner (w_state w'))"
proof (cases x)
  case (Http now v rq)
  then obtain s d rep where "http_handler C E B from_json rnd NP ND now v rq (w_state w) (w_device w) = Ok (s, d, rep)"
    and w': "w_state w' = s" using assms(2) by (auto simp: rbind_eq_Ok)
  then show ?thesis
  proof (cases rule: http_handler_cases)
    case unchanged
    then show ?thesis using assms(1) w' by simp
  next
    case (registration n body j pk s1)
    then show ?thesis using handle_registration_pool [OF _ registration(6)] pool_eq_ok assms(1) w' by blast
  qed
next
  case (ReaperSweep L now prune_now)
  show ?thesis
  proof (cases "w_snapshot w")
    case None
    then show ?thesis using assms ReaperSweep by auto
  next
    case (Some peers)
    then obtain inner d where "reap C E B NP ND L (filter (\<lambda>(key, _). is_stale peers now (rg_inner (w_state w)) key)
        (peer_to_octet (rg_inner (w_state w)))) (rg_inner (w_state w)) (w_device w) = Ok (inner, d)"
      and "rg_inner (w_state w') = inner"
      using assms(2) ReaperSweep by (auto simp: rbind_eq_Ok reaper_sweep_def Let_def)
    then show ?thesis using reap_pool [OF assms(1) stale_entries [OF assms(1)]] by blast
  qed
qed (use assms in \<open>auto simp: rbind_eq_Ok\<close>)

section \<open>Registry and device along a run\<close>

lemma handle_registration_linked:
  assumes hex: "hex_ok E" and good: "registry_device NP ND EP ED contains trunc d"
    and lk: "registry_linked (subnet_prefix s) (rg_inner s) (host_owner ED d)"
    and ok: "handle_registration C E B NP ND v pk s d = Ok (s', d', reply)"
  shows "registry_device NP ND EP ED contains trunc d' \<and> registry_linked (subnet_prefix s') (rg_inner s') (host_owner ED d')
    \<and> (fst reply = 200 \<longrightarrow> (\<exists>k octet. b64_decode B (trim pk) = Some k
         \<and> map_of (peer_to_octet (rg_inner s')) (hex_of k) = Some octet
         \<and> reply = success_reply E s' (rg_inner s') octet))"
proof -
  have enc: "hex_encode E k = hex_of k" for k using hex by (simp add: hex_ok_def)
  have pool: "pool_ok (rg_inner s)" using lk by (simp add: registry_linked_def)
  note reg = registrar.attempted [where x = "re_set v"] registrar.added [where x = "re_set v"] registrar.add_good [where x = "re_set v"]
  from ok show ?thesis
  proof (cases rule: handle_registration_cases)
    case unchanged
    then show ?thesis using good lk by (simp add: pool_eq_linked)
  next
    case (known k octet)
    then have "map_of (peer_to_octet (rg_inner s')) (hex_of k) = Some octet" by (simp add: pool_eq_def enc)
    then show ?thesis using known good lk by (auto simp: pool_eq_linked)
  next
    case (failed k octet e)
    note set = failed(5) [unfolded enc]
    show ?thesis using reg(3) [OF good failed(2) set] reg(1) [OF lk good failed(2,4) set] failed(6-8) by (simp add: pool_eq_linked)
  next
    case (added k octet inner)
    note set = added(5) [unfolded enc]
    have lk': "registry_linked (subnet_prefix s) inner (host_owner ED d)" using lk added(6) by (simp add: pool_eq_linked)
    have same: "available_ips inner = available_ips (rg_inner s)" "registered_peers inner = registered_peers (rg_inner s)"
      using added(6) by (simp_all add: pool_eq_def)
    have "octet \<in> set (available_ips inner)" "hex_of k \<notin> registered_peers inner"
      using added(3,4) same registered_iff [OF pool] by (auto simp: enc)
    from reg(2) [OF lk' good added(2) this set] reg(3) [OF good added(2) set]
    have "registry_device NP ND EP ED contains trunc d' \<and> registry_linked (subnet_prefix s') (rg_inner s') (host_owner ED d')"
      by (simp add: added(7) enc)
    moreover have "map_of (peer_to_octet (rg_inner s')) (hex_of k) = Some octet"
      by (simp add: added(7) enc record_peer_def update_conv')
    ultimately show ?thesis using added(1,8) by blast
  qed
qed

lemma reap_linked:
  assumes "registry_device NP ND EP ED contains trunc d" "registry_linked prefix inner (host_owner ED d)"
    and "distinct (map fst rs)" "\<forall>(key, octet) \<in> set rs. map_of (peer_to_octet inner) key = Some octet"
    and "\<forall>i. reliable_link (L i)" "reap C E B NP ND L rs inner d = Ok (inner', d')"
  shows "registry_device NP ND EP ED contains trunc d' \<and> registry_linked prefix inner' (host_owner ED d')"
  using assms
proof (induction rs arbitrary: L inner d)
  case (Cons p rs)
  obtain key octet where p: "p = (key, octet)" by (cases p)
  have entry: "map_of (peer_to_octet inner) key = Some octet" using Cons.prems(4) p by simp
  then obtain k where k: "key = hex_of k" "length k = 32" using Cons.prems(2) unfolding registry_linked_def by blast
  obtain d1 and r :: "(string, bool) rust" where rm: "uapi_remove_peer C E B NP ND (fst (L 0)) (snd (L 0)) (hex_of k) d = Ok (d1, r)"
    and step: "reap C E B NP ND (\<lambda>i. L (Suc i)) rs (if r = Ok True then forget_peer key octet inner else inner) d1 = Ok (inner', d')"
    using Cons.prems(6) p k by (auto simp: rbind_eq_Ok)
  have "registry_linked prefix (if r = Ok True then forget_peer key octet inner else inner) (host_owner ED d1)"
    unfolding k(1) by (rule registrar.removed [OF Cons.prems(2,1) k(2) entry [unfolded k(1)] Cons.prems(5) [rule_format] rm])
  moreover have "registry_device NP ND EP ED contains trunc d1" by (rule registrar.remove_good [OF Cons.prems(1) k(2) rm])
  moreover have "\<forall>(k, oct) \<in> set rs. map_of (peer_to_octet (if r = Ok True then forget_peer key octet inner else inner)) k = Some oct"
    using Cons.prems(3,4) p by (force simp: forget_peer_def delete_conv')
  ultimately show ?case using Cons.IH [OF _ _ _ _ _ step] Cons.prems(3,5) by simp
qed simp

text \<open>Sweeps over reliable links; the other operations are free.\<close>

lemma reg_do_linked:
  assumes hex: "hex_ok E" and good: "registry_device NP ND EP ED contains trunc (w_device w)"
    and lk: "registry_linked (subnet_prefix (w_state w)) (rg_inner (w_state w)) (host_owner ED (w_device w))"
    and adm: "reliable_sweeps x" and ok: "reg_do C E B from_json rnd NP ND w x = Ok (w', reply)"
  shows "registry_device NP ND EP ED contains trunc (w_device w')
    \<and> registry_linked (subnet_prefix (w_state w')) (rg_inner (w_state w')) (host_owner ED (w_device w'))"
proof (cases x)
  case (Http now v rq)
  then obtain s d rep where http: "http_handler C E B from_json rnd NP ND now v rq (w_state w) (w_device w) = Ok (s, d, rep)"
    and w': "w_state w' = s" "w_device w' = d" using ok by (auto simp: rbind_eq_Ok)
  from http show ?thesis
  proof (cases rule: http_handler_cases)
    case unchanged
    then show ?thesis using good lk w' by simp
  next
    case (registration n body j pk s1)
    then have "registry_linked (subnet_prefix s1) (rg_inner s1) (host_owner ED (w_device w))" using lk by (simp add: pool_eq_linked)
    from handle_registration_linked [OF hex good this registration(6)] show ?thesis using w' by simp
  qed
next
  case (ReaperQuery l V)
  then show ?thesis using ok good lk by (auto simp: rbind_eq_Ok dest: uapi_get_peers_device)
next
  case (ReaperSweep L now prune_now)
  show ?thesis
  proof (cases "w_snapshot w")
    case None
    then show ?thesis using ok good lk ReaperSweep by auto
  next
    case (Some peers)
    then obtain inner d where reap: "reap C E B NP ND L (filter (\<lambda>(key, _). is_stale peers now (rg_inner (w_state w)) key)
        (peer_to_octet (rg_inner (w_state w)))) (rg_inner (w_state w)) (w_device w) = Ok (inner, d)"
      and w': "rg_inner (w_state w') = inner" "w_device w' = d" "subnet_prefix (w_state w') = subnet_prefix (w_state w)"
      using ok ReaperSweep by (auto simp: rbind_eq_Ok reaper_sweep_def Let_def)
    have pool: "pool_ok (rg_inner (w_state w))" using lk by (simp add: registry_linked_def)
    show ?thesis using reap_linked [OF good lk stale_entries [OF pool] _ reap] adm ReaperSweep w' by simp
  qed
next
  case (Dataplane d)
  then show ?thesis using ok good lk same_config_routes [of "w_device w" d EP ED trunc]
    by (auto simp: registry_device_def)
qed

text \<open>A device that was configured over the socket alone has networks of the table as its routes.\<close>

lemma update_peer_routes:
  assumes tab: "tables_ok NP ND EP ED contains trunc" and ok: "routes_ok EP ED trunc d"
    and up: "update_peer C NP ND os d pk rm rp addr ips ka psk rs rk st clk = Ok d'"
  shows "routes_ok EP ED trunc d'"
proof (cases rm)
  case True
  then have "remove_peer ND os d pk = Ok d'" using up by (simp add: update_peer_def)
  then show ?thesis by (rule remove_client_routes(1) [OF tab ok])
next
  case False
  have nets: "net_table_ok NP EP contains trunc" "net_table_ok ND ED contains trunc" using tab by (simp_all add: tables_ok_def)
  obtain n where n: "dev_ok EP ED n d" using ok by (auto simp: routes_ok_def tables_consistent_def)
  have up': "update_peer C NP ND os d pk False rp addr ips ka psk rs rk st clk = Ok d'" using up False by simp
  obtain tn where tn: "insert_all ND (length (dv_arena d)) ips (dv_by_ip d) = Ok tn" "dv_by_ip d' = tn"
    by (rule update_peer_Ok [OF up']) simp
  have "dev_ok EP ED (Suc n) d'" by (rule update_peer_ok [OF n nets up'])
  moreover have "\<exists>x l. trunc x l = Some m" if "ED (dv_by_ip d') m = Some r" for m r
  proof (cases "ED (dv_by_ip d) m = Some r")
    case True
    then show ?thesis using ok unfolding routes_ok_def by blast
  next
    case False
    then show ?thesis using that insert_all_entries [OF nets(2) tn(1), of m] unfolding tn(2) by (auto split: if_splits)
  qed
  ultimately show ?thesis unfolding routes_ok_def tables_consistent_def by blast
qed

lemma routes_ok_by_ip:
  "routes_ok EP ED trunc d \<Longrightarrow> dv_by_ip d' = dv_by_ip d \<Longrightarrow> dev_ok EP ED n d' \<Longrightarrow> routes_ok EP ED trunc d'"
  by (auto simp: routes_ok_def tables_consistent_def)

lemma by_ip_kept:
  "set_key C E T d sk rs rk clk nonce now = Ok (d', reqs) \<Longrightarrow> dv_by_ip d' = dv_by_ip d"
  "open_listen_socket os d port = Ok d' \<or> open_listen_socket os d port = Err d' \<Longrightarrow> dv_by_ip d' = dv_by_ip d"
  by (auto simp: set_key_def open_listen_socket_def Let_def rbind_eq_Ok rbind_eq_Err split: if_splits prod.splits rust.splits)
    (cases "shutdown_all os (map snd (dv_peers d)) (dv_arena d)"; cases "os_bind os port"; auto)+

interpretation configured: kept_by_operations C E NP ND "\<lambda>d. tables_ok NP ND EP ED contains trunc \<longrightarrow> routes_ok EP ED trunc d"
  for C E and NP :: "(unit, 'a) net_table" and ND :: "(nat, 'b) net_table" and EP ED contains trunc
proof
  fix d
  assume ok: "tables_ok NP ND EP ED contains trunc \<longrightarrow> routes_ok EP ED trunc d"
  show "tables_ok NP ND EP ED contains trunc \<longrightarrow> routes_ok EP ED trunc (clear_peers ND d)"
  proof
    assume tab: "tables_ok NP ND EP ED contains trunc"
    then obtain n where "dev_ok EP ED n d" using ok by (auto simp: routes_ok_def tables_consistent_def)
    then have "dev_ok EP ED n (clear_peers ND d)" using clear_peers_ok tab by (auto simp: tables_ok_def)
    moreover have "ED (dv_by_ip (clear_peers ND d)) m = None" for m
      using net_table_laws(2) [of ND ED contains trunc m] tab by (simp add: clear_peers_def tables_ok_def)
    ultimately show "routes_ok EP ED trunc (clear_peers ND d)" unfolding routes_ok_def tables_consistent_def by auto
  qed
  show "tables_ok NP ND EP ED contains trunc \<longrightarrow> routes_ok EP ED trunc (d\<lparr>dv_fwmark := m\<rparr>)" for m
    using ok dev_ok_cong [of "d\<lparr>dv_fwmark := m\<rparr>" d EP ED] by (auto simp: routes_ok_def tables_consistent_def)
next
  fix os d pk rm rp addr ips ka psk rs rk st clk d'
  assume ok: "tables_ok NP ND EP ED contains trunc \<longrightarrow> routes_ok EP ED trunc d"
    and up: "update_peer C NP ND os d pk rm rp addr ips ka psk rs rk st clk = Ok d'"
  show "tables_ok NP ND EP ED contains trunc \<longrightarrow> routes_ok EP ED trunc d'"
    using update_peer_routes [OF _ _ up, of EP ED contains trunc] ok by blast
next
  fix T d sk rs rk clk nonce now d' reqs
  assume "tables_ok NP ND EP ED contains trunc \<longrightarrow> routes_ok EP ED trunc d" and "set_key C E T d sk rs rk clk nonce now = Ok (d', reqs)"
  then show "tables_ok NP ND EP ED contains trunc \<longrightarrow> routes_ok EP ED trunc d'"
    using by_ip_kept(1) set_key_ok routes_ok_by_ip unfolding routes_ok_def tables_consistent_def by metis
next
  fix os d port d'
  assume "tables_ok NP ND EP ED contains trunc \<longrightarrow> routes_ok EP ED trunc d"
    and "open_listen_socket os d port = Ok d' \<or> open_listen_socket os d port = Err d'"
  then show "tables_ok NP ND EP ED contains trunc \<longrightarrow> routes_ok EP ED trunc d'"
    using by_ip_kept(2) open_listen_socket_ok routes_ok_by_ip unfolding routes_ok_def tables_consistent_def by metis
qed

lemma new_device_routes:
  assumes "tables_ok NP ND EP ED contains trunc" "lfsr_default seed = Some (l, seed')"
  shows "routes_ok EP ED trunc (device_new ND l uc m cfg)"
proof -
  have none: "ED (table_new ND) n = None" for n
    using net_table_laws(2) [of ND ED contains trunc n] assms(1) by (simp add: tables_ok_def)
  have "dev_ok EP ED 0 (device_new ND l uc m cfg)"
    using lfsr_default_ok [OF assms(2)] none by (intro dev_okI) (simp_all add: device_new_def)
  then show ?thesis using none by (auto simp: routes_ok_def tables_consistent_def device_new_def)
qed

section \<open>Runs of the server\<close>

lemma reg_step_Ok: "fst (reg_step C E B from_json rnd NP ND st x) = Ok w' \<Longrightarrow>
    \<exists>w reply. st = Ok w \<and> reg_do C E B from_json rnd NP ND w x = Ok (w', reply)"
  by (auto simp: reg_step_def rbind_eq_Ok split: rust.splits prod.splits)

interpretation pool_machine: invariant_machine "reg_step C E B from_json rnd NP ND" "\<lambda>_. True" pool_inv
  for C E B from_json rnd and NP :: "(unit, 'a) net_table" and ND :: "(nat, 'b) net_table"
  by unfold_locales (auto simp: pool_inv_def dest!: reg_step_Ok intro: reg_do_pool)

interpretation linked_machine: invariant_machine "reg_step C E B from_json rnd NP ND" reliable_sweeps
    "linked_inv E NP ND EP ED contains trunc"
  for C E B from_json rnd and NP :: "(unit, 'a) net_table" and ND :: "(nat, 'b) net_table" and EP ED contains trunc
proof
  fix st :: "(unit, ('a, 'b) reg_world) rust" and x :: "('a, 'b) reg_op"
  assume inv: "linked_inv E NP ND EP ED contains trunc st" and adm: "reliable_sweeps x"
  show "linked_inv E NP ND EP ED contains trunc (fst (reg_step C E B from_json rnd NP ND st x))"
    unfolding linked_inv_def
  proof (intro impI allI)
    fix w' assume hex: "hex_ok E" and "fst (reg_step C E B from_json rnd NP ND st x) = Ok w'"
    then obtain w reply where w: "st = Ok w" "reg_do C E B from_json rnd NP ND w x = Ok (w', reply)" using reg_step_Ok by blast
    then show "registry_device NP ND EP ED contains trunc (w_device w')
        \<and> registry_linked (subnet_prefix (w_state w')) (rg_inner (w_state w')) (host_owner ED (w_device w'))"
      using inv hex reg_do_linked [OF hex _ _ adm w(2)] unfolding linked_inv_def by blast
  qed
qed

lemma world_new_linked:
  assumes "registry_device NP ND EP ED contains trunc d"
  shows "linked_inv E NP ND EP ED contains trunc (Ok (world_new E env prefix cfg ip d))"
  using assms pool_new [of E env prefix cfg ip]
  by (simp add: linked_inv_def world_new_def registry_linked_def) (simp add: registration_new_def)

text \<open>C15. Whatever requests, queries and sweeps the registration server handles, in whatever interleaving and with whatever exchanges with
  the device failing, its pool is sound: the registered keys are those that have an octet, no two of them share one, the octets lie between
  2 and 254, none of them is free, and free and given octets are 253 in all.\<close>

theorem address_pool_sound:
  assumes "fst (run (reg_step C E B from_json rnd NP ND) (Ok (world_new E env prefix cfg ip d)) xs) = Ok w"
    and "rg_inner (w_state w) = inner"
  shows "registered_peers inner = dom (map_of (peer_to_octet inner))
    \<and> (\<forall>k1 k2 oct. map_of (peer_to_octet inner) k1 = Some oct \<and> map_of (peer_to_octet inner) k2 = Some oct \<longrightarrow> k1 = k2)
    \<and> (\<forall>k oct. map_of (peer_to_octet inner) k = Some oct \<longrightarrow> 2 \<le> oct \<and> oct \<le> 254 \<and> oct \<notin> set (available_ips inner))
    \<and> length (available_ips inner) + length (peer_to_octet inner) = 253"
proof -
  have "pool_inv (Ok (world_new E env prefix cfg ip d))" using pool_new by (simp add: pool_inv_def world_new_def)
  then have "pool_inv (fst (run (reg_step C E B from_json rnd NP ND) (Ok (world_new E env prefix cfg ip d)) xs))"
    by (rule pool_machine.inv_run) (simp add: list_all_iff)
  then have ok: "pool_ok inner" using assms by (simp add: pool_inv_def)
  show ?thesis using pool_ok_facts(1,4) [OF ok] pool_ok_facts(2,3) [OF ok] by blast
qed

section \<open>Reading the answer to a query\<close>

lemma strip_prefix_Some: "strip_prefix p s = Some r \<Longrightarrow> s = p @ r"
  by (induction p s rule: strip_prefix.induct) (auto split: if_splits)

lemma answer_field_line:
  assumes "printable val" "printable key" "CHR ''='' \<notin> set key" "key \<noteq> ''errno''"
  shows "answer_field (field_line key val)"
proof -
  have "strip_prefix ''errno='' (field_line key val) = None"
  proof (rule ccontr)
    assume "strip_prefix ''errno='' (field_line key val) \<noteq> None"
    then obtain r where "field_line key val = ''errno='' @ r" using strip_prefix_Some by blast
    then have "split_once CHR ''='' (field_line key val) = Some (''errno'', r)" by simp
    then show False using split_field_line [OF assms(3)] assms(4) by simp
  qed
  then show ?thesis using assms(1,2) by (simp add: answer_field_def) (simp add: field_line_def)
qed

lemma get_lines_fields:
  assumes "\<forall>l \<in> set ls. answer_field l"
  shows "get_lines E B (as_read ls @ rest) g = get_lines E B rest (fold (get_line E B) ls g)"
  using assms
proof (induction ls arbitrary: g)
  case (Cons l ls)
  then have l: "printable l" "l \<noteq> []" "strip_prefix ''errno='' l = None" by (simp_all add: answer_field_def)
  have "get_lines E B (as_read (l # ls) @ rest) g = get_lines E B (as_read ls @ rest) (get_line E B l g)"
    using l chomp_line [OF l(1)] by (simp add: get_line_def Let_def split: option.split)
  then show ?case using Cons by simp
qed simp

lemma fold_ignored:
  assumes "\<forall>l \<in> set ls. \<forall>g. get_line E B l g = g"
  shows "fold (get_line E B) ls g = g"
  using assms by (induction ls arbitrary: g) auto

lemma get_line_field: "CHR ''='' \<notin> set key \<Longrightarrow> get_line E B (field_line key val) g = get_field E B key val g"
  by (simp add: get_line_def split_field_line)

lemma fold_ignored_field:
  assumes "CHR ''='' \<notin> set key" "key \<notin> {''own_public_key'', ''listen_port'', ''public_key'', ''last_handshake_time_sec''}"
  shows "get_line E B (field_line key val) g = g"
  using assms by (simp add: get_line_field get_field_def)

lemma from_str_radix_secs: "n < 2 ^ 64 \<Longrightarrow> from_str_radix 10 (2 ^ 64 - 1) (to_dec n) = Some n"
  by (rule from_str_radix_to_dec) linarith

lemma hex_ok_encode: "hex_ok E \<Longrightarrow> hex_encode E k = hex_of k"
  by (simp add: hex_ok_def)

lemma time_since_le: "time_since_last_handshake t reading = Ok (Some time) \<Longrightarrow> time \<le> reading"
  by (auto simp: time_since_last_handshake_def Let_def split: option.splits if_splits)

lemma answer_number [simp]: "CHR ''='' \<notin> set key \<Longrightarrow> printable key \<Longrightarrow> key \<noteq> ''errno'' \<Longrightarrow> answer_field (field_line key (to_dec n))"
  by (intro answer_field_line) simp_all

text \<open>The lines of one peer: the peer before it is complete, and this one is read up to its handshake.\<close>

lemma peer_lines_read:
  assumes hex: "hex_ok E" and ls: "peer_lines E NP clk k p = Ok ls" and clk: "clk 0 < 2 ^ 64 * NANOS"
  shows "\<forall>l \<in> set ls. answer_field l"
    and "fold (get_line E B) ls g = (flush_current g)\<lparr>gr_pubkey := Some (hex_of k), gr_handshake := handshake_secs (p_tunnel p) (clk 0)\<rparr>"
proof -
  obtain time where time: "time_since_last_handshake (p_tunnel p) (clk 0) = Ok time"
    using ls by (cases "time_since_last_handshake (p_tunnel p) (clk 0)") (auto simp: peer_lines_def)
  let ?before = "opt_line (p_preshared_key p) (\<lambda>key. [field_line ''preshared_key'' (hex_of key)])
       @ opt_line (persistent_keepalive (p_tunnel p))
           (\<lambda>keepalive. [field_line ''persistent_keepalive_interval'' (to_dec (unat keepalive))])
       @ opt_line (ep_addr (p_endpoint p)) (\<lambda>addr. [field_line ''endpoint'' (show_socket addr)])
       @ map (\<lambda>(ip, cidr). field_line ''allowed_ip'' (show_ip ip @ CHR ''/'' # to_dec (unat cidr))) (allowed_ips NP p)"
  let ?time = "opt_line time (\<lambda>time. [field_line ''last_handshake_time_sec'' (to_dec (time div NANOS)),
            field_line ''last_handshake_time_nsec'' (to_dec (time mod NANOS))])"
  let ?after = "[field_line ''rx_bytes'' (to_dec (unat (rx_bytes (p_tunnel p)))), field_line ''tx_bytes'' (to_dec (unat (tx_bytes (p_tunnel p))))]
       @ opt_line (p_quota p) quota_lines"
  have eq: "ls = field_line ''public_key'' (hex_of k) # ?before @ ?time @ ?after"
    using ls time by (auto simp: peer_lines_def rbind_eq_Ok hex_ok_encode [OF hex] NANOS_def)
  have "\<forall>l \<in> set ?before. answer_field l" "\<forall>l \<in> set ?time. answer_field l" "\<forall>l \<in> set ?after. answer_field l"
    "answer_field (field_line ''public_key'' (hex_of k))"
    by (auto simp: opt_line_def quota_lines_def show_bool_def intro!: answer_field_line split: option.splits)
  then show "\<forall>l \<in> set ls. answer_field l" by (auto simp: eq)
  have before: "fold (get_line E B) ?before g = g" for g
    by (rule fold_ignored) (auto simp: opt_line_def fold_ignored_field split: option.splits)
  have after: "fold (get_line E B) ?after g = g" for g
    by (rule fold_ignored) (auto simp: opt_line_def quota_lines_def fold_ignored_field split: option.splits)
  have secs: "from_str_radix 10 (2 ^ 64 - 1) (to_dec (t div NANOS)) = Some (t div NANOS)" if "time = Some t" for t
  proof (rule from_str_radix_secs)
    have "t < 2 ^ 64 * NANOS" using time_since_le [of "p_tunnel p" "clk 0" t] time that clk by simp
    then show "t div NANOS < 2 ^ 64" by (simp add: less_mult_imp_div_less)
  qed
  have time_read: "fold (get_line E B) ?time g = (case time of None \<Rightarrow> g | Some t \<Rightarrow> g\<lparr>gr_handshake := Some (t div NANOS)\<rparr>)" for g
    using secs by (cases time) (simp_all add: opt_line_def get_line_field get_field_def)
  have "fold (get_line E B) ls g = fold (get_line E B) ?after (fold (get_line E B) ?time (fold (get_line E B) ?before
      (get_line E B (field_line ''public_key'' (hex_of k)) g)))"
    unfolding eq by (simp only: fold_append fold_simps o_apply)
  also have "\<dots> = (flush_current g)\<lparr>gr_pubkey := Some (hex_of k), gr_handshake := handshake_secs (p_tunnel p) (clk 0)\<rparr>"
    unfolding before after time_read
    by (cases time) (simp_all add: get_line_field get_field_def handshake_secs_def time)
  finally show "fold (get_line E B) ls g = \<dots>" .
qed

lemma peers_lines_read:
  assumes hex: "hex_ok E" and "peers_lines E NP clk arena ps = Ok ls" and "\<forall>i. clk i < 2 ^ 64 * NANOS"
  shows "(\<forall>l \<in> set ls. answer_field l)
    \<and> gr_peers (flush_current (fold (get_line E B) ls g)) = gr_peers (flush_current g) ++ map_of (rev (handshake_ages clk arena ps))
    \<and> gr_own (fold (get_line E B) ls g) = gr_own g \<and> gr_port (fold (get_line E B) ls g) = gr_port g"
  using assms(2,3)
proof (induction ps arbitrary: clk ls g)
  case (Cons p ps)
  obtain k r where p: "p = (k, r)" by (cases p)
  obtain l1 l2 where l1: "peer_lines E NP clk k (arena ! r) = Ok l1" and l2: "peers_lines E NP (\<lambda>i. clk (i + 2)) arena ps = Ok l2"
    and ls: "ls = l1 @ l2" using Cons.prems(1) p by (auto simp: rbind_eq_Ok)
  let ?g = "fold (get_line E B) l1 g"
  have clk: "clk 0 < 2 ^ 64 * NANOS" "\<forall>i. clk (i + 2) < 2 ^ 64 * NANOS" using Cons.prems(2) by simp_all
  note one = peer_lines_read [OF hex l1 clk(1)]
  have flush: "gr_peers (flush_current ?g) = (gr_peers (flush_current g))(hex_of k \<mapsto> handshake_secs (p_tunnel (arena ! r)) (clk 0))"
    "gr_own ?g = gr_own g" "gr_port ?g = gr_port g"
    unfolding one(2) by (simp_all add: flush_current_def split: option.split)
  show ?case using Cons.IH [OF l2 clk(2), of ?g] one(1) flush by (auto simp: p ls map_add_def fun_eq_iff split: option.split)
qed simp

lemma hex_of_inj: "hex_of a = hex_of b \<longleftrightarrow> a = b"
proof
  assume eq: "hex_of a = hex_of b"
  then have len: "length a = length b" using length_hex_of by (metis mult_cancel1 zero_neq_numeral)
  have "hex_key 0 (length a) (hex_of a) = Ok (drop 0 a)" by (rule hex_key_hex_of) simp
  moreover have "hex_key 0 (length a) (hex_of b) = Ok (drop 0 b)" by (rule hex_key_hex_of) (simp add: len)
  ultimately have "(Ok (drop 0 a) :: (unit, bytes) rust) = Ok (drop 0 b)" unfolding eq by (rule trans [OF sym])
  then show "a = b" by (simp only: rust.inject drop_0)
qed simp

lemma fst_ages: "map fst (handshake_ages clk arena ps) = map (\<lambda>p. hex_of (fst p)) ps"
  by (induction clk arena ps rule: handshake_ages.induct) auto

lemma map_of_rev_distinct: "distinct (map fst xs) \<Longrightarrow> map_of (rev xs) = map_of xs"
  by (rule map_of_inject_set [THEN iffD2]) (simp_all add: rev_map [symmetric])

lemma ages_rev:
  assumes "distinct (map fst ps)"
  shows "map_of (rev (handshake_ages clk arena ps)) = map_of (handshake_ages clk arena ps)"
proof -
  have "distinct (map hex_of (map fst ps))" using assms by (simp add: distinct_map inj_on_def hex_of_inj)
  then have "distinct (map fst (handshake_ages clk arena ps))" by (simp add: fst_ages comp_def)
  then show ?thesis by (rule map_of_rev_distinct)
qed

lemma get_answer_read:
  assumes hex: "hex_ok E" "\<forall>x. hex_decode E (hex_encode E x) = Some x" and get: "api_get E NP clk d = Ok ls"
    and clk: "\<forall>i. clk i < 2 ^ 64 * NANOS"
  shows "read_get E B (unlines (ls @ [''errno=0'', []])) =
    Ok (map_option (\<lambda>(_, public). b64_encode B public) (dv_key_pair d),
        if dv_listen_port d \<noteq> 0 then Some (dv_listen_port d) else None,
        map_of (rev (handshake_ages clk (dv_arena d) (dv_peers d))))"
proof -
  obtain ms where ms: "peers_lines E NP clk (dv_arena d) (dv_peers d) = Ok ms" using get by (auto simp: api_get_def rbind_eq_Ok)
  let ?own = "opt_line (dv_key_pair d) (\<lambda>(_, public). [field_line ''own_public_key'' (hex_encode E public)])"
  let ?port = "if dv_listen_port d \<noteq> 0 then [field_line ''listen_port'' (to_dec (unat (dv_listen_port d)))] else []"
  let ?mark = "opt_line (dv_fwmark d) (\<lambda>fwmark. [field_line ''fwmark'' (to_dec (unat fwmark))])"
  have ls: "ls = ?own @ ?port @ ?mark @ ms" using get ms by (simp add: api_get_def)
  let ?g0 = "\<lparr>gr_pubkey = None, gr_handshake = None, gr_own = None, gr_port = None, gr_peers = Map.empty\<rparr>"
  let ?g1 = "?g0\<lparr>gr_own := map_option (\<lambda>(_, public). b64_encode B public) (dv_key_pair d),
      gr_port := if dv_listen_port d \<noteq> 0 then Some (dv_listen_port d) else None\<rparr>"
  have own: "fold (get_line E B) ?own ?g0 = ?g0\<lparr>gr_own := map_option (\<lambda>(_, public). b64_encode B public) (dv_key_pair d)\<rparr>"
    using hex(2) by (cases "dv_key_pair d") (auto simp: opt_line_def get_line_field get_field_def)
  have port: "fold (get_line E B) ?port g = (if dv_listen_port d \<noteq> 0 then g\<lparr>gr_port := Some (dv_listen_port d)\<rparr> else g)" for g
    by (simp add: get_line_field get_field_def)
  have mark: "fold (get_line E B) ?mark g = g" for g
    by (cases "dv_fwmark d") (simp_all add: opt_line_def fold_ignored_field)
  have start: "fold (get_line E B) ls ?g0 = fold (get_line E B) ms ?g1"
    unfolding ls by (simp only: fold_append o_apply own port mark) (simp split: if_splits)
  note peers = peers_lines_read [OF hex(1) ms clk]
  have fields: "\<forall>l \<in> set ls. answer_field l"
    using peers by (auto simp: ls opt_line_def hex_ok_encode [OF hex(1)] intro!: answer_field_line split: option.splits if_splits)
  have "\<forall>l \<in> set (ls @ [''errno=0'', []]). printable l" using fields by (auto simp: answer_field_def)
  then have "read_lines (unlines (ls @ [''errno=0'', []])) = as_read ls @ [Some (''errno=0'' @ [newline]), Some [newline]]"
    by (simp only: read_lines_unlines) simp
  moreover have "get_lines E B [Some (''errno=0'' @ [newline]), Some [newline]] g = Ok (flush_current g)" for g
  proof -
    have "chomp (''errno=0'' @ [newline]) = ''errno=0''" by (rule chomp_line) simp
    moreover have "strip_prefix ''errno='' ''errno=0'' \<noteq> None" by simp
    ultimately show ?thesis by (simp only: get_lines.simps Let_def) simp
  qed
  ultimately have "read_get E B (unlines (ls @ [''errno=0'', []])) =
      (let g = flush_current (fold (get_line E B) ls ?g0) in Ok (gr_own g, gr_port g, gr_peers g))"
    using get_lines_fields [OF fields] by (simp only: read_get_def rbind.simps Let_def)
  also have "gr_own (flush_current g) = gr_own g \<and> gr_port (flush_current g) = gr_port g" for g
    by (simp add: flush_current_def split: option.split)
  then have "(let g = flush_current (fold (get_line E B) ls ?g0) in Ok (gr_own g, gr_port g, gr_peers g)) =
      Ok (gr_own ?g1, gr_port ?g1, map_of (rev (handshake_ages clk (dv_arena d) (dv_peers d))))"
    using peers [of B ?g1] unfolding start Let_def by (simp add: flush_current_def)
  finally show ?thesis by simp
qed

lemma uapi_query_read:
  assumes "hex_ok E" "\<forall>x. hex_decode E (hex_encode E x) = Some x"
    and "\<forall>i. ae_clock (V 0) i < 2 ^ 64 * NANOS" "api_get E NP (ae_clock (V 0)) d = Ok ls"
  shows "uapi_get_peers C E B NP ND Answered V d =
    Ok (d, Ok (map_option (\<lambda>(_, public). b64_encode B public) (dv_key_pair d),
      if dv_listen_port d \<noteq> 0 then Some (dv_listen_port d) else None,
      map_of (rev (handshake_ages (ae_clock (V 0)) (dv_arena d) (dv_peers d)))))"
proof -
  have lines: "read_lines (unlines [''get=1'']) = Some (''get=1'' @ [newline]) # []"
    using read_lines_unlines [of "[''get=1'']"] by simp
  have "serve_api C E B NP ND V (unlines [''get=1'']) d = Ok (d, Some (unlines (ls @ [''errno=0'', []])))"
    unfolding serve_get [OF lines pop_line] assms(4) errno_0 by (simp only: rbind.simps)
  then show ?thesis using get_answer_read [OF assms(1,2,4,3), of B]
    by (simp add: uapi_get_peers_def uapi_call_def del: unlines_Cons)
qed

text \<open>C18. What the device prints in answer to a query is what the registration server reads: the base64 text of the device's public key,
  its port when it has one, and for every peer its key in hexadecimal with the seconds since its last handshake.\<close>

theorem uapi_query_roundtrip:
  assumes "hex_ok E" "\<forall>x. hex_decode E (hex_encode E x) = Some x" "distinct (map fst (dv_peers d))"
    and "\<forall>i. ae_clock (V 0) i < 2 ^ 64 * NANOS" "api_get E NP (ae_clock (V 0)) d = Ok ls"
  shows "uapi_get_peers C E B NP ND Answered V d =
    Ok (d, Ok (map_option (\<lambda>(_, public). b64_encode B public) (dv_key_pair d),
      if dv_listen_port d \<noteq> 0 then Some (dv_listen_port d) else None,
      map_of (handshake_ages (ae_clock (V 0)) (dv_arena d) (dv_peers d))))"
  using uapi_query_read [where V = V, OF assms(1,2,4,5)] ages_rev [OF assms(3)] by simp

section \<open>Registered clients are reachable\<close>

lemma linked_routed:
  assumes "registry_device NP ND EP ED contains trunc d" "registry_linked prefix inner (host_owner ED d)"
    and "map_of (peer_to_octet inner) key = Some octet"
  shows "\<exists>k r. key = hex_of k \<and> map_of (dv_peers d) k = Some r \<and> allowed_find ND (dv_by_ip d) (V4 (client_ip prefix octet)) = Some r
    \<and> is_allowed_ip NP (dv_arena d ! r) (V4 (client_ip prefix octet))"
proof -
  obtain k where k: "key = hex_of k" "host_owner ED d (client_ip prefix octet) = Some k"
    using assms(2,3) unfolding registry_linked_def by blast
  from host_owner_routed [OF _ _ _ k(2), of NP ND EP contains trunc] show ?thesis
    using assms(1) k(1) unfolding registry_device_def by blast
qed

lemma registered_reply_routed:
  assumes hex: "hex_ok E" and good: "registry_device NP ND EP ED contains trunc (w_device w)"
    and lk: "registry_linked (subnet_prefix (w_state w)) (rg_inner (w_state w)) (host_owner ED (w_device w))"
    and rq: "is_register rq" "rq_body rq = Ok (n, body)" "from_json (trim body) = Some j" "Option.bind (jget j ''public_key'') as_str = Some pk"
    and ok: "reg_do C E B from_json rnd NP ND w (Http now v rq) = Ok (w', Some (200, msg))"
  shows "\<exists>k octet r. b64_decode B (trim pk) = Some k \<and> (200, msg) = success_reply E (w_state w') (rg_inner (w_state w')) octet
    \<and> map_of (dv_peers (w_device w')) k = Some r
    \<and> allowed_find ND (dv_by_ip (w_device w')) (V4 (client_ip (subnet_prefix (w_state w')) octet)) = Some r"
proof -
  obtain s d where http: "http_handler C E B from_json rnd NP ND now v rq (w_state w) (w_device w) = Ok (s, d, 200, msg)"
    and w': "w_state w' = s" "w_device w' = d" using ok by (auto simp: rbind_eq_Ok)
  from http show ?thesis
  proof (cases rule: http_handler_cases)
    case unchanged
    then show ?thesis using rq(1) by simp
  next
    case (registration n' body' j' pk' s1)
    then have same: "pk' = pk" using rq by simp
    have "registry_linked (subnet_prefix s1) (rg_inner s1) (host_owner ED (w_device w))" using lk registration(4,5) by (simp add: pool_eq_linked)
    from handle_registration_linked [OF hex good this registration(6)]
    obtain k octet where k: "b64_decode B (trim pk) = Some k" "map_of (peer_to_octet (rg_inner s)) (hex_of k) = Some octet"
      "(200, msg) = success_reply E s (rg_inner s) octet"
      and after: "registry_device NP ND EP ED contains trunc d" "registry_linked (subnet_prefix s) (rg_inner s) (host_owner ED d)"
      by (auto simp: same)
    from linked_routed [OF after k(2)] k w' show ?thesis by (auto simp: hex_of_inj)
  qed
qed

section \<open>Sweeps\<close>

lemma remove_peer_gone: "remove_peer ND os d k = Ok d' \<Longrightarrow> map_of (dv_peers d') = (map_of (dv_peers d))(k := None)"
  by (auto simp: remove_peer_def Let_def rbind_eq_Ok delete_conv' split: option.splits)

lemma reap_answered:
  assumes "\<forall>i. fst (L i) = Answered" "\<forall>(key, octet) \<in> set rs. \<exists>k. key = hex_of k \<and> length k = 32"
    and "reap C E B NP ND L rs inner d = Ok (inner', d')"
  shows "map_of (peer_to_octet inner') key = (if key \<in> fst ` set rs then None else map_of (peer_to_octet inner) key)
    \<and> map_of (dv_peers d') k = (if hex_of k \<in> fst ` set rs then None else map_of (dv_peers d) k)"
  using assms
proof (induction rs arbitrary: L inner d)
  case (Cons p rs)
  obtain key0 octet where p: "p = (key0, octet)" by (cases p)
  then obtain k0 where k0: "key0 = hex_of k0" "length k0 = 32" using Cons.prems(2) by auto
  obtain d1 and r :: "(string, bool) rust" where rm: "uapi_remove_peer C E B NP ND (fst (L 0)) (snd (L 0)) (hex_of k0) d = Ok (d1, r)"
    and step: "reap C E B NP ND (\<lambda>i. L (Suc i)) rs (if r = Ok True then forget_peer key0 octet inner else inner) d1 = Ok (inner', d')"
    using Cons.prems(3) p k0 by (auto simp: rbind_eq_Ok)
  obtain os where os: "remove_peer ND os d k0 = Ok d1" "r = Ok True"
    using uapi_remove_peer_does [OF k0(2) rm] Cons.prems(1) by auto
  have "map_of (peer_to_octet inner') key = (if key \<in> fst ` set rs then None else map_of (peer_to_octet (forget_peer key0 octet inner)) key)
    \<and> map_of (dv_peers d') k = (if hex_of k \<in> fst ` set rs then None else map_of (dv_peers d1) k)"
    using Cons.IH [OF _ _ step] Cons.prems(1,2) os(2) by simp
  then show ?case using remove_peer_gone [OF os(1)] by (auto simp: p k0 forget_peer_def delete_conv' hex_of_inj)
qed simp

lemma sweep_does:
  assumes "pool_ok (rg_inner s)" "\<forall>key octet. map_of (peer_to_octet (rg_inner s)) key = Some octet \<longrightarrow> (\<exists>k. key = hex_of k \<and> length k = 32)"
    and "\<forall>i. fst (L i) = Answered"
    and "reaper_sweep C E B NP ND L now prune_now uapi_peers s d = Ok (s', d')"
  shows "map_of (peer_to_octet (rg_inner s')) key =
      (if is_stale uapi_peers now (rg_inner s) key then None else map_of (peer_to_octet (rg_inner s)) key)
    \<and> map_of (dv_peers d') k =
      (if hex_of k \<in> registered_peers (rg_inner s) \<and> is_stale uapi_peers now (rg_inner s) (hex_of k) then None else map_of (dv_peers d) k)
    \<and> pool_ok (rg_inner s')"
proof -
  let ?rs = "filter (\<lambda>(key, _). is_stale uapi_peers now (rg_inner s) key) (peer_to_octet (rg_inner s))"
  have reap: "reap C E B NP ND L ?rs (rg_inner s) d = Ok (rg_inner s', d')"
    using assms(4) by (auto simp: reaper_sweep_def Let_def rbind_eq_Ok)
  note entries = stale_entries [OF assms(1), where P = "\<lambda>(key, _). is_stale uapi_peers now (rg_inner s) key"]
  have "\<forall>(key, octet) \<in> set ?rs. \<exists>k. key = hex_of k \<and> length k = 32" using entries(2) assms(2) by blast
  note gone = reap_answered [OF assms(3) this reap]
  have mem: "key \<in> fst ` set ?rs \<longleftrightarrow> key \<in> registered_peers (rg_inner s) \<and> is_stale uapi_peers now (rg_inner s) key" for key
    using pool_ok_facts(1) [OF assms(1)] by (force simp: dom_map_of_conv_image_fst)
  have reg: "key \<notin> registered_peers (rg_inner s) \<Longrightarrow> map_of (peer_to_octet (rg_inner s)) key = None" for key
    using registered_iff [OF assms(1)] by blast
  show ?thesis using gone [of key k] mem [of key] mem [of "hex_of k"] reg [of key] reap_pool [OF assms(1) entries reap] by auto
qed

lemma query_answered:
  assumes "uapi_get_peers C E B NP ND Answered V d = Ok (d', r)"
  shows "\<exists>ls. api_get E NP (ae_clock (V 0)) d = Ok ls"
proof -
  have lines: "read_lines (unlines [''get=1'']) = Some (''get=1'' @ [newline]) # []"
    using read_lines_unlines [of "[''get=1'']"] by simp
  show ?thesis
    using assms unfolding uapi_get_peers_def uapi_call_def link.case serve_get [OF lines pop_line] by (auto simp: rbind_eq_Ok)
qed


section \<open>Keys that the device has\<close>

lemma handle_registration_new:
  assumes "b64_decode B (trim pk) = Some k" "length k = 32" "populate_cache C E B NP ND v (rg_inner s) d = Ok (d, Inr inner)"
    and "hex_encode E k \<notin> registered_peers inner" "available_ips inner \<noteq> []"
    and "octet = available_ips inner ! (re_pick v mod length (available_ips inner))"
  shows "handle_registration C E B NP ND v pk s d =
    rbind (uapi_set_peer C E B NP ND (fst (re_set v)) (snd (re_set v)) (hex_encode E k) (client_ip (subnet_prefix s) octet) d) (\<lambda>(d, r).
      case r of
        Ok _ \<Rightarrow> let inner = record_peer (re_instant v) (hex_encode E k) octet inner
                 in Ok (s\<lparr>rg_inner := inner\<rparr>, d, success_reply E s inner octet)
      | Err e \<Rightarrow> Ok (s\<lparr>rg_inner := inner\<rparr>, d, 500, error_body (''internal error: '' @ e))
      | Panic \<Rightarrow> Panic)"
  using assms by (auto simp: handle_registration_def Let_def success_reply_def intro!: rbind_cong split: rust.split)

text \<open>C37. Registering a key that the device has but the registry does not know panics the device: the registry looks the key up among its own
  entries only, and \<^verbatim>\<open>update_peer\<close> panics on a peer that exists. The key of any peer that was configured by hand is such a key, and so is a
  key whose registration reached the device while its answer got lost.\<close>

theorem registering_configured_key_panics:
  assumes "hex_ok E" "b64_decode B (trim pk) = Some k" "length k = 32" "server_pubkey_cache (rg_inner s) \<noteq> None"
    and "map_of (dv_peers d) k \<noteq> None" "hex_of k \<notin> registered_peers (rg_inner s)" "available_ips (rg_inner s) \<noteq> []"
    and "\<forall>e. fst (re_set v) \<noteq> Refused e"
  shows "handle_registration C E B NP ND v pk s d = Panic"
proof -
  have cache: "populate_cache C E B NP ND v (rg_inner s) d = Ok (d, Inr (rg_inner s))" using assms(4) by (simp add: populate_cache_def)
  have "commit_section C NP ND w (client_section k ip) d = Panic" for w ip
    using assms(5) by (simp add: commit_section_def client_section_def section_new_def update_peer_def)
  then have "uapi_set_peer C E B NP ND (fst (re_set v)) V (hex_of k) ip d = Panic" for V ip
    unfolding uapi_set_peer_def uapi_call_def request_texts request_served [OF client_section_wf(1) [OF assms(3)]]
    using assms(8) by (cases "fst (re_set v)") simp_all
  then show ?thesis using handle_registration_new [OF assms(2,3) cache _ assms(7) refl] assms(6)
    by (simp add: hex_ok_encode [OF assms(1)])
qed

section \<open>The sample\<close>

lemma unhex_hex_of: "unhex (hex_of bs) = Some bs"
proof (induction bs)
  case (Cons b bs)
  have "(of_nat (16 * (unat b div 16) + unat b mod 16) :: u8) = b" by simp
  then show ?case using Cons to_digit_hex [OF unat_byte_div [of b]] to_digit_hex [of "unat b mod 16"] by simp
qed simp

lemma hex_eth_ok: "hex_ok hex_eth" "\<forall>x. hex_decode hex_eth (hex_encode hex_eth x) = Some x"
  by (simp_all add: hex_ok_def hex_eth_def unhex_hex_of)

lemma list_table_host_routes: "host_routes contains_ip truncate_ip"
proof -
  have "n = (V4 a, 32)" if t: "truncate_ip x l = Some n" "contains_ip n (V4 a)" "32 \<le> snd n" for x l n a
  proof -
    obtain b m where n: "n = (V4 b, m)" using t(2) by (cases n; cases "fst n") auto
    have "m \<le> 32" using t(1) n by (cases x) (auto split: if_splits)
    then have "m = 32" using t(3) n by simp
    then show ?thesis using t(2) n by simp
  qed
  then show ?thesis unfolding host_routes_def by auto
qed

lemma sample_server_Ok:
  "case sample_server of
     Ok d \<Rightarrow> api_get hex_eth list_table (\<lambda>_. 0) d = Ok [field_line ''own_public_key'' (hex_of (pubkey toy_crypto (replicate 32 1)))]
       \<and> dv_key_pair d = Some (replicate 32 1, pubkey toy_crypto (replicate 32 1)) \<and> dv_peers d = [] \<and> dv_listen_port d = 0
       \<and> (case commit_section toy_crypto list_table list_table sample_api (client_section sample_client (client_ip (10, 0, 0) 2)) d of
            Ok d' \<Rightarrow> map_of (dv_peers d') sample_client = Some 0 | _ \<Rightarrow> False)
   | _ \<Rightarrow> False"
  by code_simp

lemma sample_pool: "available_ips (rg_inner (registration_new E env p c ip)) = 2 # map of_nat [3..<255]"
  by (simp only: registration_new_def reg_state.simps reg_inner.simps pool_octets_def) (simp add: upt_conv_Cons del: upt_rec_numeral)

lemma sample_trim: "trim (replicate 32 CHR ''A'') = replicate 32 CHR ''A''"
  "b64_decode sample_base64 (replicate 32 CHR ''A'') = Some sample_client" "length sample_client = 32"
  by code_simp+

text \<open>The sample client registers and is given the first address.\<close>

lemma sample_registration:
  obtains w d w' d' msg where "sample_server = Ok d" "sample_world = Ok w" "w_device w = d" "dv_peers d = []"
    "reg_do toy_crypto hex_eth sample_base64 sample_json id list_table list_table w (Http (0, 0) sample_reg_env sample_register) = Ok (w', Some (200, msg))"
    "map_of (peer_to_octet (rg_inner (w_state w'))) (hex_of sample_client) = Some 2" "w_device w' = d'"
    "map_of (dv_peers d') sample_client = Some 0" "w_snapshot w' = None" "server_pubkey_cache (rg_inner (w_state w')) \<noteq> None"
    "peer_to_octet (rg_inner (w_state w')) = [(hex_of sample_client, 2)]"
    "available_ips (rg_inner (w_state w')) \<noteq> []"
proof -
  let ?C = toy_crypto and ?E = hex_eth and ?B = sample_base64 and ?T = "list_table :: (unit, (ip_network \<times> unit) list) net_table"
    and ?D = "list_table :: (nat, (ip_network \<times> nat) list) net_table" and ?v = sample_reg_env
  obtain d d' where d: "sample_server = Ok d" "api_get ?E ?T (\<lambda>_. 0) d = Ok [field_line ''own_public_key'' (hex_of (pubkey ?C (replicate 32 1)))]"
    "dv_key_pair d = Some (replicate 32 1, pubkey ?C (replicate 32 1))" "dv_peers d = []" "dv_listen_port d = 0"
    "commit_section ?C ?T ?D sample_api (client_section sample_client (client_ip (10, 0, 0) 2)) d = Ok d'"
    "map_of (dv_peers d') sample_client = Some 0"
    using sample_server_Ok by (auto split: rust.splits)
  let ?w = "world_new ?E (\<lambda>_. None) (10, 0, 0) sample_snapshot [] d"
  let ?s = "w_state ?w"
  let ?inner = "(rg_inner ?s)\<lparr>server_pubkey_cache := Some (b64_encode ?B (pubkey ?C (replicate 32 1))), listen_port_cache := None\<rparr>"
  have clk: "\<forall>i. ae_clock ((\<lambda>_. sample_api) 0) i < 2 ^ 64 * NANOS" "ae_clock sample_api = (\<lambda>_. 0)" by (simp_all add: sample_api_def NANOS_def)
  have "uapi_get_peers ?C ?E ?B ?T ?D Answered (\<lambda>_. sample_api) d =
      Ok (d, Ok (Some (b64_encode ?B (pubkey ?C (replicate 32 1))), None, Map.empty))"
    using uapi_query_read [OF hex_eth_ok clk(1), of ?T d] d(2-5) clk(2) by simp
  moreover have "server_pubkey_cache (rg_inner ?s) = None" by (simp add: world_new_def registration_new_def)
  ultimately have cache: "populate_cache ?C ?E ?B ?T ?D ?v (rg_inner ?s) d = Ok (d, Inr ?inner)"
    by (simp add: populate_cache_def sample_reg_env_def)
  have pool: "available_ips ?inner = 2 # map of_nat [3..<255]" by (simp add: world_new_def sample_pool del: upt_rec_numeral)
  have octet: "2 = available_ips ?inner ! (re_pick ?v mod length (available_ips ?inner))"
    unfolding pool by (simp add: sample_reg_env_def)
  have fresh: "hex_encode ?E sample_client \<notin> registered_peers ?inner" by (simp add: world_new_def registration_new_def)
  have prefix: "subnet_prefix ?s = (10, 0, 0)" by (simp add: world_new_def registration_new_def)
  have set: "uapi_set_peer ?C ?E ?B ?T ?D Answered (\<lambda>_. sample_api) (hex_of sample_client) (client_ip (10, 0, 0) 2) d = Ok (d', Ok ())"
    unfolding uapi_set_peer_def uapi_call_def request_texts request_served [OF client_section_wf(1) [OF sample_trim(3)]]
    by (simp add: d(6) errno_0_answer del: unlines_Cons)
  let ?inner' = "record_peer 0 (hex_of sample_client) 2 ?inner"
  have reg: "handle_registration ?C ?E ?B ?T ?D ?v (replicate 32 CHR ''A'') ?s d =
      Ok (?s\<lparr>rg_inner := ?inner'\<rparr>, d', success_reply ?E ?s ?inner' 2)"
    using handle_registration_new [of ?B "replicate 32 CHR ''A''" sample_client ?C ?E ?T ?D ?v ?s d ?inner 2, OF _ _ cache fresh _ octet] pool sample_trim prefix set
    by (simp add: sample_reg_env_def hex_ok_encode [OF hex_eth_ok(1)] Let_def del: upt_rec_numeral)
  let ?w' = "?w\<lparr>w_state := ?s\<lparr>rg_inner := ?inner'\<rparr>, w_device := d'\<rparr>"
  have v2: "handle_registration_v2 ?C ?E ?B sample_json ?T ?D ?v (replicate 32 CHR ''A'') ?s d =
      handle_registration ?C ?E ?B ?T ?D ?v (replicate 32 CHR ''A'') ?s d"
    by (simp only: handle_registration_v2_def sample_trim(1) sample_json_def option.case jget.simps)
      (simp add: human_only_def sample_reg_env_def)
  have "http_handler ?C ?E ?B sample_json id ?T ?D (0, 0) ?v sample_register ?s d =
      handle_registration_v2 ?C ?E ?B sample_json ?T ?D ?v (replicate 32 CHR ''A'') ?s d"
    by (simp add: http_handler_def rate_limit_def sample_register_def MAX_BODY_BYTES_def)
  moreover have "w_device ?w = d" by (simp add: world_new_def)
  ultimately have run: "reg_do ?C ?E ?B sample_json id ?T ?D ?w (Http (0, 0) ?v sample_register) = Ok (?w', Some (success_reply ?E ?s ?inner' 2))"
    using v2 reg by simp
  show thesis
  proof (rule that [of d ?w ?w' "snd (success_reply ?E ?s ?inner' 2)" d'])
    show "reg_do ?C ?E ?B sample_json id ?T ?D ?w (Http (0, 0) ?v sample_register) = Ok (?w', Some (200, snd (success_reply ?E ?s ?inner' 2)))"
      using run by (simp add: success_reply_def)
    have empty: "peer_to_octet ?inner = []" by (simp add: world_new_def registration_new_def)
    show "available_ips (rg_inner (w_state ?w')) \<noteq> []"
    proof -
      have "[3..<255] = 3 # [4..<255::nat]" using upt_conv_Cons [of 3 255] by (simp del: upt_rec_numeral)
      then show ?thesis by (simp add: record_peer_def set_remove_def pool del: upt_rec_numeral)
    qed
    show "peer_to_octet (rg_inner (w_state ?w')) = [(hex_of sample_client, 2)]"
      "map_of (peer_to_octet (rg_inner (w_state ?w'))) (hex_of sample_client) = Some 2"
      using empty by (simp_all add: record_peer_def)
    show "sample_world = Ok ?w" unfolding sample_world_def d(1) by (rule rbind.simps)
  qed (use d in \<open>simp_all add: world_new_def record_peer_def\<close>)
qed

lemma sample_registry_device: "sample_server = Ok d \<Longrightarrow> registry_device list_table list_table map_of map_of contains_ip truncate_ip d"
proof -
  assume d: "sample_server = Ok d"
  have seeded: "lfsr_default [5, 7] = Some (\<lparr>initial = 5, lfsr = 5, mask = 7\<rparr>, [])" by code_simp
  have "routes_ok map_of map_of truncate_ip d"
    using configured.run_keeps [OF _ d [unfolded sample_server_def], of map_of map_of contains_ip truncate_ip]
      new_device_routes [OF list_tables_ok seeded] list_tables_ok by blast
  then show ?thesis using list_tables_ok list_table_host_routes by (simp add: registry_device_def)
qed

theorem address_pool_sound_witness:
  "\<exists>d w. sample_server = Ok d
     \<and> fst (run (reg_step toy_crypto hex_eth sample_base64 sample_json id list_table list_table)
         (Ok (world_new hex_eth (\<lambda>_. None) (10, 0, 0) sample_snapshot [] d)) [Http (0, 0) sample_reg_env sample_register]) = Ok w
     \<and> map_of (peer_to_octet (rg_inner (w_state w))) (hex_of sample_client) = Some 2
     \<and> 2 \<notin> set (available_ips (rg_inner (w_state w))) \<and> length (available_ips (rg_inner (w_state w))) = 252"
proof (rule sample_registration)
  fix w d w' d' msg
  assume d: "sample_server = Ok d" and w: "sample_world = Ok w"
    and step: "reg_do toy_crypto hex_eth sample_base64 sample_json id list_table list_table w (Http (0, 0) sample_reg_env sample_register) = Ok (w', Some (200, msg))"
    and oct: "map_of (peer_to_octet (rg_inner (w_state w'))) (hex_of sample_client) = Some 2"
    and len: "peer_to_octet (rg_inner (w_state w')) = [(hex_of sample_client, 2)]"
  have w0: "w = world_new hex_eth (\<lambda>_. None) (10, 0, 0) sample_snapshot [] d" using w unfolding sample_world_def d by simp
  have run: "fst (run (reg_step toy_crypto hex_eth sample_base64 sample_json id list_table list_table)
      (Ok (world_new hex_eth (\<lambda>_. None) (10, 0, 0) sample_snapshot [] d)) [Http (0, 0) sample_reg_env sample_register]) = Ok w'"
    using step by (simp add: run_Cons reg_step_def w0)
  note sound = address_pool_sound [OF run refl]
  have "2 \<notin> set (available_ips (rg_inner (w_state w')))" using sound oct by blast
  moreover have "length (available_ips (rg_inner (w_state w'))) + length (peer_to_octet (rg_inner (w_state w'))) = 253" using sound by blast
  then have "length (available_ips (rg_inner (w_state w'))) = 252" unfolding len by simp
  ultimately show ?thesis using d run oct by blast
qed



theorem uapi_query_roundtrip_witness:
  "\<exists>d. sample_server = Ok d \<and> uapi_get_peers toy_crypto hex_eth sample_base64 list_table list_table Answered (\<lambda>_. sample_api) d =
     Ok (d, Ok (Some (b64_encode sample_base64 (pubkey toy_crypto (replicate 32 1))), None, Map.empty))"
proof -
  obtain d where d: "sample_server = Ok d" "api_get hex_eth list_table (\<lambda>_. 0) d = Ok [field_line ''own_public_key'' (hex_of (pubkey toy_crypto (replicate 32 1)))]"
    "dv_key_pair d = Some (replicate 32 1, pubkey toy_crypto (replicate 32 1))" "dv_peers d = []" "dv_listen_port d = 0"
    using sample_server_Ok by (auto split: rust.splits)
  have clk: "\<forall>i. ae_clock ((\<lambda>_. sample_api) 0) i < 2 ^ 64 * NANOS" "ae_clock sample_api = (\<lambda>_. 0)" by (simp_all add: sample_api_def NANOS_def)
  have "distinct (map fst (dv_peers d))" by (simp add: d(4))
  from uapi_query_roundtrip [OF hex_eth_ok this clk(1), of list_table _ toy_crypto sample_base64 list_table]
  have "uapi_get_peers toy_crypto hex_eth sample_base64 list_table list_table Answered (\<lambda>_. sample_api) d =
      Ok (d, Ok (Some (b64_encode sample_base64 (pubkey toy_crypto (replicate 32 1))), None, Map.empty))" using d clk(2) by simp
  then show ?thesis using d(1) by blast
qed

text \<open>C38. A client that registers between the query and the sweep of the reaper is removed at once, although it is not stale: the answer to the
  query does not list it, so the sweep takes it for a peer that the device lost, and removes it from device and registry.\<close>

theorem reaper_drops_new_client:
  assumes hex: "hex_ok E" "\<forall>x. hex_decode E (hex_encode E x) = Some x"
    and good: "registry_device NP ND EP ED contains trunc (w_device w)"
    and lk: "registry_linked (subnet_prefix (w_state w)) (rg_inner (w_state w)) (host_owner ED (w_device w))"
    and clk: "\<forall>i. ae_clock (V 0) i < 2 ^ 64 * NANOS"
    and new: "map_of (dv_peers (w_device w)) k = None"
    and query: "reg_do C E B from_json rnd NP ND w (ReaperQuery Answered V) = Ok (w1, r1)"
    and register: "reg_do C E B from_json rnd NP ND w1 (Http now v rq) = Ok (w2, Some (200, msg))"
      "map_of (peer_to_octet (rg_inner (w_state w2))) (hex_of k) = Some octet"
    and sweep: "reg_do C E B from_json rnd NP ND w2 (ReaperSweep L instant prune_now) = Ok (w3, r3)" "\<forall>i. fst (L i) = Answered"
  shows "map_of (peer_to_octet (rg_inner (w_state w3))) (hex_of k) = None \<and> map_of (dv_peers (w_device w3)) k = None"
proof -
  obtain d1 r where "uapi_get_peers C E B NP ND Answered V (w_device w) = Ok (d1, r)" using query by (auto simp: rbind_eq_Ok)
  then obtain ls where "api_get E NP (ae_clock (V 0)) (w_device w) = Ok ls" using query_answered by blast
  from uapi_query_read [where V = V, OF hex clk this]
  have w1: "w1 = w\<lparr>w_snapshot := Some (map_of (rev (handshake_ages (ae_clock (V 0)) (dv_arena (w_device w)) (dv_peers (w_device w)))))\<rparr>"
    using query by simp
  have "linked_inv E NP ND EP ED contains trunc (Ok w1)" using good lk hex(1) by (simp add: w1 linked_inv_def)
  then have inv: "registry_device NP ND EP ED contains trunc (w_device w2)
      \<and> registry_linked (subnet_prefix (w_state w2)) (rg_inner (w_state w2)) (host_owner ED (w_device w2))"
    using reg_do_linked [OF hex(1) _ _ _ register(1), of EP ED contains trunc] hex(1) by (simp add: linked_inv_def)
  have snapshot: "w_snapshot w2 = w_snapshot w1" using register(1) by (auto simp: rbind_eq_Ok)
  have "hex_of k \<notin> fst ` set (handshake_ages (ae_clock (V 0)) (dv_arena (w_device w)) (dv_peers (w_device w)))"
    using new fst_ages [of "ae_clock (V 0)" "dv_arena (w_device w)" "dv_peers (w_device w)"]
    by (metis (mono_tags, lifting) hex_of_inj image_iff list.set_map map_of_eq_None_iff)
  then have unseen: "map_of (rev (handshake_ages (ae_clock (V 0)) (dv_arena (w_device w)) (dv_peers (w_device w)))) (hex_of k) = None"
    by (simp add: map_of_eq_None_iff)
  obtain s3 d3 where sw: "reaper_sweep C E B NP ND L instant prune_now
      (map_of (rev (handshake_ages (ae_clock (V 0)) (dv_arena (w_device w)) (dv_peers (w_device w))))) (w_state w2) (w_device w2) = Ok (s3, d3)"
    and w3: "w_state w3 = s3" "w_device w3 = d3"
    using sweep(1) snapshot by (auto simp: rbind_eq_Ok w1)
  have pool: "pool_ok (rg_inner (w_state w2))" using inv by (simp add: registry_linked_def)
  then have "hex_of k \<in> registered_peers (rg_inner (w_state w2))" using register(2) registered_iff by blast
  moreover have "\<forall>key octet. map_of (peer_to_octet (rg_inner (w_state w2))) key = Some octet \<longrightarrow> (\<exists>k. key = hex_of k \<and> length k = 32)"
    using inv unfolding registry_linked_def by blast
  ultimately show ?thesis
    using sweep_does [OF pool _ sweep(2) sw, of "hex_of k" k] unseen w3 by (simp add: is_stale_def)
qed

lemma sample_sweep:
  assumes "peer_to_octet (rg_inner s) = [(hex_of k, octet)]" "length k = 32"
  shows "\<exists>s' d'. reaper_sweep C E B NP ND (\<lambda>_. (Answered, \<lambda>_. sample_api)) now prune_now uapi_peers s d = Ok (s', d')"
proof -
  have "\<exists>d'. remove_peer ND (ae_os sample_api) d k = Ok d'"
    by (auto simp: remove_peer_def Let_def shutdown_endpoint_def sample_api_def split: option.split)
  then obtain d' where "remove_peer ND (ae_os sample_api) d k = Ok d'" by blast
  then have "commit_section C NP ND sample_api (removal_section k) d = Ok d'"
    by (simp add: commit_section_def removal_section_def section_new_def update_peer_def)
  then have "uapi_remove_peer C E B NP ND Answered (\<lambda>_. sample_api) (hex_of k) d = Ok (d', Ok True)"
    unfolding uapi_remove_peer_def uapi_call_def request_texts request_served [OF client_section_wf(2) [OF assms(2)]]
    by (simp add: errno_0_answer del: unlines_Cons)
  then show ?thesis using assms(1) by (simp add: reaper_sweep_def Let_def)
qed


theorem registering_configured_key_panics_witness:
  "\<exists>s d. sample_device = Ok d \<and> map_of (dv_peers d) (replicate 32 2) = Some 0
     \<and> handle_registration toy_crypto hex_eth sample_base64 list_table list_table sample_reg_env (replicate 32 (CHR 0x02)) s d = Panic"
proof (rule sample_registration)
  fix w d w' d' msg
  assume cache: "server_pubkey_cache (rg_inner (w_state w')) \<noteq> None" and free: "available_ips (rg_inner (w_state w')) \<noteq> []"
    and d: "sample_server = Ok d" and w: "sample_world = Ok w"
    and step: "reg_do toy_crypto hex_eth sample_base64 sample_json id list_table list_table w (Http (0, 0) sample_reg_env sample_register) = Ok (w', Some (200, msg))"
    and reg: "peer_to_octet (rg_inner (w_state w')) = [(hex_of sample_client, 2)]"
  have "case sample_device of Ok d \<Rightarrow> map_of (dv_peers d) (replicate 32 2) = Some 0 | _ \<Rightarrow> False" by code_simp
  then obtain e where e: "sample_device = Ok e" "map_of (dv_peers e) (replicate 32 2) = Some 0" by (auto split: rust.splits)
  have "w = world_new hex_eth (\<lambda>_. None) (10, 0, 0) sample_snapshot [] d" using w unfolding sample_world_def d by simp
  then have "pool_ok (rg_inner (w_state w))" using pool_new by (simp add: world_new_def)
  from reg_do_pool [OF this step] have pool: "pool_ok (rg_inner (w_state w'))" .
  have "replicate 32 2 \<noteq> sample_client" by (simp add: sample_client_def)
  then have fresh: "hex_of (replicate 32 2) \<notin> registered_peers (rg_inner (w_state w'))"
    using registered_iff [OF pool] reg hex_of_inj by auto
  have key: "b64_decode sample_base64 (trim (replicate 32 (CHR 0x02))) = Some (replicate 32 2)" by code_simp
  have "handle_registration toy_crypto hex_eth sample_base64 list_table list_table sample_reg_env (replicate 32 (CHR 0x02)) (w_state w') e = Panic"
    by (rule registering_configured_key_panics [OF hex_eth_ok(1) key _ cache _ fresh free]) (simp_all add: e(2) sample_reg_env_def)
  then show ?thesis using e by blast
qed

lemma http_keeps_snapshot:
  "reg_do C E B from_json rnd NP ND w (Http now v rq) = Ok (w', r)
   \<Longrightarrow> reg_do C E B from_json rnd NP ND (w\<lparr>w_snapshot := x\<rparr>) (Http now v rq) = Ok (w'\<lparr>w_snapshot := x\<rparr>, r)"
  by (auto simp: rbind_eq_Ok)

theorem reaper_drops_new_client_witness:
  "\<exists>d w1 w2 w3. sample_server = Ok d
     \<and> reg_do toy_crypto hex_eth sample_base64 sample_json id list_table list_table
         (world_new hex_eth (\<lambda>_. None) (10, 0, 0) sample_snapshot [] d) (ReaperQuery Answered (\<lambda>_. sample_api)) = Ok (w1, None)
     \<and> (\<exists>msg. reg_do toy_crypto hex_eth sample_base64 sample_json id list_table list_table w1 (Http (0, 0) sample_reg_env sample_register) = Ok (w2, Some (200, msg)))
     \<and> map_of (dv_peers (w_device w2)) sample_client = Some 0
     \<and> reg_do toy_crypto hex_eth sample_base64 sample_json id list_table list_table w2 (ReaperSweep (\<lambda>_. (Answered, \<lambda>_. sample_api)) 0 (\<lambda>_. 0)) = Ok (w3, None)
     \<and> map_of (peer_to_octet (rg_inner (w_state w3))) (hex_of sample_client) = None \<and> map_of (dv_peers (w_device w3)) sample_client = None"
proof (rule sample_registration)
  fix w d w' d' msg
  let ?do = "reg_do toy_crypto hex_eth sample_base64 sample_json id list_table list_table"
  assume d: "sample_server = Ok d" and w: "sample_world = Ok w" and dev: "w_device w = d" "dv_peers d = []"
    and step: "?do w (Http (0, 0) sample_reg_env sample_register) = Ok (w', Some (200, msg))"
    and oct: "map_of (peer_to_octet (rg_inner (w_state w'))) (hex_of sample_client) = Some 2"
    and peer: "w_device w' = d'" "map_of (dv_peers d') sample_client = Some 0"
    and reg: "peer_to_octet (rg_inner (w_state w')) = [(hex_of sample_client, 2)]"
  have w0: "w = world_new hex_eth (\<lambda>_. None) (10, 0, 0) sample_snapshot [] d" using w unfolding sample_world_def d by simp
  have good: "registry_device list_table list_table map_of map_of contains_ip truncate_ip (w_device w)"
    using sample_registry_device [OF d] dev(1) by simp
  have "linked_inv hex_eth list_table list_table map_of map_of contains_ip truncate_ip (Ok w)"
    unfolding w0 by (rule world_new_linked [OF sample_registry_device [OF d]])
  then have lk: "registry_linked (subnet_prefix (w_state w)) (rg_inner (w_state w)) (host_owner map_of (w_device w))"
    using hex_eth_ok(1) by (simp add: linked_inv_def)
  have clk: "\<forall>i. ae_clock ((\<lambda>_. sample_api) 0) i < 2 ^ 64 * NANOS" "ae_clock sample_api = (\<lambda>_. 0)" by (simp_all add: sample_api_def NANOS_def)
  obtain own where "api_get hex_eth list_table (ae_clock sample_api) d = Ok own"
    using sample_server_Ok unfolding d rust.case clk(2) by blast
  then obtain ans where "uapi_get_peers toy_crypto hex_eth sample_base64 list_table list_table Answered (\<lambda>_. sample_api) d = Ok (d, ans)"
    using uapi_query_read [OF hex_eth_ok clk(1), of list_table d] by simp
  moreover have "w\<lparr>w_device := d, w_snapshot := x\<rparr> = w\<lparr>w_snapshot := x\<rparr>" for x using dev(1) by (cases w) simp
  ultimately obtain snap where query: "?do w (ReaperQuery Answered (\<lambda>_. sample_api)) = Ok (w\<lparr>w_snapshot := snap\<rparr>, None)"
    using dev(1) by simp
  have register: "?do (w\<lparr>w_snapshot := snap\<rparr>) (Http (0, 0) sample_reg_env sample_register) = Ok (w'\<lparr>w_snapshot := snap\<rparr>, Some (200, msg))"
    by (rule http_keeps_snapshot [OF step])
  have oct': "map_of (peer_to_octet (rg_inner (w_state (w'\<lparr>w_snapshot := snap\<rparr>)))) (hex_of sample_client) = Some 2" using oct by simp
  have "\<exists>w3. ?do (w'\<lparr>w_snapshot := snap\<rparr>) (ReaperSweep (\<lambda>_. (Answered, \<lambda>_. sample_api)) 0 (\<lambda>_. 0)) = Ok (w3, None)"
  proof (cases snap)
    case (Some peers)
    obtain s3 d3 where "reaper_sweep toy_crypto hex_eth sample_base64 list_table list_table (\<lambda>_. (Answered, \<lambda>_. sample_api)) 0 (\<lambda>_. 0) peers
        (w_state w') (w_device w') = Ok (s3, d3)" using sample_sweep [OF reg sample_trim(3)] by blast
    then show ?thesis using Some by simp
  qed simp
  then obtain w3 where sweep: "?do (w'\<lparr>w_snapshot := snap\<rparr>) (ReaperSweep (\<lambda>_. (Answered, \<lambda>_. sample_api)) 0 (\<lambda>_. 0)) = Ok (w3, None)" by blast
  have new: "map_of (dv_peers (w_device w)) sample_client = None" using dev by simp
  have "map_of (peer_to_octet (rg_inner (w_state w3))) (hex_of sample_client) = None \<and> map_of (dv_peers (w_device w3)) sample_client = None"
    by (rule reaper_drops_new_client [OF hex_eth_ok good lk clk(1) new query register oct' sweep]) simp
  moreover have "map_of (dv_peers (w_device (w'\<lparr>w_snapshot := snap\<rparr>))) sample_client = Some 0" using peer by simp
  ultimately show ?thesis using d query [unfolded w0] register [unfolded w0] sweep by blast
qed

end
