(* ===== verification/Spec2Isabelle.thy ===== *)
theory Spec2Isabelle
  imports Bandwidth_Quota Payment_Protocol Tunnel_Delivery Payment_Exchange Registration
begin

text \<open>
  Verification of veil-vpn: a WireGuard tunnel (a fork of boringtun) whose traffic is metered and paid for in USDC.

  \<^bold>\<open>The program.\<close> A device (\<^verbatim>\<open>src/protocol/boringtun/src/device\<close>) owns a tun interface, two UDP sockets and its peers. Every
  peer has a tunnel (\<^verbatim>\<open>noise\<close>): a handshake gives sessions, sessions seal and open packets, a rate limiter that the tunnels share
  guards the handshakes, and timers expire what is old. With the payment feature (\<^verbatim>\<open>payment\<close>) every peer of a server has a quota of
  bytes. A packet that exhausts it is answered with a request for payment, sent as a packet inside the tunnel; the client
  signs an EIP-3009 authorization with a wallet derived from its WireGuard key and sends it back; the server checks it, has it settled
  and credits the quota. A device is configured over a Unix socket, and a registration server hands out addresses over HTTP and
  configures its clients over that same socket.

  \<^bold>\<open>Theories and sources.\<close> Paths are relative to \<^verbatim>\<open>src/protocol/boringtun/src\<close>.
  \<^item> \<open>Veil_Prelude\<close>: words, outcomes of Rust calls (\<open>Ok\<close>, \<open>Err\<close>, \<open>Panic\<close>), checked slices, byte images. \<open>Machines\<close>: runs of a step
    function and the contracts (locales) \<open>invariant_machine\<close>, \<open>safe_machine\<close>, \<open>replay_guard\<close> and \<open>metered\<close>, which the components
    interpret. \<open>Rust_Text\<close>, \<open>Net_Text\<close>: the string and address functions of the standard library that the sources use.
  \<^item> \<open>Noise_Base\<close>, \<open>Noise_Packets\<close>: \<^verbatim>\<open>noise/errors.rs\<close>; message kinds and \<^verbatim>\<open>parse_incoming_packet\<close> of \<^verbatim>\<open>noise/mod.rs\<close>.
  \<^item> \<open>Replay_Window\<close>, \<open>Session\<close>: \<^verbatim>\<open>noise/session.rs\<close>. \<open>Handshake\<close>: \<^verbatim>\<open>noise/handshake.rs\<close>. \<open>Rate_Limiter\<close>: \<^verbatim>\<open>noise/rate_limiter.rs\<close>.
  \<^item> \<open>Tunnel\<close>, \<open>Tunnel_Delivery\<close>: \<^verbatim>\<open>Tunn\<close> of \<^verbatim>\<open>noise/mod.rs\<close> and \<^verbatim>\<open>noise/timers.rs\<close>.
  \<^item> \<open>Bandwidth_Quota\<close>: \<^verbatim>\<open>payment/quota.rs\<close>. \<open>Payment_Protocol\<close>: \<^verbatim>\<open>payment/protocol.rs\<close>. \<open>Eth_Wallet\<close>: \<^verbatim>\<open>payment/mod.rs\<close>, \<^verbatim>\<open>wallet.rs\<close>,
    \<^verbatim>\<open>eip3009.rs\<close>. \<open>Eth_Transaction\<close>: \<^verbatim>\<open>payment/tx.rs\<close>. \<open>Eth_Deposit\<close>: \<^verbatim>\<open>payment/rpc.rs\<close>, \<^verbatim>\<open>deposit.rs\<close> and the requests of
    \<^verbatim>\<open>settlement.rs\<close>.
  \<^item> \<open>Index_Lfsr\<close>, \<open>Device_Peers\<close>: \<^verbatim>\<open>device/allowed_ips.rs\<close>, \<^verbatim>\<open>device/peer.rs\<close> and the configuring operations of \<^verbatim>\<open>device/mod.rs\<close>.
    \<open>Device_Payment\<close>: its payment handlers. \<open>Device_Loop\<close>: its event handlers.
    \<open>Device_Safety\<close>, \<open>Device_Metering\<close> and \<open>Payment_Exchange\<close> add no code; they prove properties of whole devices.
  \<^item> \<open>Uapi\<close>: \<^verbatim>\<open>device/api.rs\<close>, \<^verbatim>\<open>serialization.rs\<close> and the parser of allowed addresses. \<open>Registration\<close>: \<^verbatim>\<open>device/http_api.rs\<close>.

  \<^bold>\<open>Correspondence.\<close> A struct is a record, an enum a datatype, and a method one definition of the same name that takes the state and
  returns it changed. A mutex or an atomic is a field, and operations happen in sequences of steps; where the source releases a lock
  between two actions (the query and the sweep of the reaper) they are two steps. Objects shared by reference (peers and rate
  limiters of a device) are entries of an arena. Clocks, randomness, sockets and answers of services are arguments; third-party
  crates are records of functions (\<open>crypto\<close>, \<open>eth_crypto\<close>, \<open>base64\<close>, \<open>net_table\<close>) with documented laws as named hypotheses, and
  executable instances for the witnesses. Integers keep their width and wrap.

  \<^bold>\<open>What is shown.\<close>
  \<^item> Tunnel: packets given to an idle tunnel arrive, streams are opened as they were sealed, both ends of a handshake agree on
    keys, no packet counter and no initiation is accepted twice, sessions expire, unanswered handshakes are given up, cookies work,
    and nothing that is sent or received makes a tunnel panic or hang. The bitmap window refines a window over natural numbers.
  \<^item> Payment: messages and transactions are read back as written, signatures are sound, an exhausted quota leads to a payment and a
    credit over the wire, a server forwards no byte that is neither free nor paid for, a deposit is sent at most once.
  \<^item> Device: after any configuration its tables agree, and no event makes it panic or hang.
  \<^item> Configuration and registration: printed requests do what they say, printed answers are read back, the pool of addresses stays
    sound under every interleaving, registered clients are routed at the address they were told, a sweep removes the stale clients only.
  \<^item> Defects: theorems with the kind error show inputs on which the code does not do what it means to: a failed settlement
    strands a peer, a payment counts for several peers, a client signs any request, one section of a configuration request leaks
    into the next, registering a configured key panics, a client can be reaped right after it registered.

  \<^bold>\<open>Bounds and fuel.\<close> The word-clearing loop of the replay window is a partial function, \<open>None\<close> when it diverges, and
  \<open>mark_did_receive_returns\<close> shows that it does not. The loop that flushes a queue runs on fuel, which the safety theorem shows to be
  enough: a queue holds at most 256 packets. The rounding of floating point numbers in the token bucket is a parameter, monotone and
  exact on small integers. Peer indices are distinct until the shift register is back at its seed, where the source panics.

  \<^bold>\<open>Not modelled.\<close> System calls and their wrappers (event queues, tun devices, privileges, clocks), the readers-writer lock of the
  device, the WebSocket bridge, the C and Java interfaces, the command line, the desktop client, the contracts, the attestation
  service, and the HTTP transport of settlement and RPC. They are I/O, or share no state with what is modelled.
\<close>

end
